(* ===== verification/Prelude.thy ===== *)
theory Prelude
  imports Main "HOL-Library.Word" "HOL-Library.Monad_Syntax" "HOL-Library.Sublist"
begin

unbundle bit_operations_syntax

text \<open>
  Shared material of the development: the Go integer and byte types, the byte orders of
  \<^verbatim>\<open>encoding/binary\<close>, the bits of a byte string in network order, bounds-checked slices, and
  the generic lemmas the component theories use. A Go value that a panic would
  replace is an \<^typ>\<open>'a option\<close> with \<^const>\<open>None\<close> for the panic; a Go error return is a value
  of a sum type with \<^const>\<open>Inl\<close> for the error.
\<close>

section \<open>Types\<close>

type_synonym byte = "8 word"
type_synonym bytes = "8 word list"
type_synonym u16 = "16 word"
type_synonym u32 = "32 word"
type_synonym u64 = "64 word"

named_theorems blind \<open>updates of the state that an observation does not see\<close>

section \<open>Byte orders\<close>

fun le_nat :: "bytes \<Rightarrow> nat" where
  "le_nat [] = 0"
| "le_nat (b # bs) = unat b + 256 * le_nat bs"

fun le_bytes :: "nat \<Rightarrow> nat \<Rightarrow> bytes" where
  "le_bytes 0 x = []"
| "le_bytes (Suc n) x = of_nat (x mod 256) # le_bytes n (x div 256)"

definition be_nat :: "bytes \<Rightarrow> nat" where
  "be_nat bs = le_nat (rev bs)"

definition be_bytes :: "nat \<Rightarrow> nat \<Rightarrow> bytes" where
  "be_bytes n x = rev (le_bytes n x)"

definition le_u32 :: "bytes \<Rightarrow> u32" where
  "le_u32 bs = of_nat (le_nat (take 4 bs))"

definition le_u64 :: "bytes \<Rightarrow> u64" where
  "le_u64 bs = of_nat (le_nat (take 8 bs))"

definition put_le32 :: "u32 \<Rightarrow> bytes" where
  "put_le32 w = le_bytes 4 (unat w)"

definition put_le64 :: "u64 \<Rightarrow> bytes" where
  "put_le64 w = le_bytes 8 (unat w)"

definition be_u16 :: "bytes \<Rightarrow> u16" where
  "be_u16 bs = of_nat (be_nat (take 2 bs))"

definition put_be32 :: "u32 \<Rightarrow> bytes" where
  "put_be32 w = be_bytes 4 (unat w)"

definition put_be64 :: "u64 \<Rightarrow> bytes" where
  "put_be64 w = be_bytes 8 (unat w)"

section \<open>Slices\<close>

text \<open>The Go slice expression \<^verbatim>\<open>xs[a:b]\<close> on a slice with no spare capacity.\<close>

definition slice :: "nat \<Rightarrow> nat \<Rightarrow> 'a list \<Rightarrow> 'a list option" where
  "slice a b xs = (if a \<le> b \<and> b \<le> length xs then Some (take (b - a) (drop a xs)) else None)"

definition at :: "'a list \<Rightarrow> nat \<Rightarrow> 'a option" where
  "at xs i = (if i < length xs then Some (xs ! i) else None)"

section \<open>Bits of a byte string, most significant first\<close>

definition byte_bits :: "byte \<Rightarrow> bool list" where
  "byte_bits b = map (\<lambda>i. bit b (7 - i)) [0..<8]"

definition bits_of :: "bytes \<Rightarrow> bool list" where
  "bits_of bs = concat (map byte_bits bs)"

fun common_prefix_len :: "bool list \<Rightarrow> bool list \<Rightarrow> nat" where
  "common_prefix_len (x # xs) (y # ys) = (if x = y then Suc (common_prefix_len xs ys) else 0)"
| "common_prefix_len _ _ = 0"

section \<open>Lemmas on byte orders\<close>

lemma length_le_bytes [simp]: "length (le_bytes n x) = n"
  by (induction n x rule: le_bytes.induct) auto

lemma le_nat_bound: "le_nat bs < 256 ^ length bs"
proof (induction bs)
  case Nil
  then show ?case by simp
next
  case (Cons b bs)
  have "unat b < 256"
    using unsigned_less [of b, where ?'a = nat] by simp
  with Cons show ?case by simp
qed

lemma le_nat_append: "le_nat (xs @ ys) = le_nat xs + 256 ^ length xs * le_nat ys"
  by (induction xs) (simp_all add: algebra_simps)

lemma le_nat_le_bytes: "le_nat (le_bytes n x) = x mod 256 ^ n"
proof (induction n x rule: le_bytes.induct)
  case (1 x)
  then show ?case by simp
next
  case (2 n x)
  have "unat (of_nat (x mod 256) :: byte) = x mod 256"
    by (simp add: unat_of_nat)
  with 2 show ?case
    by (simp add: mod_mult2_eq)
qed

lemma le_bytes_le_nat: "le_bytes (length bs) (le_nat bs) = bs"
proof (induction bs)
  case Nil
  then show ?case by simp
next
  case (Cons b bs)
  have b: "unat b < 256"
    using unsigned_less [of b, where ?'a = nat] by simp
  then have "(unat b + 256 * le_nat bs) mod 256 = unat b"
    and "(unat b + 256 * le_nat bs) div 256 = le_nat bs"
    by simp_all
  with Cons show ?case by simp
qed

lemma length_put [simp]:
  "length (put_le32 w) = 4" "length (put_le64 v) = 8"
  "length (put_be32 w) = 4" "length (put_be64 v) = 8"
  by (simp_all add: put_le32_def put_le64_def put_be32_def put_be64_def be_bytes_def)

lemma le_u32_put [simp]: "le_u32 (put_le32 w @ rest) = w"
  using unsigned_less [of w, where ?'a = nat] by (simp add: le_u32_def put_le32_def le_nat_le_bytes)

lemma le_u64_put [simp]: "le_u64 (put_le64 w @ rest) = w"
  using unsigned_less [of w, where ?'a = nat] by (simp add: le_u64_def put_le64_def le_nat_le_bytes)

lemma put_le_u32: "length bs = 4 \<Longrightarrow> put_le32 (le_u32 bs) = bs"
  using le_nat_bound [of bs] le_bytes_le_nat [of bs]
  by (simp add: le_u32_def put_le32_def unat_of_nat)

lemma put_le_u64: "length bs = 8 \<Longrightarrow> put_le64 (le_u64 bs) = bs"
  using le_nat_bound [of bs] le_bytes_le_nat [of bs]
  by (simp add: le_u64_def put_le64_def unat_of_nat)

lemma slice_take_drop: "a \<le> b \<Longrightarrow> b \<le> length xs \<Longrightarrow> slice a b xs = Some (take (b - a) (drop a xs))"
  by (simp add: slice_def)

section \<open>Lemmas on bits\<close>

lemma length_byte_bits [simp]: "length (byte_bits b) = 8"
  by (simp add: byte_bits_def)

lemma length_bits_of [simp]: "length (bits_of bs) = 8 * length bs"
  by (induction bs) (simp_all add: bits_of_def)

lemma bits_of_simps [simp]:
  "bits_of [] = []"
  "bits_of (b # bs) = byte_bits b @ bits_of bs"
  by (simp_all add: bits_of_def)

lemma nth_byte_bits: "i < 8 \<Longrightarrow> byte_bits b ! i = bit b (7 - i)"
  by (simp add: byte_bits_def)

lemma nth_bits_of: "i < 8 * length bs \<Longrightarrow> bits_of bs ! i = bit (bs ! (i div 8)) (7 - i mod 8)"
proof (induction bs arbitrary: i)
  case Nil
  then show ?case by simp
next
  case (Cons b bs)
  show ?case
  proof (cases "i < 8")
    case True
    then show ?thesis by (simp add: nth_append nth_byte_bits)
  next
    case False
    define j where "j = i - 8"
    with False have i: "i = j + 8" by simp
    with Cons.prems have "j < 8 * length bs" by simp
    with Cons.IH have "bits_of bs ! j = bit (bs ! (j div 8)) (7 - j mod 8)" .
    moreover have "(j + 8) div 8 = Suc (j div 8)" by simp
    ultimately show ?thesis by (simp add: i nth_append)
  qed
qed

lemma byte_bits_inj: "byte_bits a = byte_bits b \<longleftrightarrow> a = b"
proof
  assume eq: "byte_bits a = byte_bits b"
  show "a = b"
  proof (rule bit_eqI)
    fix n
    assume "possible_bit TYPE(8 word) n"
    then have n: "n < 8" by simp
    then have "byte_bits a ! (7 - n) = byte_bits b ! (7 - n)" using eq by simp
    with n show "bit a n = bit b n" by (simp add: nth_byte_bits)
  qed
qed simp

lemma bits_of_inj: "length xs = length ys \<Longrightarrow> bits_of xs = bits_of ys \<longleftrightarrow> xs = ys"
  by (induction xs ys rule: list_induct2) (auto simp: byte_bits_inj)

lemma common_prefix_len_le:
  "common_prefix_len xs ys \<le> length xs" "common_prefix_len xs ys \<le> length ys"
  by (induction xs ys rule: common_prefix_len.induct) auto

lemma common_prefix_len_sym: "common_prefix_len xs ys = common_prefix_len ys xs"
  by (induction xs ys rule: common_prefix_len.induct) auto

lemma common_prefix_len_ge:
  "n \<le> length xs \<Longrightarrow> n \<le> length ys \<Longrightarrow> n \<le> common_prefix_len xs ys \<longleftrightarrow> take n xs = take n ys"
proof (induction xs ys arbitrary: n rule: common_prefix_len.induct)
  case (1 x xs y ys)
  then show ?case by (cases n) auto
qed auto

lemma common_prefix_len_differ:
  assumes "common_prefix_len xs ys < length xs" "common_prefix_len xs ys < length ys"
  shows "xs ! common_prefix_len xs ys \<noteq> ys ! common_prefix_len xs ys"
  using assms by (induction xs ys rule: common_prefix_len.induct) (auto split: if_splits)

section \<open>Bits of little-endian words\<close>

lemma bit_add_shift8:
  fixes x y :: nat
  assumes x: "x < 256"
  shows "bit (x + 256 * y) k = (if k < 8 then bit x k else bit y (k - 8))"
proof (cases "k < 8")
  case True
  then have "(2 :: nat) ^ k * 2 ^ (8 - k) = 2 ^ 8"
    by (subst power_add [symmetric]) simp
  then have "x + 256 * y = x + 2 ^ k * (2 ^ (8 - k) * y)"
    by (simp add: mult.assoc [symmetric])
  then have "(x + 256 * y) div 2 ^ k = 2 ^ (8 - k) * y + x div 2 ^ k"
    by (simp only: div_mult_self2 power_not_zero zero_neq_numeral not_False_eq_True)
  with True show ?thesis by (simp add: bit_nat_def)
next
  case False
  then have "(2 :: nat) ^ 8 * 2 ^ (k - 8) = 2 ^ k"
    by (subst power_add [symmetric]) simp
  then have "(x + 256 * y) div 2 ^ k = (x + 256 * y) div (256 * 2 ^ (k - 8))"
    by simp
  also have "\<dots> = (x + 256 * y) div 256 div 2 ^ (k - 8)"
    by (rule div_mult2_eq)
  finally have "(x + 256 * y) div 2 ^ k = (x + 256 * y) div 256 div 2 ^ (k - 8)" .
  with x False show ?thesis by (simp add: bit_nat_def)
qed

lemma bit_le_nat:
  "bit (le_nat bs) k \<longleftrightarrow> k < 8 * length bs \<and> bit (bs ! (k div 8)) (k mod 8)"
proof (induction bs arbitrary: k)
  case Nil
  then show ?case by simp
next
  case (Cons b bs)
  have b: "unat b < 256"
    using unsigned_less [of b, where ?'a = nat] by simp
  show ?case
  proof (cases "k < 8")
    case True
    with b show ?thesis by (simp add: bit_add_shift8 bit_unsigned_iff)
  next
    case False
    then obtain j where k: "k = j + 8" by (metis add.commute le_add_diff_inverse not_less)
    then have "(j + 8) div 8 = Suc (j div 8)" by simp
    with b show ?thesis by (simp add: k bit_add_shift8 Cons.IH)
  qed
qed

lemma bit_le_u32:
  "length bs = 4 \<Longrightarrow> k < 32 \<Longrightarrow> bit (le_u32 bs) k \<longleftrightarrow> bit (bs ! (k div 8)) (k mod 8)"
  by (simp add: le_u32_def bit_of_nat_iff bit_le_nat)

lemma bit_le_u64:
  "length bs = 8 \<Longrightarrow> k < 64 \<Longrightarrow> bit (le_u64 bs) k \<longleftrightarrow> bit (bs ! (k div 8)) (k mod 8)"
  by (simp add: le_u64_def bit_of_nat_iff bit_le_nat)

lemma block_div_mod:
  fixes a b :: nat
  assumes "b < 8"
  shows "(8 * a + b) div 8 = a" "(8 * a + b) mod 8 = b"
  using assms by simp_all

lemma bit_put_le32:
  assumes "j < 4" "m < 8"
  shows "bit (put_le32 w ! j) m = bit w (8 * j + m)"
proof -
  have "bit (le_u32 (put_le32 w)) (8 * j + m) = bit (put_le32 w ! ((8 * j + m) div 8)) ((8 * j + m) mod 8)"
    using assms by (intro bit_le_u32) simp_all
  with assms le_u32_put [of w "[]"] show ?thesis by simp
qed

lemma bit_put_le64:
  assumes "j < 8" "m < 8"
  shows "bit (put_le64 w ! j) m = bit w (8 * j + m)"
proof -
  have "bit (le_u64 (put_le64 w)) (8 * j + m) = bit (put_le64 w ! ((8 * j + m) div 8)) ((8 * j + m) mod 8)"
    using assms by (intro bit_le_u64) simp_all
  with assms le_u64_put [of w "[]"] show ?thesis by simp
qed

lemma take_le_u32: "le_u32 xs = le_u32 (take 4 xs)"
  by (simp add: le_u32_def)

lemma take_le_u64: "le_u64 xs = le_u64 (take 8 xs)"
  by (simp add: le_u64_def)

lemma common_prefix_len_append:
  "length xs = length ys \<Longrightarrow> common_prefix_len (xs @ xs') (ys @ ys') =
     (if xs = ys then length xs + common_prefix_len xs' ys' else common_prefix_len xs ys)"
  by (induction xs ys rule: list_induct2) auto

lemma bits_of_append: "bits_of (xs @ ys) = bits_of xs @ bits_of ys"
  by (simp add: bits_of_def)

lemma xor_zero_iff: "a XOR b = 0 \<longleftrightarrow> a = b" for a b :: "'a::len word"
  by (auto simp: bit_eq_iff bit_xor_iff)

lemma le_u64_inj: "length xs = 8 \<Longrightarrow> length ys = 8 \<Longrightarrow> le_u64 xs = le_u64 ys \<longleftrightarrow> xs = ys"
  by (metis put_le_u64)

section \<open>Evaluation\<close>

text \<open>With this congruence the simplifier evaluates a computation before its continuation.\<close>

lemma bind_weak_cong: "x = y \<Longrightarrow> Option.bind x f = Option.bind y f"
  by simp

section \<open>What holds when a call returns\<close>

text \<open>
  \<open>returning P m\<close> says that \<open>P\<close> holds of the value of \<open>m\<close> if it has one. Its equations carry \<open>P\<close> backwards through a
  sequence of calls.
\<close>

definition returning :: "('a \<Rightarrow> bool) \<Rightarrow> 'a option \<Rightarrow> bool" where
  "returning P m \<longleftrightarrow> (\<forall>x. m = Some x \<longrightarrow> P x)"

lemma returning_simps [simp]:
  "returning P None" "returning P (Some x) = P x"
  "returning P (Option.bind m f) = returning (\<lambda>x. returning P (f x)) m"
  by (auto simp: returning_def bind_eq_Some_conv)

lemma returningI: "(\<And>x. m = Some x \<Longrightarrow> P x) \<Longrightarrow> returning P m"
  by (simp add: returning_def)

lemma returningD: "returning P m \<Longrightarrow> m = Some x \<Longrightarrow> P x"
  by (simp add: returning_def)

lemma returning_mono: "returning P m \<Longrightarrow> (\<And>x. P x \<Longrightarrow> Q x) \<Longrightarrow> returning Q m"
  by (simp add: returning_def)

end
