(* ===== verification/AllowedIPs.thy ===== *)
theory AllowedIPs
  imports Prelude
begin

text \<open>
  The cryptokey routing table of \<^verbatim>\<open>allowedips.go\<close>: a binary trie per address family whose
  nodes are CIDR prefixes. A Go pointer \<^verbatim>\<open>*trieEntry\<close> is the datatype below with \<open>NilEntry\<close> for
  nil, a peer pointer is an element of a type \<open>'p\<close>, and a nil peer is \<^const>\<open>None\<close>. Machine words are
  read on a little-endian host, as every Android ABI is. Functions that may panic return
  an option. The abstraction of a trie is the finite map from bit-string prefixes to peers
  (\<open>entries\<close>), and a lookup is proved to be longest-prefix match on it.
\<close>

section \<open>Model\<close>

datatype 'p trieEntry =
    NilEntry
  | Entry nat "'p trieEntry" "'p trieEntry" bytes "'p option" nat nat

definition isLittleEndian :: bool where
  "isLittleEndian \<longleftrightarrow> put_le32 1 ! 0 \<noteq> 0"

definition ReverseBytes32 :: "u32 \<Rightarrow> u32" where
  "ReverseBytes32 i = le_u32 (rev (put_le32 i))"

definition ReverseBytes64 :: "u64 \<Rightarrow> u64" where
  "ReverseBytes64 i = le_u64 (rev (put_le64 i))"

definition swapU32 :: "u32 \<Rightarrow> u32" where
  "swapU32 i = (if \<not> isLittleEndian then i else ReverseBytes32 i)"

definition swapU64 :: "u64 \<Rightarrow> u64" where
  "swapU64 i = (if \<not> isLittleEndian then i else ReverseBytes64 i)"

definition LeadingZeros :: "'a::len word \<Rightarrow> nat" where
  "LeadingZeros w = length (takeWhile (\<lambda>i. \<not> bit w (LENGTH('a) - 1 - i)) [0..<LENGTH('a)])"

definition commonBits :: "bytes \<Rightarrow> bytes \<Rightarrow> nat option" where
  "commonBits ip1 ip2 =
     (if length ip1 = 4 then
        if length ip2 < 4 then None
        else Some (LeadingZeros (swapU32 (le_u32 ip1 XOR le_u32 ip2)))
      else if length ip1 = 16 then
        if length ip2 < 16 then None
        else let x = le_u64 ip1 XOR le_u64 ip2 in
          if x \<noteq> 0 then Some (LeadingZeros (swapU64 x))
          else let y = le_u64 (drop 8 ip1) XOR le_u64 (drop 8 ip2) in
            Some (64 + LeadingZeros (swapU64 y))
      else None)"

fun removeByPeer :: "'p trieEntry \<Rightarrow> 'p \<Rightarrow> 'p trieEntry" where
  "removeByPeer NilEntry p = NilEntry"
| "removeByPeer (Entry c l r b q bb bs) p =
     (let l' = removeByPeer l p; r' = removeByPeer r p in
      if q \<noteq> Some p then Entry c l' r' b q bb bs
      else if l' = NilEntry then r' else l')"

fun choose_bit :: "'p trieEntry \<Rightarrow> bytes \<Rightarrow> nat option" where
  "choose_bit NilEntry ip = None"
| "choose_bit (Entry c l r b q bb bs) ip =
     (case at ip bb of None \<Rightarrow> None | Some x \<Rightarrow> Some (unat (drop_bit bs x AND 1)))"

definition newEntry :: "bytes \<Rightarrow> nat \<Rightarrow> 'p option \<Rightarrow> 'p trieEntry" where
  "newEntry ip cidr peer = Entry cidr NilEntry NilEntry ip peer (cidr div 8) (7 - cidr mod 8)"

fun setChild :: "'p trieEntry \<Rightarrow> nat \<Rightarrow> 'p trieEntry \<Rightarrow> 'p trieEntry" where
  "setChild NilEntry i t = NilEntry"
| "setChild (Entry c l r b q bb bs) i t =
     (if i = 0 then Entry c t r b q bb bs else Entry c l t b q bb bs)"

definition min_uint :: "nat \<Rightarrow> nat \<Rightarrow> nat" where
  "min_uint a b = (if a > b then b else a)"

fun insert_entry :: "'p trieEntry \<Rightarrow> bytes \<Rightarrow> nat \<Rightarrow> 'p \<Rightarrow> 'p trieEntry option" where
  "insert_entry NilEntry ip cidr peer = Some (newEntry ip cidr (Some peer))"
| "insert_entry (Entry c l r b q bb bs) ip cidr peer =
     (case commonBits b ip of None \<Rightarrow> None | Some common \<Rightarrow>
      if c \<le> cidr \<and> common \<ge> c then
        if c = cidr then Some (Entry c l r b (Some peer) bb bs)
        else (case choose_bit (Entry c l r b q bb bs) ip of None \<Rightarrow> None | Some i \<Rightarrow>
          if i = 0
          then map_option (\<lambda>t. Entry c t r b q bb bs) (insert_entry l ip cidr peer)
          else map_option (\<lambda>t. Entry c l t b q bb bs) (insert_entry r ip cidr peer))
      else
        let newNode = newEntry ip cidr (Some peer); cidr' = min_uint cidr common in
        if cidr = cidr' then
          map_option (\<lambda>i. setChild newNode i (Entry c l r b q bb bs)) (choose_bit newNode b)
        else
          let parent = newEntry ip cidr' None in
          map_option (\<lambda>i. setChild (setChild parent i newNode) (i XOR 1) (Entry c l r b q bb bs))
            (choose_bit parent ip))"

fun lookup_entry :: "'p trieEntry \<Rightarrow> bytes \<Rightarrow> 'p option \<Rightarrow> 'p option option" where
  "lookup_entry NilEntry ip found = Some found"
| "lookup_entry (Entry c l r b q bb bs) ip found =
     (case commonBits b ip of None \<Rightarrow> None | Some common \<Rightarrow>
      if common \<ge> c then
        let found' = (if q \<noteq> None then q else found) in
        if bb = length ip then Some found'
        else (case choose_bit (Entry c l r b q bb bs) ip of None \<Rightarrow> None | Some i \<Rightarrow>
          if i = 0 then lookup_entry l ip found' else lookup_entry r ip found')
      else Some found)"

text \<open>
  \<^verbatim>\<open>net.CIDRMask\<close> and \<^verbatim>\<open>net.IP.Mask\<close> of the Go library, on a mask of the length of the
  address or the nil mask; a nil slice is the empty list.
\<close>

definition CIDRMask :: "nat \<Rightarrow> nat \<Rightarrow> bytes" where
  "CIDRMask ones nbits =
     (if (nbits \<noteq> 32 \<and> nbits \<noteq> 128) \<or> ones > nbits then []
      else map (\<lambda>i. if 8 * i + 8 \<le> ones then 255
                    else if 8 * i \<ge> ones then 0
                    else NOT (drop_bit (ones - 8 * i) (255 :: byte))) [0..<nbits div 8])"

definition IPMask :: "bytes \<Rightarrow> bytes \<Rightarrow> bytes" where
  "IPMask ip m = (if length ip \<noteq> length m then [] else map2 (AND) ip m)"

record IPNet =
  net_IP :: bytes
  net_Mask :: bytes

fun entriesForPeer :: "'p trieEntry \<Rightarrow> 'p \<Rightarrow> IPNet list \<Rightarrow> IPNet list" where
  "entriesForPeer NilEntry p results = results"
| "entriesForPeer (Entry c l r b q bb bs) p results =
     (let results1 = (if q = Some p
                      then results @ [let m = CIDRMask c (length b * 8) in
                             \<lparr>net_IP = IPMask b m, net_Mask = m\<rparr>]
                      else results);
          results2 = entriesForPeer l p results1
      in entriesForPeer r p results2)"

record 'p AllowedIPs =
  IPv4 :: "'p trieEntry"
  IPv6 :: "'p trieEntry"

definition EntriesForPeer :: "'p AllowedIPs \<Rightarrow> 'p \<Rightarrow> IPNet list" where
  "EntriesForPeer table p = entriesForPeer (IPv6 table) p (entriesForPeer (IPv4 table) p [])"

definition Reset :: "'p AllowedIPs \<Rightarrow> 'p AllowedIPs" where
  "Reset table = table\<lparr>IPv4 := NilEntry, IPv6 := NilEntry\<rparr>"

definition RemoveByPeer :: "'p AllowedIPs \<Rightarrow> 'p \<Rightarrow> 'p AllowedIPs" where
  "RemoveByPeer table p =
     table\<lparr>IPv4 := removeByPeer (IPv4 table) p, IPv6 := removeByPeer (IPv6 table) p\<rparr>"

definition Insert :: "'p AllowedIPs \<Rightarrow> bytes \<Rightarrow> nat \<Rightarrow> 'p \<Rightarrow> 'p AllowedIPs option" where
  "Insert table ip cidr p =
     (if length ip = 16 then map_option (\<lambda>t. table\<lparr>IPv6 := t\<rparr>) (insert_entry (IPv6 table) ip cidr p)
      else if length ip = 4 then map_option (\<lambda>t. table\<lparr>IPv4 := t\<rparr>) (insert_entry (IPv4 table) ip cidr p)
      else None)"

definition LookupIPv4 :: "'p AllowedIPs \<Rightarrow> bytes \<Rightarrow> 'p option option" where
  "LookupIPv4 table address = lookup_entry (IPv4 table) address None"

definition LookupIPv6 :: "'p AllowedIPs \<Rightarrow> bytes \<Rightarrow> 'p option option" where
  "LookupIPv6 table address = lookup_entry (IPv6 table) address None"

section \<open>Common bits\<close>

definition network_bit :: "nat \<Rightarrow> nat" where
  "network_bit i = 8 * (i div 8) + (7 - i mod 8)"

lemma isLittleEndian [simp]: "isLittleEndian"
  by code_simp

lemma flip_index:
  fixes i n :: nat
  assumes "i < 8 * n"
  shows "(8 * n - 1 - i) div 8 = n - 1 - i div 8" "(8 * n - 1 - i) mod 8 = 7 - i mod 8"
proof -
  have d: "i div 8 < n" using assms by (simp add: less_mult_imp_div_less mult.commute)
  have "8 * n - 1 - i = 8 * (n - 1 - i div 8) + (7 - i mod 8)"
    using d div_mult_mod_eq [of i 8] mod_less_divisor [of 8 i] by linarith
  then show "(8 * n - 1 - i) div 8 = n - 1 - i div 8" "(8 * n - 1 - i) mod 8 = 7 - i mod 8"
    using block_div_mod [of "7 - i mod 8" "n - 1 - i div 8"] by (simp_all only:)
qed

lemma bit_swapU32:
  assumes "i < 32"
  shows "bit (swapU32 w) (31 - i) = bit w (network_bit i)"
proof -
  have d: "i div 8 < 4" using assms by simp
  have "bit (swapU32 w) (31 - i) = bit (rev (put_le32 w) ! ((31 - i) div 8)) ((31 - i) mod 8)"
    by (simp add: swapU32_def ReverseBytes32_def bit_le_u32)
  also have "\<dots> = bit (rev (put_le32 w) ! (3 - i div 8)) (7 - i mod 8)"
    using flip_index [of i 4] assms by simp
  also have "rev (put_le32 w) ! (3 - i div 8) = put_le32 w ! (i div 8)"
    using d by (subst rev_nth) simp_all
  finally show ?thesis using d by (simp add: bit_put_le32 network_bit_def)
qed

lemma bit_swapU64:
  assumes "i < 64"
  shows "bit (swapU64 w) (63 - i) = bit w (network_bit i)"
proof -
  have d: "i div 8 < 8" using assms by simp
  have "bit (swapU64 w) (63 - i) = bit (rev (put_le64 w) ! ((63 - i) div 8)) ((63 - i) mod 8)"
    by (simp add: swapU64_def ReverseBytes64_def bit_le_u64)
  also have "\<dots> = bit (rev (put_le64 w) ! (7 - i div 8)) (7 - i mod 8)"
    using flip_index [of i 8] assms by simp
  also have "rev (put_le64 w) ! (7 - i div 8) = put_le64 w ! (i div 8)"
    using d by (subst rev_nth) simp_all
  finally show ?thesis using d by (simp add: bit_put_le64 network_bit_def)
qed

lemma network_index:
  fixes i n :: nat
  assumes "i < 8 * n"
  shows "network_bit i < 8 * n" "network_bit i div 8 = i div 8" "network_bit i mod 8 = 7 - i mod 8"
  unfolding network_bit_def
proof -
  have "i div 8 < n" using assms by (simp add: less_mult_imp_div_less mult.commute)
  then show "8 * (i div 8) + (7 - i mod 8) < 8 * n" by linarith
qed (rule block_div_mod, simp)+

lemma LeadingZeros_common:
  assumes "\<And>i. i < LENGTH('a) \<Longrightarrow> bit w (LENGTH('a) - 1 - i) \<longleftrightarrow> xs ! i \<noteq> ys ! i"
    and "length xs = LENGTH('a)" "length ys = LENGTH('a)"
  shows "LeadingZeros (w :: 'a::len word) = common_prefix_len xs ys"
proof -
  have gen: "length (takeWhile (\<lambda>i. xs ! i = ys ! i) [0..<length xs]) = common_prefix_len xs ys"
    if "length xs = length ys" for xs ys :: "bool list"
    using that
  proof (induction xs ys rule: list_induct2)
    case Nil
    then show ?case by simp
  next
    case (Cons x xs y ys)
    have "[0..<length (x # xs)] = 0 # map Suc [0..<length xs]"
      by (simp add: upt_conv_Cons map_Suc_upt del: upt_Suc)
    with Cons.IH show ?case
      by (simp add: takeWhile_map comp_def del: upt_Suc)
  qed
  have "takeWhile (\<lambda>i. \<not> bit w (LENGTH('a) - 1 - i)) [0..<LENGTH('a)] =
      takeWhile (\<lambda>i. xs ! i = ys ! i) [0..<LENGTH('a)]"
    using assms(1) by (intro takeWhile_cong) auto
  with gen [of xs ys] assms(2,3) show ?thesis
    by (simp add: LeadingZeros_def)
qed

lemma commonBits_u32:
  assumes "length xs = 4" "length ys = 4"
  shows "LeadingZeros (swapU32 (le_u32 xs XOR le_u32 ys)) = common_prefix_len (bits_of xs) (bits_of ys)"
proof (rule LeadingZeros_common)
  fix i
  assume "i < LENGTH(32)"
  then have i: "i < 32" by simp
  with network_index [of i 4] assms
  show "bit (swapU32 (le_u32 xs XOR le_u32 ys)) (LENGTH(32) - 1 - i) \<longleftrightarrow> bits_of xs ! i \<noteq> bits_of ys ! i"
    by (simp add: bit_swapU32 bit_xor_iff bit_le_u32 nth_bits_of)
qed (use assms in simp_all)

lemma commonBits_u64:
  assumes "length xs = 8" "length ys = 8"
  shows "LeadingZeros (swapU64 (le_u64 xs XOR le_u64 ys)) = common_prefix_len (bits_of xs) (bits_of ys)"
proof (rule LeadingZeros_common)
  fix i
  assume "i < LENGTH(64)"
  then have i: "i < 64" by simp
  with network_index [of i 8] assms
  show "bit (swapU64 (le_u64 xs XOR le_u64 ys)) (LENGTH(64) - 1 - i) \<longleftrightarrow> bits_of xs ! i \<noteq> bits_of ys ! i"
    by (simp add: bit_swapU64 bit_xor_iff bit_le_u64 nth_bits_of)
qed (use assms in simp_all)

lemma commonBits_correct:
  assumes "length ip1 = n" "length ip2 = n" "n = 4 \<or> n = 16"
  shows "commonBits ip1 ip2 = Some (common_prefix_len (bits_of ip1) (bits_of ip2))"
  using assms(3)
proof
  assume "n = 4"
  with assms show ?thesis by (simp add: commonBits_def commonBits_u32)
next
  assume n: "n = 16"
  define a1 a2 b1 b2 where "a1 = take 8 ip1" and "a2 = drop 8 ip1" and "b1 = take 8 ip2" and "b2 = drop 8 ip2"
  note defs = this
  have len: "length a1 = 8" "length a2 = 8" "length b1 = 8" "length b2 = 8"
    using assms n by (simp_all add: defs)
  have ip: "bits_of ip1 = bits_of a1 @ bits_of a2" "bits_of ip2 = bits_of b1 @ bits_of b2"
    by (simp_all add: defs flip: bits_of_append)
  have w: "le_u64 ip1 = le_u64 a1" "le_u64 ip2 = le_u64 b1"
    by (simp_all add: defs flip: take_le_u64)
  show ?thesis
  proof (cases "a1 = b1")
    case True
    with assms n have "commonBits ip1 ip2 = Some (64 + LeadingZeros (swapU64 (le_u64 a2 XOR le_u64 b2)))"
      by (simp add: commonBits_def w flip: defs)
    then show ?thesis
      unfolding ip commonBits_u64 [OF len(2,4)] using True len by (simp add: common_prefix_len_append)
  next
    case False
    with len have "bits_of a1 \<noteq> bits_of b1" by (simp add: bits_of_inj)
    then have "common_prefix_len (bits_of ip1) (bits_of ip2) = common_prefix_len (bits_of a1) (bits_of b1)"
      unfolding ip using len by (simp add: common_prefix_len_append)
    moreover have "le_u64 a1 XOR le_u64 b1 \<noteq> 0"
      using False len by (simp add: xor_zero_iff le_u64_inj)
    ultimately show ?thesis
      using assms n by (simp add: commonBits_def w commonBits_u64 len)
  qed
qed

section \<open>Invariant and abstraction\<close>

definition node_prefix :: "nat \<Rightarrow> bytes \<Rightarrow> bool list" where
  "node_prefix c b = take c (bits_of b)"

fun below :: "bool list \<Rightarrow> 'p trieEntry \<Rightarrow> bool" where
  "below pre NilEntry = True"
| "below pre (Entry c l r b q bb bs) = prefix pre (node_prefix c b)"

fun wf_trie :: "nat \<Rightarrow> 'p trieEntry \<Rightarrow> bool" where
  "wf_trie n NilEntry = True"
| "wf_trie n (Entry c l r b q bb bs) =
     (length b = n \<and> c \<le> 8 * n \<and> bb = c div 8 \<and> bs = 7 - c mod 8 \<and>
      wf_trie n l \<and> wf_trie n r \<and>
      below (node_prefix c b @ [False]) l \<and> below (node_prefix c b @ [True]) r)"

fun entries :: "'p trieEntry \<Rightarrow> bool list \<Rightarrow> 'p option" where
  "entries NilEntry = Map.empty"
| "entries (Entry c l r b q bb bs) = (entries l ++ entries r)(node_prefix c b := q)"

text \<open>Longest-prefix match on a prefix map, the specification of a lookup.\<close>

definition lpm :: "(bool list \<Rightarrow> 'p option) \<Rightarrow> bool list \<Rightarrow> 'p option" where
  "lpm m k = (case find (\<lambda>i. m (take i k) \<noteq> None) (rev [0..<Suc (length k)]) of
      None \<Rightarrow> None | Some i \<Rightarrow> m (take i k))"

lemma lpm_None: "lpm m k = None \<longleftrightarrow> (\<forall>i \<le> length k. m (take i k) = None)"
proof (cases "find (\<lambda>i. m (take i k) \<noteq> None) (rev [0..<Suc (length k)])")
  case None
  then have "\<forall>i \<in> set (rev [0..<Suc (length k)]). m (take i k) = None"
    unfolding find_None_iff by blast
  with None show ?thesis by (simp add: lpm_def less_Suc_eq_le Ball_def del: upt_Suc)
next
  case (Some i)
  then have "i \<in> set (rev [0..<Suc (length k)])" "m (take i k) \<noteq> None"
    by (auto simp: find_Some_iff rev_nth simp del: upt_Suc)
  with Some show ?thesis by (auto simp: lpm_def less_Suc_eq_le simp del: upt_Suc)
qed

lemma lpm_Some:
  "lpm m k = Some p \<longleftrightarrow>
     (\<exists>i \<le> length k. m (take i k) = Some p \<and> (\<forall>j. i < j \<longrightarrow> j \<le> length k \<longrightarrow> m (take j k) = None))"
  (is "?L \<longleftrightarrow> ?R")
proof
  assume ?L
  then obtain i where i: "find (\<lambda>i. m (take i k) \<noteq> None) (rev [0..<Suc (length k)]) = Some i"
    and p: "m (take i k) = Some p"
    by (auto simp: lpm_def split: option.splits)
  then obtain a where a: "a < Suc (length k)" "i = rev [0..<Suc (length k)] ! a"
    "\<forall>j<a. m (take (rev [0..<Suc (length k)] ! j) k) = None"
    by (auto simp: find_Some_iff simp del: upt_Suc)
  have i': "i = length k - a" using a(1,2) by (simp add: rev_nth del: upt_Suc)
  have "m (take j k) = None" if "i < j" "j \<le> length k" for j
  proof -
    have "length k - j < a" using that i' a(1) by linarith
    moreover have "rev [0..<Suc (length k)] ! (length k - j) = j"
      using that by (simp add: rev_nth del: upt_Suc)
    ultimately show ?thesis using a(3) by metis
  qed
  with p show ?R using i' by (intro exI [of _ i]) simp
next
  assume ?R
  then obtain i where i: "i \<le> length k" "m (take i k) = Some p"
    "\<And>j. i < j \<Longrightarrow> j \<le> length k \<Longrightarrow> m (take j k) = None" by blast
  have "find (\<lambda>i. m (take i k) \<noteq> None) (rev [0..<Suc (length k)]) = Some i"
    unfolding find_Some_iff
    by (rule exI [where x = "length k - i"]) (use i in \<open>auto simp: rev_nth simp del: upt_Suc\<close>)
  with i show ?L by (simp add: lpm_def)
qed

lemma lpm_empty [simp]: "lpm (\<lambda>_. None) k = None"
  by (simp add: lpm_None)

lemma lpm_eqI:
  assumes "\<And>i. i \<le> length k \<Longrightarrow> m (take i k) = m' (take i k)"
  shows "lpm m k = lpm m' k"
proof (cases "lpm m' k")
  case None
  then have "lpm m k = None" using assms by (simp add: lpm_None)
  with None show ?thesis by simp
next
  case (Some p)
  then have "lpm m k = Some p"
    unfolding lpm_Some using assms by auto
  with Some show ?thesis by simp
qed

lemma entries_below:
  "wf_trie n t \<Longrightarrow> below pre t \<Longrightarrow> entries t k \<noteq> None \<Longrightarrow> prefix pre k"
proof (induction t arbitrary: pre)
  case NilEntry
  then show ?case by simp
next
  case (Entry c l r b q bb bs)
  show ?case
  proof (cases "k = node_prefix c b")
    case True
    with Entry.prems show ?thesis by simp
  next
    case False
    with Entry.prems(3) have "entries l k \<noteq> None \<or> entries r k \<noteq> None"
      by (auto simp: map_add_def split: option.splits)
    with Entry have "prefix (node_prefix c b @ [False]) k \<or> prefix (node_prefix c b @ [True]) k"
      by auto
    then have "prefix (node_prefix c b) k" by (auto dest: append_prefixD)
    with Entry.prems(2) show ?thesis by (auto intro: prefix_order.trans)
  qed
qed

lemma entries_length: "wf_trie n t \<Longrightarrow> entries t k \<noteq> None \<Longrightarrow> length k \<le> 8 * n"
  by (induction t) (auto simp: node_prefix_def map_add_def split: option.splits if_splits)


lemma unat_low_bit: "unat (drop_bit i x AND 1) = of_bool (bit x i)" for x :: "'a::len word"
  by (simp add: and_one_eq bit_iff_odd_drop_bit odd_iff_mod_2_eq_one)

lemma choose_bit_correct:
  assumes "length ip = n" "c < 8 * n" "bb = c div 8" "bs = 7 - c mod 8"
  shows "choose_bit (Entry c l r b q bb bs) ip = Some (of_bool (bits_of ip ! c))"
proof -
  have "c div 8 < length ip" using assms by (simp add: less_mult_imp_div_less mult.commute)
  with assms show ?thesis by (simp add: at_def unat_low_bit nth_bits_of)
qed

lemma prefix_take_iff: "prefix (take c xs) ys \<longleftrightarrow> take c ys = take c xs" if "c \<le> length xs" for xs ys :: "'a list"
  using that by (metis append_eq_conv_conj length_take min.absorb2 prefix_def take_is_prefix)

lemma lpm_node:
  assumes c: "c \<le> length k"
    and m: "\<And>i. i \<le> length k \<Longrightarrow> m (take i k) = (if i = c then q else m' (take i k))"
    and m': "\<And>i. i \<le> c \<Longrightarrow> m' (take i k) = None"
  shows "lpm m k = (case lpm m' k of None \<Rightarrow> q | Some p \<Rightarrow> Some p)"
proof (cases "lpm m' k")
  case None
  then have none: "\<And>i. i \<le> length k \<Longrightarrow> m' (take i k) = None" by (simp add: lpm_None)
  show ?thesis
  proof (cases q)
    case None
    with none m have "lpm m k = None" by (simp add: lpm_None)
    with None \<open>lpm m' k = None\<close> show ?thesis by simp
  next
    case (Some p)
    with none m c have "lpm m k = Some p" unfolding lpm_Some by (intro exI [of _ c]) auto
    with Some \<open>lpm m' k = None\<close> show ?thesis by simp
  qed
next
  case (Some p)
  then obtain i where i: "i \<le> length k" "m' (take i k) = Some p"
    "\<And>j. i < j \<Longrightarrow> j \<le> length k \<Longrightarrow> m' (take j k) = None" unfolding lpm_Some by blast
  then have "c < i" using m' [of i] by (metis linorder_not_le option.distinct(1))
  with i m have "lpm m k = Some p" unfolding lpm_Some by (intro exI [of _ i]) auto
  with Some show ?thesis by simp
qed

lemma entries_nth:
  assumes "wf_trie n t" "below (pre @ [x]) t" "entries t (take i k) \<noteq> None"
  shows "length pre < i" "length pre < length k \<and> k ! length pre = x"
proof -
  have "prefix (pre @ [x]) (take i k)" using entries_below assms by blast
  then obtain ys where ys: "take i k = pre @ [x] @ ys" by (auto simp: prefix_def)
  then have "length (take i k) = length pre + Suc (length ys)" by simp
  then show i: "length pre < i" by (simp add: min_def split: if_splits)
  from ys have "take i k ! length pre = x" by simp
  with i \<open>length (take i k) = _\<close> show "length pre < length k \<and> k ! length pre = x" by simp
qed

definition next_child :: "nat \<Rightarrow> 'p trieEntry \<Rightarrow> 'p trieEntry \<Rightarrow> bool list \<Rightarrow> 'p trieEntry" where
  "next_child c l r k = (if c = length k then NilEntry else if k ! c then r else l)"

lemma lpm_entries_node:
  assumes wf: "wf_trie n (Entry c l r b q bb bs)" and k: "length k = 8 * n" and pre: "prefix (node_prefix c b) k"
  shows "lpm (entries (Entry c l r b q bb bs)) k =
     (case lpm (entries (next_child c l r k)) k of None \<Rightarrow> q | Some p \<Rightarrow> Some p)"
proof (rule lpm_node)
  let ?P = "node_prefix c b"
  from wf have w: "length b = n" "c \<le> 8 * n" "wf_trie n l" "wf_trie n r"
    "below (?P @ [False]) l" "below (?P @ [True]) r" by simp_all
  then have len: "length ?P = c" by (simp add: node_prefix_def)
  have P: "take c k = ?P" using pre len by (auto simp: prefix_def)
  show "c \<le> length k" using w k by simp
  have l: "c < i \<and> c < length k \<and> \<not> k ! c" if "entries l (take i k) \<noteq> None" for i
    using entries_nth [OF w(3,5) that] len by simp
  have r: "c < i \<and> c < length k \<and> k ! c" if "entries r (take i k) \<noteq> None" for i
    using entries_nth [OF w(4,6) that] len by simp
  show "entries (next_child c l r k) (take i k) = None" if "i \<le> c" for i
    using l [of i] r [of i] that
    by (cases "entries l (take i k)"; cases "entries r (take i k)") (auto simp: next_child_def)
  fix i
  assume i: "i \<le> length k"
  show "entries (Entry c l r b q bb bs) (take i k) = (if i = c then q else entries (next_child c l r k) (take i k))"
  proof (cases "i = c")
    case True
    then show ?thesis by (simp add: P)
  next
    case False
    then have "take i k \<noteq> ?P" using len i by (metis length_take min.absorb2)
    then show ?thesis using False l [of i] r [of i]
      by (cases "entries l (take i k)"; cases "entries r (take i k)")
        (auto simp: next_child_def map_add_def)
  qed
qed

lemma lookup_entry_correct:
  assumes "n = 4 \<or> n = 16" "length ip = n"
  shows "wf_trie n t \<Longrightarrow> lookup_entry t ip found =
     Some (case lpm (entries t) (bits_of ip) of None \<Rightarrow> found | Some p \<Rightarrow> Some p)"
proof (induction t arbitrary: found)
  case NilEntry
  then show ?case by simp
next
  case (Entry c l r b q bb bs)
  let ?K = "bits_of ip" and ?P = "node_prefix c b" and ?t = "Entry c l r b q bb bs"
  let ?f = "if q \<noteq> None then q else found"
  from Entry.prems have w: "length b = n" "c \<le> 8 * n" "bb = c div 8" "bs = 7 - c mod 8"
    "wf_trie n l" "wf_trie n r" by simp_all
  have len: "length ?K = 8 * n" using assms(2) by simp
  have cb: "commonBits b ip = Some (common_prefix_len (bits_of b) ?K)"
    using assms w by (intro commonBits_correct) auto
  have match: "c \<le> common_prefix_len (bits_of b) ?K \<longleftrightarrow> prefix ?P ?K"
    using w len by (subst common_prefix_len_ge) (auto simp: node_prefix_def prefix_take_iff)
  show ?case
  proof (cases "prefix ?P ?K")
    case False
    have "entries ?t (take i ?K) = None" for i
      using entries_below [OF Entry.prems, of ?P "take i ?K"] False
        prefix_order.trans [OF _ take_is_prefix, of ?P i ?K]
      by (cases "entries ?t (take i ?K)") (simp_all del: entries.simps)
    then have "lpm (entries ?t) ?K = None" unfolding lpm_None by blast
    with False match cb show ?thesis by (simp del: entries.simps)
  next
    case True
    have bb: "bb = length ip \<longleftrightarrow> c = 8 * n" using w assms(2) by auto
    have "lookup_entry ?t ip found = lookup_entry (next_child c l r ?K) ip ?f"
    proof (cases "c = 8 * n")
      case True
      with bb match \<open>prefix ?P ?K\<close> cb len show ?thesis by (simp add: next_child_def)
    next
      case False
      with w have "c < 8 * n" by simp
      with False bb match True cb len assms(2) w show ?thesis
        by (simp add: next_child_def choose_bit_correct del: choose_bit.simps)
    qed
    moreover have "lookup_entry (next_child c l r ?K) ip f =
        Some (case lpm (entries (next_child c l r ?K)) ?K of None \<Rightarrow> f | Some p \<Rightarrow> Some p)" for f
      using w Entry.IH by (simp add: next_child_def)
    ultimately show ?thesis
      using lpm_entries_node [OF Entry.prems len True] by (auto split: option.splits simp del: entries.simps)
  qed
qed


section \<open>Insertion\<close>

lemma length_node_prefix: "c \<le> 8 * length b \<Longrightarrow> length (node_prefix c b) = c"
  by (simp add: node_prefix_def)

lemma prefix_take_Suc:
  assumes "i < j" "j \<le> length xs"
  shows "prefix (take i xs @ [xs ! i]) (take j xs)"
proof -
  have "take i xs @ [xs ! i] = take (Suc i) xs"
    using assms by (simp add: take_Suc_conv_app_nth)
  also have "\<dots> = take (Suc i) (take j xs)" using assms by (simp add: min_def)
  finally show ?thesis by (simp only: take_is_prefix)
qed

lemma entries_None_shorter:
  assumes "wf_trie n (Entry c l r b q bb bs)" "length k < c"
  shows "entries (Entry c l r b q bb bs) k = None"
proof (rule ccontr)
  assume "\<not> ?thesis"
  with entries_below [OF assms(1), of "node_prefix c b" k] have "prefix (node_prefix c b) k" by simp
  with assms show False by (auto simp: length_node_prefix dest: prefix_length_le)
qed

lemma entries_None_branch:
  assumes "wf_trie n t" "below (pre @ [x]) t" "length pre < length k" "k ! length pre \<noteq> x"
  shows "entries t k = None"
  using entries_nth(2) [OF assms(1,2), of "length k" k] assms(3,4) by force

lemma insert_descend:
  assumes t: "wf_trie n (Entry c l r b q bb bs)" and ip: "length ip = n" "cidr \<le> 8 * n" "c < cidr"
    and pre: "node_prefix c b = take c (bits_of ip)"
    and child: "u = (if bits_of ip ! c then r else l)"
    and u': "wf_trie n u'" "entries u' = (entries u)(node_prefix cidr ip \<mapsto> p)"
      "\<And>pre. below pre u \<Longrightarrow> prefix pre (node_prefix cidr ip) \<Longrightarrow> below pre u'"
    and t': "t' = setChild (Entry c l r b q bb bs) (of_bool (bits_of ip ! c)) u'"
  shows "wf_trie n t' \<and> entries t' = (entries (Entry c l r b q bb bs))(node_prefix cidr ip \<mapsto> p)"
proof -
  let ?K = "bits_of ip" and ?P = "node_prefix c b" and ?Q = "node_prefix cidr ip"
  from t have w: "length b = n" "c \<le> 8 * n" "wf_trie n l" "wf_trie n r"
    "below (?P @ [False]) l" "below (?P @ [True]) r" by simp_all
  have len: "length ?P = c" "length ?Q = cidr" using w ip by (simp_all add: length_node_prefix)
  then have neq: "?P \<noteq> ?Q" using ip by auto
  have Q: "?Q ! c = ?K ! c" using ip by (simp add: node_prefix_def)
  have "prefix (?P @ [?K ! c]) ?Q"
    unfolding pre unfolding node_prefix_def using ip by (intro prefix_take_Suc) simp_all
  with u'(3) w child have bel: "below (?P @ [?K ! c]) u'" by (cases "?K ! c") simp_all
  show ?thesis
  proof (cases "?K ! c")
    case True
    with u' t bel show ?thesis
      using neq by (auto simp: t' child fun_upd_twist)
  next
    case False
    then have "entries r ?Q = None"
      using entries_None_branch [OF w(4,6)] len ip Q by simp
    with False u' t bel neq show ?thesis
      by (auto simp: t' child map_add_def fun_eq_iff split: option.splits)
  qed
qed

lemma insert_above:
  assumes node: "t = Entry c l r b q bb bs" and t: "wf_trie n t" and ip: "length ip = n" "cidr < c"
    and eq: "take cidr (bits_of b) = take cidr (bits_of ip)"
    and t': "t' = setChild (newEntry ip cidr (Some p)) (of_bool (bits_of b ! cidr)) t"
  shows "wf_trie n t' \<and> entries t' = (entries t)(node_prefix cidr ip \<mapsto> p)"
proof -
  from t have w: "length b = n" "c \<le> 8 * n" by (simp_all add: node)
  have "prefix (take cidr (bits_of b) @ [bits_of b ! cidr]) (take c (bits_of b))"
    using w ip by (intro prefix_take_Suc) simp_all
  then have "below (node_prefix cidr ip @ [bits_of b ! cidr]) t"
    by (simp add: node_prefix_def eq node)
  with t ip w show ?thesis
    by (cases "bits_of b ! cidr") (auto simp: t' newEntry_def)
qed

lemma insert_split:
  assumes node: "t = Entry c l r b q bb bs" and t: "wf_trie n t"
    and ip: "length ip = n" "cidr \<le> 8 * n" "d < c" "d < cidr"
    and eq: "take d (bits_of b) = take d (bits_of ip)" and neq: "bits_of b ! d \<noteq> bits_of ip ! d"
    and t': "t' = setChild (setChild (newEntry ip d None) i (newEntry ip cidr (Some p))) (i XOR 1) t"
    and i: "i = of_bool (bits_of ip ! d)"
  shows "wf_trie n t' \<and> entries t' = (entries t)(node_prefix cidr ip \<mapsto> p)"
proof -
  let ?K = "bits_of ip" and ?B = "bits_of b" and ?N = "newEntry ip cidr (Some p)"
  from t have w: "length b = n" "c \<le> 8 * n" by (simp_all add: node)
  have bt: "below (node_prefix d ip @ [?B ! d]) t"
    using prefix_take_Suc [of d c ?B] w ip by (simp add: node_prefix_def eq [symmetric] node)
  have bn: "below (node_prefix d ip @ [?K ! d]) ?N"
    using prefix_take_Suc [of d cidr ?K] ip by (simp add: node_prefix_def newEntry_def)
  have wn: "wf_trie n ?N" using ip by (simp add: newEntry_def)
  have en: "entries ?N = [node_prefix cidr ip \<mapsto> p]" by (simp add: newEntry_def)
  have len: "length (node_prefix d ip) = d" "length (node_prefix cidr ip) = cidr"
    using ip by (simp_all add: length_node_prefix)
  then have neq2: "node_prefix d ip \<noteq> node_prefix cidr ip" using ip by auto
  have e1: "entries t (node_prefix d ip) = None"
    using t ip len unfolding node by (intro entries_None_shorter [where n = n]) simp_all
  have e2: "entries t (node_prefix cidr ip) = None"
    using ip len neq by (intro entries_None_branch [OF t bt]) (simp_all add: node_prefix_def)
  have upd: "(entries t ++ entries ?N)(node_prefix d ip := None) = (entries t)(node_prefix cidr ip \<mapsto> p)"
    "(entries ?N ++ entries t)(node_prefix d ip := None) = (entries t)(node_prefix cidr ip \<mapsto> p)"
    using neq2 e1 e2 by (auto simp: en map_add_def fun_eq_iff split: option.splits)
  have parent: "newEntry ip d None = Entry d NilEntry NilEntry ip None (d div 8) (7 - d mod 8)"
    by (simp add: newEntry_def)
  show ?thesis
    unfolding t' i parent using t wn bt bn neq upd ip
    by (cases "?K ! d") (simp_all del: fun_upd_apply)
qed

lemma prefix_common:
  assumes "prefix pre (take a xs)" "prefix pre (take b ys)"
  shows "prefix pre (take (common_prefix_len xs ys) ys)"
proof -
  have x: "prefix pre xs" and y: "prefix pre ys"
    using assms take_is_prefix prefix_order.trans by blast+
  then have "take (length pre) xs = take (length pre) ys"
    by (metis append_eq_conv_conj prefix_def)
  then have "length pre \<le> common_prefix_len xs ys"
    using prefix_length_le [OF x] prefix_length_le [OF y] by (simp add: common_prefix_len_ge)
  then have "take (length pre) (take (common_prefix_len xs ys) ys) = pre"
    using y by (auto simp: min_def prefix_def)
  then show ?thesis by (metis take_is_prefix)
qed

text \<open>What a successful insertion promises of the new trie, for the induction.\<close>

definition inserted :: "nat \<Rightarrow> bytes \<Rightarrow> nat \<Rightarrow> 'p \<Rightarrow> 'p trieEntry \<Rightarrow> 'p trieEntry \<Rightarrow> bool" where
  "inserted n ip cidr p t t' \<longleftrightarrow> wf_trie n t' \<and> entries t' = (entries t)(node_prefix cidr ip \<mapsto> p) \<and>
     (\<forall>pre. below pre t \<longrightarrow> prefix pre (node_prefix cidr ip) \<longrightarrow> below pre t')"

lemma insert_deeper_case:
  assumes node: "t = Entry c l r b q bb bs" and t: "wf_trie n t"
    and ip: "length ip = n" "cidr \<le> 8 * n" "c < cidr" and cb: "commonBits b ip = Some d" "c \<le> d"
    and pre: "node_prefix c b = take c (bits_of ip)"
    and child: "u = (if bits_of ip ! c then r else l)"
    and u': "insert_entry u ip cidr p = Some u'" "inserted n ip cidr p u u'"
  shows "\<exists>t'. insert_entry t ip cidr p = Some t' \<and> inserted n ip cidr p t t'"
proof (intro exI conjI)
  let ?t' = "setChild t (of_bool (bits_of ip ! c)) u'"
  have "c < 8 * n" using ip by linarith
  with ip(1) have "choose_bit t ip = Some (of_bool (bits_of ip ! c))"
    using t by (simp add: node choose_bit_correct del: choose_bit.simps)
  then show "insert_entry t ip cidr p = Some ?t'"
    using ip(3) cb u'(1) by (simp add: node child del: choose_bit.simps split: if_splits)
  have "wf_trie n ?t' \<and> entries ?t' = (entries t)(node_prefix cidr ip \<mapsto> p)"
    unfolding node using t u'(2)
    by (intro insert_descend [OF _ ip pre child, of q bb bs u']) (simp_all add: node inserted_def)
  then show "inserted n ip cidr p t ?t'"
    by (simp add: inserted_def node del: entries.simps)
qed

lemma insert_above_case:
  assumes node: "t = Entry c l r b q bb bs" and t: "wf_trie n t"
    and ip: "length ip = n" "cidr < c" and cb: "commonBits b ip = Some d" "cidr \<le> d"
    and eq: "take cidr (bits_of b) = take cidr (bits_of ip)"
  shows "\<exists>t'. insert_entry t ip cidr p = Some t' \<and> inserted n ip cidr p t t'"
proof (intro exI conjI)
  let ?t' = "setChild (newEntry ip cidr (Some p)) (of_bool (bits_of b ! cidr)) t"
  have "cidr < 8 * n" using ip t unfolding node wf_trie.simps by linarith
  then have "choose_bit (newEntry ip cidr (Some p)) b = Some (of_bool (bits_of b ! cidr))"
    using t by (simp add: node newEntry_def choose_bit_correct del: choose_bit.simps)
  then show "insert_entry t ip cidr p = Some ?t'"
    using ip cb by (simp add: node min_uint_def)
  show "inserted n ip cidr p t ?t'"
    using insert_above [OF node t ip eq refl, of p] by (simp add: inserted_def newEntry_def)
qed

lemma insert_split_case:
  assumes node: "t = Entry c l r b q bb bs" and t: "wf_trie n t"
    and ip: "length ip = n" "cidr \<le> 8 * n" and d: "d < c" "d < cidr"
      "d = common_prefix_len (bits_of b) (bits_of ip)" and cb: "commonBits b ip = Some d"
    and eq: "take d (bits_of b) = take d (bits_of ip)"
  shows "\<exists>t'. insert_entry t ip cidr p = Some t' \<and> inserted n ip cidr p t t'"
proof (intro exI conjI)
  let ?i = "of_bool (bits_of ip ! d) :: nat"
  let ?t' = "setChild (setChild (newEntry ip d None) ?i (newEntry ip cidr (Some p))) (?i XOR 1) t"
  have dn: "d < 8 * n" using d ip by linarith
  with d(3) t ip have neq: "bits_of b ! d \<noteq> bits_of ip ! d"
    by (simp add: common_prefix_len_differ node)
  have "choose_bit (newEntry ip d (None :: 'a option)) ip = Some ?i"
    unfolding newEntry_def using ip dn by (intro choose_bit_correct) simp_all
  then show "insert_entry t ip cidr p = Some ?t'"
    using d cb by (simp add: node min_uint_def)
  show "inserted n ip cidr p t ?t'"
    using insert_split [OF node t ip d(1,2) eq neq refl refl, of p] prefix_common [of _ c "bits_of b" cidr "bits_of ip"]
    by (simp add: inserted_def newEntry_def node node_prefix_def flip: d(3))
qed

lemma insert_entry_correct:
  assumes n: "n = 4 \<or> n = 16" and ip: "length ip = n" "cidr \<le> 8 * n"
  shows "wf_trie n t \<Longrightarrow> \<exists>t'. insert_entry t ip cidr p = Some t' \<and> inserted n ip cidr p t t'"
proof (induction t)
  case NilEntry
  from ip show ?case by (simp add: newEntry_def inserted_def fun_eq_iff)
next
  case (Entry c l r b q bb bs)
  let ?K = "bits_of ip" and ?B = "bits_of b"
  define d where "d = common_prefix_len ?B ?K"
  from Entry.prems have w: "length b = n" "c \<le> 8 * n" "wf_trie n l" "wf_trie n r" by simp_all
  have cb: "commonBits b ip = Some d"
    unfolding d_def using n ip w by (intro commonBits_correct) auto
  have ge: "m \<le> d \<longleftrightarrow> take m ?B = take m ?K" if "m \<le> 8 * n" for m
    unfolding d_def using that ip w by (intro common_prefix_len_ge) simp_all
  consider (same) "c = cidr" "c \<le> d" | (deeper) "c < cidr" "c \<le> d"
    | (above) "cidr < c" "cidr \<le> d" | (split) "d < c" "d < cidr" by linarith
  then show ?case
  proof cases
    case same
    with ge [of c] w cb Entry.prems show ?thesis
      by (simp add: inserted_def node_prefix_def fun_eq_iff)
  next
    case deeper
    with ge [of c] w have "node_prefix c b = take c ?K" by (simp add: node_prefix_def)
    moreover obtain u' where "insert_entry (if ?K ! c then r else l) ip cidr p = Some u'"
      "inserted n ip cidr p (if ?K ! c then r else l) u'"
      using Entry.IH w by (cases "?K ! c") auto
    ultimately show ?thesis
      using insert_deeper_case [OF refl Entry.prems ip deeper(1) cb deeper(2) _ refl] by blast
  next
    case above
    then show ?thesis
      using insert_above_case [OF refl Entry.prems ip(1) above(1) cb above(2)] ge [of cidr] ip by simp
  next
    case split
    then show ?thesis
      using insert_split_case [OF refl Entry.prems ip split d_def cb] ge [of d] w by simp
  qed
qed

section \<open>Removal\<close>

lemma below_mono: "below pre' t \<Longrightarrow> prefix pre pre' \<Longrightarrow> below pre t"
  by (cases t) (auto intro: prefix_order.trans)

lemma removeByPeer_wf:
  "wf_trie n t \<Longrightarrow> wf_trie n (removeByPeer t p) \<and> (\<forall>pre. below pre t \<longrightarrow> below pre (removeByPeer t p))"
proof (induction t)
  case NilEntry
  then show ?case by simp
next
  case (Entry c l r b q bb bs)
  from Entry have "below pre (removeByPeer l p)" "below pre (removeByPeer r p)"
    if "prefix pre (node_prefix c b)" for pre
    using that by (auto intro: below_mono)
  with Entry show ?case by (auto simp: Let_def)
qed

lemma entries_disjoint:
  assumes "wf_trie n (Entry c l r b q bb bs)"
  shows "entries l k = None \<or> entries r k = None"
  using assms entries_below [of n l "node_prefix c b @ [False]" k]
    entries_below [of n r "node_prefix c b @ [True]" k]
  by (cases "entries l k"; cases "entries r k") (auto simp: prefix_def)

lemma entries_at_node:
  assumes "wf_trie n (Entry c l r b q bb bs)"
  shows "entries l (node_prefix c b) = None" "entries r (node_prefix c b) = None"
  using assms entries_below [of n l "node_prefix c b @ [False]" "node_prefix c b"]
    entries_below [of n r "node_prefix c b @ [True]" "node_prefix c b"]
  by (cases "entries l (node_prefix c b)"; cases "entries r (node_prefix c b)"; auto dest: prefix_length_le)+

lemma removeByPeer_sound:
  "wf_trie n t \<Longrightarrow> entries (removeByPeer t p) k = Some x \<Longrightarrow> x \<noteq> p \<and> entries t k = Some x"
proof (induction t arbitrary: k x)
  case NilEntry
  then show ?case by simp
next
  case (Entry c l r b q bb bs)
  note dis = entries_disjoint [OF Entry.prems(1), of k]
  from Entry.prems(1) have w: "wf_trie n l" "wf_trie n r"
    "below (node_prefix c b @ [False]) l" "below (node_prefix c b @ [True]) r" by simp_all
  note P = entries_at_node [OF Entry.prems(1)]
  have child: "x \<noteq> p \<and> entries (Entry c l r b q bb bs) k = Some x"
    if "entries (removeByPeer l p) k = Some x \<or> entries (removeByPeer r p) k = Some x"
    using that Entry.IH w dis P by (cases "k = node_prefix c b") (auto simp: map_add_def split: option.splits)
  show ?case
  proof (cases "q = Some p")
    case True
    with Entry.prems(2) have "entries (removeByPeer l p) k = Some x \<or> entries (removeByPeer r p) k = Some x"
      by (auto simp: Let_def split: if_splits)
    then show ?thesis by (rule child)
  next
    case False
    show ?thesis
    proof (cases "k = node_prefix c b")
      case True
      with False Entry.prems(2) show ?thesis by (auto simp: Let_def)
    next
      case k: False
      with False Entry.prems(2)
      have "entries (removeByPeer l p) k = Some x \<or> entries (removeByPeer r p) k = Some x"
        by (auto simp: Let_def map_add_Some_iff)
      then show ?thesis by (rule child)
    qed
  qed
qed

text \<open>
  A node of the removed peer is replaced by one of its children, so its other subtree is kept
  only when one of the two is nil. \<open>fork_free\<close> says that this is so for every node of the peer.
\<close>

fun fork_free :: "'p trieEntry \<Rightarrow> 'p \<Rightarrow> bool" where
  "fork_free NilEntry p = True"
| "fork_free (Entry c l r b q bb bs) p =
     (fork_free l p \<and> fork_free r p \<and>
      (q = Some p \<longrightarrow> removeByPeer l p = NilEntry \<or> removeByPeer r p = NilEntry))"

lemma removeByPeer_complete:
  "wf_trie n t \<Longrightarrow> fork_free t p \<Longrightarrow> entries t k = Some x \<Longrightarrow> x \<noteq> p \<Longrightarrow> entries (removeByPeer t p) k = Some x"
proof (induction t)
  case NilEntry
  then show ?case by simp
next
  case (Entry c l r b q bb bs)
  from Entry.prems(1) have w: "wf_trie n l" "wf_trie n r" by simp_all
  show ?case
  proof (cases "k = node_prefix c b")
    case True
    with Entry.prems show ?thesis by (auto simp: Let_def)
  next
    case False
    with Entry.prems consider (r) "entries r k = Some x" | (l) "entries l k = Some x" "entries r k = None"
      by (auto simp: map_add_Some_iff)
    then show ?thesis
    proof cases
      case r
      with Entry w have "entries (removeByPeer r p) k = Some x" by simp
      with False Entry.prems(2) show ?thesis by (auto simp: Let_def)
    next
      case l
      with Entry w have "entries (removeByPeer l p) k = Some x" by simp
      moreover have "entries (removeByPeer r p) k = None"
        using removeByPeer_sound [OF w(2), of p k] l(2) by (cases "entries (removeByPeer r p) k") auto
      ultimately show ?thesis using False Entry.prems(2) by (auto simp: Let_def map_add_def)
    qed
  qed
qed

section \<open>Listing the networks of a peer\<close>

text \<open>The prefix an \<^verbatim>\<open>IPNet\<close> denotes: as many leading bits of the address as the mask has ones.\<close>

definition net_prefix :: "IPNet \<Rightarrow> bool list" where
  "net_prefix x = take (length (takeWhile id (bits_of (net_Mask x)))) (bits_of (net_IP x))"

lemma bit_255: "bit (255 :: byte) i \<longleftrightarrow> i < 8"
proof -
  have "(255 :: byte) = - 1" by simp
  then have "bit (255 :: byte) i \<longleftrightarrow> possible_bit TYPE(byte) i" by (simp only: bit_minus_1_iff)
  then show ?thesis by simp
qed

lemma bit_CIDRMask:
  assumes "n = 4 \<or> n = 16" "c \<le> 8 * n" "j < 8 * n"
  shows "bits_of (CIDRMask c (n * 8)) ! j \<longleftrightarrow> j < c"
proof -
  define i r where "i = j div 8" and "r = j mod 8"
  have j: "j = 8 * i + r" "r < 8" by (simp_all add: i_def r_def)
  with assms(3) have i: "i < n" by simp
  have len: "length (CIDRMask c (n * 8)) = n" using assms by (auto simp: CIDRMask_def)
  let ?m = "CIDRMask c (n * 8) ! i"
  have m: "?m = (if 8 * i + 8 \<le> c then 255 else if 8 * i \<ge> c then 0
       else NOT (drop_bit (c - 8 * i) (255 :: byte)))"
    using assms i by (auto simp: CIDRMask_def)
  have "bit ?m (7 - r) \<longleftrightarrow> j < c"
  proof (cases "8 * i + 8 \<le> c \<or> 8 * i \<ge> c")
    case True
    with j bit_255 [of "7 - r"] show ?thesis unfolding m by auto
  next
    case False
    have r7: "7 - r < 8" by linarith
    from False have "?m = NOT (drop_bit (c - 8 * i) (255 :: byte))" using m by simp
    then have "bit ?m (7 - r) \<longleftrightarrow> \<not> c - 8 * i + (7 - r) < 8"
      using r7 by (simp only: bit_not_iff bit_drop_bit_eq bit_255 o_apply) simp
    also have "\<dots> \<longleftrightarrow> j < c" using False j by linarith
    finally show ?thesis .
  qed
  moreover have "bits_of (CIDRMask c (n * 8)) ! j = bit ?m (7 - r)"
    using len assms(3) by (simp add: nth_bits_of i_def r_def)
  ultimately show ?thesis by simp
qed

lemma length_CIDRMask: "n = 4 \<or> n = 16 \<Longrightarrow> c \<le> 8 * n \<Longrightarrow> length (CIDRMask c (n * 8)) = n"
  by (auto simp: CIDRMask_def)

lemma takeWhile_replicate_app: "takeWhile id (replicate a True @ replicate b False) = replicate a True"
  by (induction a) (cases b; simp)+

lemma net_prefix_entry:
  assumes "n = 4 \<or> n = 16" "c \<le> 8 * n" "length b = n"
  shows "net_prefix \<lparr>net_IP = IPMask b (CIDRMask c (length b * 8)), net_Mask = CIDRMask c (length b * 8)\<rparr> = node_prefix c b"
proof -
  let ?m = "CIDRMask c (n * 8)"
  have len: "length ?m = n" using assms by (simp add: length_CIDRMask)
  have "bits_of ?m = replicate c True @ replicate (8 * n - c) False"
    using assms len by (intro nth_equalityI) (auto simp: bit_CIDRMask nth_append)
  then have ones: "length (takeWhile id (bits_of ?m)) = c"
    by (simp add: takeWhile_replicate_app)
  have "take c (bits_of (IPMask b ?m)) = take c (bits_of b)"
  proof (rule nth_equalityI)
    show "length (take c (bits_of (IPMask b ?m))) = length (take c (bits_of b))"
      using assms len by (simp add: IPMask_def)
    fix j
    assume "j < length (take c (bits_of (IPMask b ?m)))"
    then have j: "j < c" "j < 8 * n" using assms len by (simp_all add: IPMask_def)
    then have d: "j div 8 < n" by (simp add: less_mult_imp_div_less mult.commute)
    have "bit (?m ! (j div 8)) (7 - j mod 8)"
      using bit_CIDRMask [OF assms(1,2) j(2)] len j by (simp add: nth_bits_of)
    with j d assms len show "take c (bits_of (IPMask b ?m)) ! j = take c (bits_of b) ! j"
      by (simp add: IPMask_def nth_bits_of bit_and_iff)
  qed
  with ones assms show ?thesis by (simp add: net_prefix_def node_prefix_def)
qed

lemma entriesForPeer_append: "entriesForPeer t p res = res @ entriesForPeer t p []"
proof (induction t arbitrary: res)
  case NilEntry
  then show ?case by simp
next
  case (Entry c l r b q bb bs)
  have *: "entriesForPeer r p (entriesForPeer l p xs) = xs @ entriesForPeer l p [] @ entriesForPeer r p []" for xs
    using Entry.IH(1) [of xs] Entry.IH(2) [of "entriesForPeer l p xs"] by simp
  show ?case by (simp add: Let_def *)
qed

lemma entriesForPeer_correct:
  assumes "n = 4 \<or> n = 16"
  shows "wf_trie n t \<Longrightarrow> net_prefix ` set (entriesForPeer t p []) = {k. entries t k = Some p}"
proof (induction t)
  case NilEntry
  then show ?case by simp
next
  case (Entry c l r b q bb bs)
  let ?e = "\<lparr>net_IP = IPMask b (CIDRMask c (length b * 8)), net_Mask = CIDRMask c (length b * 8)\<rparr>"
  have "set (entriesForPeer (Entry c l r b q bb bs) p []) =
      (if q = Some p then {?e} else {}) \<union> set (entriesForPeer l p []) \<union> set (entriesForPeer r p [])"
    using entriesForPeer_append [of l p "[?e]"] entriesForPeer_append [of r p "entriesForPeer l p [?e]"]
      entriesForPeer_append [of r p "entriesForPeer l p []"]
    by (auto simp: Let_def)
  moreover have "net_prefix ?e = node_prefix c b"
    using assms Entry.prems by (intro net_prefix_entry) auto
  moreover have "entries (Entry c l r b q bb bs) k = Some p \<longleftrightarrow>
      (q = Some p \<and> k = node_prefix c b) \<or> entries l k = Some p \<or> entries r k = Some p" for k
    using entries_disjoint [OF Entry.prems, of k] entries_at_node [OF Entry.prems]
    by (cases "k = node_prefix c b") (auto simp: map_add_def split: option.splits)
  ultimately show ?case using Entry by auto
qed

section \<open>The interface of a routing table\<close>

lemma lpm_update:
  assumes "c \<le> length k" "c \<le> length ip" "take c k = take c ip"
    "\<And>j. c < j \<Longrightarrow> j \<le> length k \<Longrightarrow> m (take j k) = None"
  shows "lpm (m(take c ip \<mapsto> p)) k = Some p"
proof -
  have "take j k \<noteq> take c ip" if "c < j" "j \<le> length k" for j
    using that assms by (metis length_take min.absorb2 nat_neq_iff)
  with assms show ?thesis unfolding lpm_Some by (intro exI [of _ c]) auto
qed

text \<open>
  What the send and receive paths rely on for one address family of \<open>alen\<close> bytes: a table
  denotes a map from prefixes to peers, an insertion updates one prefix, a lookup is the
  longest-prefix match, and a removal leaves no prefix of the peer and adds nothing.
\<close>

locale lpm_table =
  fixes alen :: nat
    and wf :: "'t \<Rightarrow> bool"
    and tab :: "'t \<Rightarrow> bool list \<Rightarrow> 'p option"
    and ins :: "'t \<Rightarrow> bytes \<Rightarrow> nat \<Rightarrow> 'p \<Rightarrow> 't option"
    and look :: "'t \<Rightarrow> bytes \<Rightarrow> 'p option option"
    and rem :: "'t \<Rightarrow> 'p \<Rightarrow> 't"
  assumes ins_ok: "wf t \<Longrightarrow> length ip = alen \<Longrightarrow> c \<le> 8 * alen \<Longrightarrow>
      \<exists>t'. ins t ip c p = Some t' \<and> wf t' \<and> tab t' = (tab t)(take c (bits_of ip) \<mapsto> p)"
    and look_ok: "wf t \<Longrightarrow> length a = alen \<Longrightarrow> look t a = Some (lpm (tab t) (bits_of a))"
    and rem_wf: "wf t \<Longrightarrow> wf (rem t p)"
    and rem_sound: "wf t \<Longrightarrow> tab (rem t p) k = Some x \<Longrightarrow> x \<noteq> p \<and> tab t k = Some x"
begin

lemma look_total: "wf t \<Longrightarrow> length a = alen \<Longrightarrow> look t a \<noteq> None"
  by (simp add: look_ok)

text \<open>After an insertion, an address inside the prefix and in no longer one goes to the new peer.\<close>

lemma ins_look_inside:
  assumes "wf t" "length ip = alen" "c \<le> 8 * alen" "ins t ip c p = Some t'" "length a = alen"
    "take c (bits_of a) = take c (bits_of ip)"
    "\<And>j. c < j \<Longrightarrow> j \<le> 8 * alen \<Longrightarrow> tab t (take j (bits_of a)) = None"
  shows "look t' a = Some (Some p)"
proof -
  have t': "wf t'" "tab t' = (tab t)(take c (bits_of ip) \<mapsto> p)"
    using ins_ok [OF assms(1-3), of p] assms(4) by auto
  have "lpm ((tab t)(take c (bits_of ip) \<mapsto> p)) (bits_of a) = Some p"
    using assms by (intro lpm_update) auto
  with t' assms(5) show ?thesis by (simp add: look_ok)
qed

text \<open>Every other address keeps its peer.\<close>

lemma ins_look_other:
  assumes "wf t" "length ip = alen" "c \<le> 8 * alen" "ins t ip c p = Some t'" "length a = alen"
    "take c (bits_of a) \<noteq> take c (bits_of ip) \<or>
     (\<exists>j. c < j \<and> j \<le> 8 * alen \<and> tab t (take j (bits_of a)) \<noteq> None)"
  shows "look t' a = look t a"
proof -
  have t': "wf t'" "tab t' = (tab t)(take c (bits_of ip) \<mapsto> p)"
    using ins_ok [OF assms(1-3), of p] assms(4) by auto
  have "lpm (tab t') (bits_of a) = lpm (tab t) (bits_of a)"
    using assms(6)
  proof
    assume ne: "take c (bits_of a) \<noteq> take c (bits_of ip)"
    have "take i (bits_of a) \<noteq> take c (bits_of ip)" if "i \<le> length (bits_of a)" for i
      using that ne assms(2,3,5) by (metis length_bits_of length_take min.absorb2)
    then show ?thesis by (intro lpm_eqI) (simp add: t')
  next
    assume "\<exists>j. c < j \<and> j \<le> 8 * alen \<and> tab t (take j (bits_of a)) \<noteq> None"
    then obtain j where j: "c < j" "j \<le> 8 * alen" "tab t (take j (bits_of a)) \<noteq> None" by blast
    then have "lpm (tab t) (bits_of a) \<noteq> None" using assms(5) unfolding lpm_None by auto
    then obtain x where x: "lpm (tab t) (bits_of a) = Some x" by blast
    then obtain i where i: "i \<le> 8 * alen" "tab t (take i (bits_of a)) = Some x"
      "\<And>j. i < j \<Longrightarrow> j \<le> 8 * alen \<Longrightarrow> tab t (take j (bits_of a)) = None"
      unfolding lpm_Some using assms(5) by auto
    have ij: "j \<le> i" using j i(3) by (meson not_le)
    have "take m (bits_of a) \<noteq> take c (bits_of ip)" if "c < m" "m \<le> 8 * alen" for m
      using that assms(2,3,5) by (metis length_bits_of length_take min.absorb2 nat_neq_iff)
    then have "lpm (tab t') (bits_of a) = Some x"
      unfolding lpm_Some using i ij j assms(5) by (intro exI [of _ i]) (auto simp: t')
    with x show ?thesis by simp
  qed
  with t' assms show ?thesis by (simp add: look_ok)
qed

text \<open>A removed peer is the answer of no lookup.\<close>

lemma rem_look:
  assumes "wf t" "length a = alen"
  shows "look (rem t p) a \<noteq> Some (Some p)"
proof
  assume "look (rem t p) a = Some (Some p)"
  then have "lpm (tab (rem t p)) (bits_of a) = Some p"
    using assms by (simp add: look_ok rem_wf)
  then obtain i where "tab (rem t p) (take i (bits_of a)) = Some p"
    unfolding lpm_Some by blast
  with rem_sound [OF assms(1)] show False by blast
qed

end

section \<open>The two tables of a device\<close>

definition wf_table :: "'p AllowedIPs \<Rightarrow> bool" where
  "wf_table t \<longleftrightarrow> wf_trie 4 (IPv4 t) \<and> wf_trie 16 (IPv6 t)"

lemma Insert_IPv4:
  assumes "wf_table t" "length ip = 4" "c \<le> 32"
  shows "\<exists>t'. Insert t ip c p = Some t' \<and> wf_table t' \<and> IPv6 t' = IPv6 t \<and>
     entries (IPv4 t') = (entries (IPv4 t))(take c (bits_of ip) \<mapsto> p)"
  using insert_entry_correct [of 4 ip c "IPv4 t" p] assms
  by (auto simp: Insert_def wf_table_def inserted_def node_prefix_def)

lemma Insert_IPv6:
  assumes "wf_table t" "length ip = 16" "c \<le> 128"
  shows "\<exists>t'. Insert t ip c p = Some t' \<and> wf_table t' \<and> IPv4 t' = IPv4 t \<and>
     entries (IPv6 t') = (entries (IPv6 t))(take c (bits_of ip) \<mapsto> p)"
  using insert_entry_correct [of 16 ip c "IPv6 t" p] assms
  by (auto simp: Insert_def wf_table_def inserted_def node_prefix_def)

lemma wf_RemoveByPeer: "wf_table t \<Longrightarrow> wf_table (RemoveByPeer t p)"
  by (simp add: wf_table_def RemoveByPeer_def removeByPeer_wf)

interpretation ipv4: lpm_table 4 wf_table "\<lambda>t. entries (IPv4 t)" Insert LookupIPv4 RemoveByPeer
proof
  fix t :: "'p AllowedIPs" and ip a :: bytes and c p k x
  show "\<exists>t'. Insert t ip c p = Some t' \<and> wf_table t' \<and>
      entries (IPv4 t') = (entries (IPv4 t))(take c (bits_of ip) \<mapsto> p)"
    if "wf_table t" "length ip = 4" "c \<le> 8 * 4"
    using Insert_IPv4 [of t ip c p] that by auto
  show "LookupIPv4 t a = Some (lpm (entries (IPv4 t)) (bits_of a))" if "wf_table t" "length a = 4"
    using lookup_entry_correct [of 4 a "IPv4 t" None] that
    by (simp add: LookupIPv4_def wf_table_def split: option.splits)
  show "wf_table (RemoveByPeer t p)" if "wf_table t" using that by (rule wf_RemoveByPeer)
  show "x \<noteq> p \<and> entries (IPv4 t) k = Some x"
    if "wf_table t" "entries (IPv4 (RemoveByPeer t p)) k = Some x"
    using removeByPeer_sound [of 4 "IPv4 t" p k x] that by (simp add: wf_table_def RemoveByPeer_def)
qed

interpretation ipv6: lpm_table 16 wf_table "\<lambda>t. entries (IPv6 t)" Insert LookupIPv6 RemoveByPeer
proof
  fix t :: "'p AllowedIPs" and ip a :: bytes and c p k x
  show "\<exists>t'. Insert t ip c p = Some t' \<and> wf_table t' \<and>
      entries (IPv6 t') = (entries (IPv6 t))(take c (bits_of ip) \<mapsto> p)"
    if "wf_table t" "length ip = 16" "c \<le> 8 * 16"
    using Insert_IPv6 [of t ip c p] that by auto
  show "LookupIPv6 t a = Some (lpm (entries (IPv6 t)) (bits_of a))" if "wf_table t" "length a = 16"
    using lookup_entry_correct [of 16 a "IPv6 t" None] that
    by (simp add: LookupIPv6_def wf_table_def split: option.splits)
  show "wf_table (RemoveByPeer t p)" if "wf_table t" using that by (rule wf_RemoveByPeer)
  show "x \<noteq> p \<and> entries (IPv6 t) k = Some x"
    if "wf_table t" "entries (IPv6 (RemoveByPeer t p)) k = Some x"
    using removeByPeer_sound [of 16 "IPv6 t" p k x] that by (simp add: wf_table_def RemoveByPeer_def)
qed

text \<open>The tables a device can have: any sequence of the operations on an empty table.\<close>

inductive reachable_table :: "'p AllowedIPs \<Rightarrow> bool" where
  reset: "reachable_table (Reset t)"
| insert: "reachable_table t \<Longrightarrow> cidr \<le> 8 * length ip \<Longrightarrow> Insert t ip cidr p = Some t' \<Longrightarrow> reachable_table t'"
| remove: "reachable_table t \<Longrightarrow> reachable_table (RemoveByPeer t p)"

lemma Insert_length: "Insert t ip c p = Some t' \<Longrightarrow> length ip = 4 \<or> length ip = 16"
  by (auto simp: Insert_def split: if_splits)

lemma reachable_table_wf: "reachable_table t \<Longrightarrow> wf_table t"
proof (induction rule: reachable_table.induct)
  case (reset t)
  show ?case by (simp add: Reset_def wf_table_def)
next
  case (insert t cidr ip p t')
  then show ?case
    using Insert_length [OF insert.hyps(3)] Insert_IPv4 [of t ip cidr p] Insert_IPv6 [of t ip cidr p] by auto
next
  case (remove t p)
  then show ?case by (simp add: wf_RemoveByPeer)
qed

lemma removeByPeer_exact:
  assumes "wf_trie n t" "fork_free t p"
  shows "entries (removeByPeer t p) k = (if entries t k = Some p then None else entries t k)"
  using removeByPeer_sound [OF assms(1), of p k] removeByPeer_complete [OF assms, of k]
  by (cases "entries t k"; cases "entries (removeByPeer t p) k") auto

section \<open>Properties\<close>

lemmas eval_trie = Insert_def LookupIPv4_def Reset_def RemoveByPeer_def newEntry_def min_uint_def at_def
  commonBits_correct [where n = 4] byte_bits_def upt_rec bit_0

text \<open>C8: on every table the device can have, a lookup never panics and returns the peer of the
  longest prefix that contains the address, for both address families.\<close>

theorem allowedips_lookup_longest_prefix:
  assumes "reachable_table t"
  shows "(length a = 4 \<longrightarrow> LookupIPv4 t a = Some (lpm (entries (IPv4 t)) (bits_of a))) \<and>
    (length a = 16 \<longrightarrow> LookupIPv6 t a = Some (lpm (entries (IPv6 t)) (bits_of a)))"
  using ipv4.look_ok ipv6.look_ok reachable_table_wf [OF assms] by blast

definition table_10 :: "nat AllowedIPs" where
  "table_10 = \<lparr>IPv4 = newEntry [10, 0, 0, 0] 8 (Some 1), IPv6 = NilEntry\<rparr>"

definition table_10_fork :: "nat AllowedIPs" where
  "table_10_fork = \<lparr>IPv4 = Entry 8 (newEntry [10, 0, 0, 0] 9 (Some 2)) (newEntry [10, 128, 0, 0] 9 (Some 3))
     [10, 0, 0, 0] (Some 1) 1 7, IPv6 = NilEntry\<rparr>"

lemma reachable_table_10: "reachable_table table_10"
proof (rule reachable_table.insert)
  show "reachable_table (Reset table_10)" by (rule reachable_table.reset)
  show "Insert (Reset table_10) [10, 0, 0, 0] 8 1 = Some table_10"
    by (simp add: Insert_def Reset_def table_10_def)
qed simp

lemma reachable_table_10_fork: "reachable_table table_10_fork"
proof (rule reachable_table.insert)
  let ?t = "table_10\<lparr>IPv4 := Entry 8 (newEntry [10, 0, 0, 0] 9 (Some 2)) NilEntry [10, 0, 0, 0] (Some 1) 1 7\<rparr>"
  show "reachable_table ?t"
  proof (rule reachable_table.insert [OF reachable_table_10])
    show "Insert table_10 [10, 0, 0, 0] 9 2 = Some ?t"
      by (simp add: eval_trie table_10_def)
  qed simp
  show "Insert ?t [10, 128, 0, 0] 9 3 = Some table_10_fork"
    by (simp add: eval_trie table_10_def table_10_fork_def)
qed simp

theorem allowedips_lookup_longest_prefix_witness:
  "LookupIPv4 table_10_fork [10, 200, 1, 1] =
     Some (lpm (entries (IPv4 table_10_fork)) (bits_of [10, 200, 1, 1])) \<and>
   LookupIPv4 table_10_fork [10, 200, 1, 1] = Some (Some 3)"
proof
  show "LookupIPv4 table_10_fork [10, 200, 1, 1] =
     Some (lpm (entries (IPv4 table_10_fork)) (bits_of [10, 200, 1, 1]))"
    using allowedips_lookup_longest_prefix [OF reachable_table_10_fork, of "[10, 200, 1, 1]"]
    by (simp del: bits_of_simps)
  show "LookupIPv4 table_10_fork [10, 200, 1, 1] = Some (Some 3)"
    by (simp add: eval_trie table_10_fork_def)
qed

definition lookup_family :: "'p AllowedIPs \<Rightarrow> bytes \<Rightarrow> 'p option option" where
  "lookup_family t a = (if length a = 16 then LookupIPv6 t a else LookupIPv4 t a)"

definition entries_family :: "'p AllowedIPs \<Rightarrow> nat \<Rightarrow> bool list \<Rightarrow> 'p option" where
  "entries_family t n = (if n = 16 then entries (IPv6 t) else entries (IPv4 t))"

lemma insert_family:
  assumes t: "wf_table t" and ip: "length ip = n" "n = 4 \<or> n = 16" "cidr \<le> 8 * n"
  obtains t' where "Insert t ip cidr p = Some t'" "wf_table t'"
    "\<And>m. m \<noteq> n \<Longrightarrow> m = 4 \<or> m = 16 \<Longrightarrow> entries_family t' m = entries_family t m"
    "\<And>a. length a = n \<Longrightarrow> lookup_family t' a =
       (if take cidr (bits_of a) = take cidr (bits_of ip) \<and>
           (\<forall>j. cidr < j \<longrightarrow> j \<le> 8 * n \<longrightarrow> entries_family t n (take j (bits_of a)) = None)
        then Some (Some p) else lookup_family t a)"
proof (cases "n = 4")
  case True
  with ip obtain t' where t': "Insert t ip cidr p = Some t'" "wf_table t'" "IPv6 t' = IPv6 t"
    using Insert_IPv4 [OF t, of ip cidr p] by auto
  show ?thesis
    using True ip t'(3) ipv4.ins_look_inside [OF t _ _ t'(1)] ipv4.ins_look_other [OF t _ _ t'(1)]
    by (intro that [OF t'(1,2)]) (auto simp: lookup_family_def entries_family_def)
next
  case False
  with ip obtain t' where t': "Insert t ip cidr p = Some t'" "wf_table t'" "IPv4 t' = IPv4 t"
    using Insert_IPv6 [OF t, of ip cidr p] by auto
  show ?thesis
    using False ip t'(3) ipv6.ins_look_inside [OF t _ _ t'(1)] ipv6.ins_look_other [OF t _ _ t'(1)]
    by (intro that [OF t'(1,2)]) (auto simp: lookup_family_def entries_family_def)
qed



text \<open>C15: once a peer is removed, no lookup in either family answers it.\<close>

theorem allowedips_removed_peer_unreachable:
  assumes "reachable_table t" "length a = 4 \<or> length a = 16"
  shows "lookup_family (RemoveByPeer t p) a \<noteq> Some (Some p) \<and> lookup_family (RemoveByPeer t p) a \<noteq> None"
proof -
  have wf: "wf_table t" "wf_table (RemoveByPeer t p)"
    using reachable_table_wf [OF assms(1)] by (simp_all add: wf_RemoveByPeer)
  show ?thesis
    using assms(2) ipv4.rem_look [OF wf(1), of a p] ipv6.rem_look [OF wf(1), of a p]
      ipv4.look_total [OF wf(2), of a] ipv6.look_total [OF wf(2), of a]
    by (auto simp: lookup_family_def)
qed

theorem allowedips_removed_peer_unreachable_witness:
  "lookup_family (RemoveByPeer table_10_fork 1) [10, 0, 0, 1] \<noteq> Some (Some 1) \<and>
   lookup_family (RemoveByPeer table_10_fork 1) [10, 0, 0, 1] = Some (Some 2)"
proof
  show "lookup_family (RemoveByPeer table_10_fork 1) [10, 0, 0, 1] \<noteq> Some (Some 1)"
    using allowedips_removed_peer_unreachable [OF reachable_table_10_fork, of "[10, 0, 0, 1]" 1] by simp
  show "lookup_family (RemoveByPeer table_10_fork 1) [10, 0, 0, 1] = Some (Some 2)"
    by (simp add: lookup_family_def eval_trie table_10_fork_def)
qed

text \<open>C16: \<^verbatim>\<open>removeByPeer\<close> can drop the networks of other peers: when a node of the removed peer has two
  children, the second subtree is lost, and an address routed to another peer becomes unrouted.\<close>

theorem allowedips_remove_drops_other_peers:
  "\<exists>t a (p :: nat) q. reachable_table t \<and> length a = 4 \<and> p \<noteq> q \<and>
     LookupIPv4 t a = Some (Some q) \<and> LookupIPv4 (RemoveByPeer t p) a = Some None"
proof (intro exI conjI)
  show "reachable_table table_10_fork" by (rule reachable_table_10_fork)
  show "LookupIPv4 table_10_fork [10, 200, 1, 1] = Some (Some 3)"
    by (simp add: eval_trie table_10_fork_def)
  show "LookupIPv4 (RemoveByPeer table_10_fork 1) [10, 200, 1, 1] = Some None"
    by (simp add: eval_trie table_10_fork_def)
qed simp_all

text \<open>C17: where no node of the removed peer has two subtrees left, removal deletes exactly the prefixes of
  that peer and keeps every other route.\<close>

theorem allowedips_remove_exact:
  assumes "reachable_table t" "fork_free (IPv4 t) p" "fork_free (IPv6 t) p" "n = 4 \<or> n = 16"
  shows "entries_family (RemoveByPeer t p) n k =
     (if entries_family t n k = Some p then None else entries_family t n k)"
proof -
  have wf: "wf_trie 4 (IPv4 t)" "wf_trie 16 (IPv6 t)"
    using reachable_table_wf [OF assms(1)] by (simp_all add: wf_table_def)
  show ?thesis
    using removeByPeer_exact [OF wf(1) assms(2), of k] removeByPeer_exact [OF wf(2) assms(3), of k]
    by (simp add: entries_family_def RemoveByPeer_def)
qed

theorem allowedips_remove_exact_witness:
  "entries_family (RemoveByPeer table_10_fork 2) 4 (take 9 (bits_of [10, 128, 0, 0])) =
     entries_family table_10_fork 4 (take 9 (bits_of [10, 128, 0, 0])) \<and>
   entries_family table_10_fork 4 (take 9 (bits_of [10, 128, 0, 0])) = Some 3"
proof
  have ff: "fork_free (IPv4 table_10_fork) 2" "fork_free (IPv6 table_10_fork) 2"
    by (simp_all add: table_10_fork_def newEntry_def)
  show "entries_family table_10_fork 4 (take 9 (bits_of [10, 128, 0, 0])) = Some 3"
    by (simp add: entries_family_def table_10_fork_def newEntry_def node_prefix_def byte_bits_def upt_rec bit_0)
  then show "entries_family (RemoveByPeer table_10_fork 2) 4 (take 9 (bits_of [10, 128, 0, 0])) =
     entries_family table_10_fork 4 (take 9 (bits_of [10, 128, 0, 0]))"
    using allowedips_remove_exact [OF reachable_table_10_fork ff, of 4 "take 9 (bits_of [10, 128, 0, 0])"]
    by simp
qed

text \<open>C18: \<^verbatim>\<open>EntriesForPeer\<close> lists exactly the networks the table holds for the peer.\<close>

theorem allowedips_entries_for_peer:
  assumes "reachable_table t"
  shows "net_prefix ` set (EntriesForPeer t p) =
     {k. entries (IPv4 t) k = Some p} \<union> {k. entries (IPv6 t) k = Some p}"
proof -
  have "wf_trie 4 (IPv4 t)" "wf_trie 16 (IPv6 t)"
    using reachable_table_wf [OF assms] by (simp_all add: wf_table_def)
  then show ?thesis
    using entriesForPeer_append [of "IPv6 t" p "entriesForPeer (IPv4 t) p []"]
      entriesForPeer_correct [of 4 "IPv4 t" p] entriesForPeer_correct [of 16 "IPv6 t" p]
    by (simp add: EntriesForPeer_def image_Un)
qed

theorem allowedips_entries_for_peer_witness:
  "net_prefix ` set (EntriesForPeer table_10 1) =
     {k. entries (IPv4 table_10) k = Some 1} \<union> {k. entries (IPv6 table_10) k = Some 1} \<and>
   EntriesForPeer table_10 1 = [\<lparr>net_IP = [10, 0, 0, 0], net_Mask = [255, 0, 0, 0]\<rparr>]"
proof
  show "net_prefix ` set (EntriesForPeer table_10 1) =
     {k. entries (IPv4 table_10) k = Some 1} \<union> {k. entries (IPv6 table_10) k = Some 1}"
    by (rule allowedips_entries_for_peer [OF reachable_table_10])
  show "EntriesForPeer table_10 1 = [\<lparr>net_IP = [10, 0, 0, 0], net_Mask = [255, 0, 0, 0]\<rparr>]"
    by (simp add: EntriesForPeer_def table_10_def newEntry_def CIDRMask_def IPMask_def upt_rec)
qed

end
