(* ===== verification/Replay.thy ===== *)
theory Replay
  imports Prelude
begin

text \<open>
  The replay filter of \<^verbatim>\<open>replay/replay.go\<close> (RFC 6479) on a 64-bit platform: a ring of 64-bit
  bitmap words indexed by the high bits of the packet counter. The specification
  is the set of accepted counters; the filter is proved to accept a counter exactly when it
  is below the limit, not behind the window and not accepted before.
\<close>

section \<open>Model\<close>

definition WordSize :: nat where
  "WordSize = 8"

definition CounterRedundantBitsLog :: nat where
  "CounterRedundantBitsLog = 6"

definition CounterRedundantBits :: nat where
  "CounterRedundantBits = WordSize * 8"

definition CounterBitsTotal :: nat where
  "CounterBitsTotal = 2048"

definition CounterWindowSize :: u64 where
  "CounterWindowSize = of_nat (CounterBitsTotal - CounterRedundantBits)"

definition BacktrackWords :: nat where
  "BacktrackWords = CounterBitsTotal div WordSize"

definition minUint64 :: "u64 \<Rightarrow> u64 \<Rightarrow> u64" where
  "minUint64 a b = (if a > b then b else a)"

record ReplayFilter =
  counter :: u64
  backtrack :: "u64 list"

definition new_ReplayFilter :: ReplayFilter where
  "new_ReplayFilter = \<lparr>counter = 0, backtrack = replicate BacktrackWords 0\<rparr>"

definition ReplayFilter_Init :: "ReplayFilter \<Rightarrow> ReplayFilter" where
  "ReplayFilter_Init f = f\<lparr>counter := 0, backtrack := (backtrack f)[0 := 0]\<rparr>"

text \<open>The loop that clears the words the window moves over, from \<open>i\<close> up to \<open>diff\<close>.\<close>

definition clear_words :: "u64 \<Rightarrow> u64 \<Rightarrow> u64 list \<Rightarrow> u64 list" where
  "clear_words current diff bt =
     fold (\<lambda>i bt. bt[unat ((current + of_nat i) mod of_nat BacktrackWords) := 0]) [1..<Suc (unat diff)] bt"

definition ValidateCounter :: "ReplayFilter \<Rightarrow> u64 \<Rightarrow> u64 \<Rightarrow> bool \<times> ReplayFilter" where
  "ValidateCounter f cnt limit =
     (if cnt \<ge> limit then (False, f)
      else
        let indexWord = drop_bit CounterRedundantBitsLog cnt;
            indexWord' = indexWord mod of_nat BacktrackWords;
            indexBit = cnt AND (of_nat CounterRedundantBits - 1);
            check_set = (\<lambda>f.
              let oldValue = backtrack f ! unat indexWord';
                  newValue = oldValue OR push_bit (unat indexBit) 1
              in (oldValue \<noteq> newValue, f\<lparr>backtrack := (backtrack f)[unat indexWord' := newValue]\<rparr>))
        in if cnt > counter f then
             let current = drop_bit CounterRedundantBitsLog (counter f);
                 diff = minUint64 (indexWord - current) (of_nat BacktrackWords)
             in check_set (f\<lparr>backtrack := clear_words current diff (backtrack f), counter := cnt\<rparr>)
           else if counter f - cnt > CounterWindowSize then (False, f)
           else check_set f)"

section \<open>The window on natural numbers\<close>

lemmas replay_consts = WordSize_def CounterRedundantBitsLog_def CounterRedundantBits_def
  CounterBitsTotal_def CounterWindowSize_def BacktrackWords_def

lemma unat_window:
  "unat (drop_bit 6 (c :: u64)) = unat c div 64"
  "unat (drop_bit 6 c mod 256) = unat c div 64 mod 256"
  "unat (c AND 63) = unat c mod 64"
proof -
  show d: "unat (drop_bit 6 c) = unat c div 64"
    by (simp add: drop_bit_eq_div unat_div)
  show "unat (drop_bit 6 c mod 256) = unat c div 64 mod 256"
    by (simp add: unat_mod d)
  have "c AND 63 = take_bit 6 c" by (simp add: take_bit_eq_mask mask_numeral)
  then show "unat (c AND 63) = unat c mod 64"
    by (simp add: take_bit_eq_mod unat_mod)
qed

lemma u64_div_bound: "unat (c :: u64) div 64 < 2 ^ 58"
  using unsigned_less [of c, where ?'a = nat] by simp

lemma clear_words_nat:
  assumes "unat cur + unat diff < 2 ^ 64"
  shows "clear_words cur diff bt = fold (\<lambda>i bt. bt[(unat cur + i) mod 256 := 0]) [1..<Suc (unat diff)] bt"
  unfolding clear_words_def
proof (rule fold_cong)
  fix i
  assume "i \<in> set [1..<Suc (unat diff)]"
  then have "unat cur + i < 2 ^ 64" using assms by auto
  then have "unat (cur + of_nat i) = unat cur + i"
    by (simp add: unat_word_ariths unat_of_nat)
  then show "(\<lambda>bt. bt[unat ((cur + of_nat i) mod of_nat BacktrackWords) := 0]) = (\<lambda>bt. bt[(unat cur + i) mod 256 := 0])"
    by (simp add: replay_consts unat_mod)
qed simp_all

lemma nth_fold_clear:
  "length bt = 256 \<Longrightarrow> length (fold (\<lambda>i bt. bt[(cur + i) mod 256 := 0]) [1..<Suc n] bt) = 256 \<and>
   (\<forall>j<256. fold (\<lambda>i bt. bt[(cur + i) mod 256 := (0 :: u64)]) [1..<Suc n] bt ! j =
      (if \<exists>i. 1 \<le> i \<and> i \<le> n \<and> (cur + i) mod 256 = j then 0 else bt ! j))"
proof (induction n)
  case 0
  then show ?case by simp
next
  case (Suc n)
  then show ?case
    by (auto simp: nth_list_update le_Suc_eq)
qed

section \<open>Refinement of the set of accepted counters\<close>

definition in_window :: "nat \<Rightarrow> nat \<Rightarrow> bool" where
  "in_window w hi \<longleftrightarrow> w \<le> hi \<and> hi < w + 256"

definition replay_rep :: "ReplayFilter \<Rightarrow> u64 set \<Rightarrow> bool" where
  "replay_rep f S \<longleftrightarrow> length (backtrack f) = 256 \<and> (\<forall>c \<in> S. c \<le> counter f) \<and>
     (\<forall>c. in_window (unat c div 64) (unat (counter f) div 64) \<longrightarrow>
        bit (backtrack f ! (unat c div 64 mod 256)) (unat c mod 64) = (c \<in> S))"

lemma window_index_eq: "in_window w hi \<Longrightarrow> in_window w' hi \<Longrightarrow> w mod 256 = w' mod 256 \<Longrightarrow> w = w'"
  for w w' hi :: nat
proof -
  have *: "w = w'" if "in_window w hi" "in_window w' hi" "w mod 256 = w' mod 256" "w \<le> w'" for w w' :: nat
  proof -
    have "(w' - w) mod 256 = 0" using that(3,4) by (metis mod_eq_dvd_iff_nat mod_0_imp_dvd dvd_imp_mod_0)
    moreover have "w' - w < 256" using that by (auto simp: in_window_def)
    ultimately show ?thesis using that(4) by simp
  qed
  assume "in_window w hi" "in_window w' hi" "w mod 256 = w' mod 256"
  with *[of w w'] *[of w' w] show ?thesis by (metis nat_le_linear)
qed

lemma counter_eqI: "unat c div 64 = unat d div 64 \<Longrightarrow> unat c mod 64 = unat d mod 64 \<Longrightarrow> c = d" for c d :: u64
  by (metis div_mult_mod_eq unsigned_word_eqI)

lemma bit_set_bit: "bit (w OR push_bit i 1) j \<longleftrightarrow> bit w j \<or> (i = j \<and> j < 64)" for w :: u64
  by (auto simp: bit_or_iff bit_push_bit_iff bit_1_iff simp del: push_bit_of_1)

text \<open>Setting the bit of one counter of the window adds that counter.\<close>

lemma replay_rep_set:
  assumes "replay_rep f S" "c \<le> counter f" "in_window (unat c div 64) (unat (counter f) div 64)"
  shows "replay_rep (f\<lparr>backtrack := (backtrack f)[unat c div 64 mod 256 :=
      backtrack f ! (unat c div 64 mod 256) OR push_bit (unat c mod 64) 1]\<rparr>) (insert c S)"
  unfolding replay_rep_def
proof (intro conjI allI impI)
  let ?w = "backtrack f ! (unat c div 64 mod 256) OR push_bit (unat c mod 64) 1"
  let ?f = "f\<lparr>backtrack := (backtrack f)[unat c div 64 mod 256 := ?w]\<rparr>"
  show "length (backtrack ?f) = 256" "\<forall>c \<in> insert c S. c \<le> counter ?f"
    using assms by (auto simp: replay_rep_def)
  fix d :: u64
  assume d: "in_window (unat d div 64) (unat (counter ?f) div 64)"
  with assms have old: "bit (backtrack f ! (unat d div 64 mod 256)) (unat d mod 64) = (d \<in> S)"
    by (simp add: replay_rep_def)
  have len: "length (backtrack f) = 256" using assms by (simp add: replay_rep_def)
  show "bit (backtrack ?f ! (unat d div 64 mod 256)) (unat d mod 64) = (d \<in> insert c S)"
  proof (cases "unat d div 64 mod 256 = unat c div 64 mod 256")
    case True
    then have same: "unat d div 64 = unat c div 64"
      using d assms(3) window_index_eq [of "unat d div 64" "unat (counter f) div 64" "unat c div 64"] by simp
    have "bit ?w (unat d mod 64) \<longleftrightarrow> d \<in> S \<or> unat c mod 64 = unat d mod 64"
      unfolding bit_set_bit using old True by simp
    moreover have "unat c mod 64 = unat d mod 64 \<longleftrightarrow> d = c"
      using counter_eqI [of d c] same by auto
    moreover have "backtrack ?f ! (unat d div 64 mod 256) = ?w"
      unfolding True using len by simp
    ultimately show ?thesis by auto
  next
    case False
    then have "backtrack ?f ! (unat d div 64 mod 256) = backtrack f ! (unat d div 64 mod 256)"
      by (simp add: nth_list_update)
    moreover have "d \<noteq> c" using False by auto
    ultimately show ?thesis using old by simp
  qed
qed

text \<open>Moving the window forward keeps the accepted set.\<close>

lemma cleared_index:
  fixes h w n :: nat
  assumes "in_window w n" "h \<le> n"
  shows "(\<exists>i. 1 \<le> i \<and> i \<le> min (n - h) 256 \<and> (h + i) mod 256 = w mod 256) \<longleftrightarrow> h < w"
proof
  assume "\<exists>i. 1 \<le> i \<and> i \<le> min (n - h) 256 \<and> (h + i) mod 256 = w mod 256"
  then obtain i where i: "1 \<le> i" "i \<le> n - h" "i \<le> 256" "(h + i) mod 256 = w mod 256" by auto
  show "h < w"
  proof (rule ccontr)
    assume "\<not> h < w"
    then have "in_window (h + i) n" using i assms by (auto simp: in_window_def)
    then have "h + i = w" using window_index_eq assms(1) i(4) by blast
    then show False using i(1) \<open>\<not> h < w\<close> by simp
  qed
next
  assume lt: "h < w"
  let ?i = "Suc ((w - h - 1) mod 256)"
  have "?i \<le> w - h" using lt by (metis Suc_diff_Suc Suc_le_mono diff_Suc_eq_diff_pred diff_diff_left mod_less_eq_dividend plus_1_eq_Suc add.commute)
  then have "?i \<le> n - h" using assms diff_le_mono [of w n h] by (simp add: in_window_def)
  moreover have "?i \<le> 256" by (simp add: Suc_leI)
  moreover have "(h + ?i) mod 256 = w mod 256"
  proof -
    have "(h + ?i) mod 256 = (Suc h + (w - h - 1)) mod 256" by (metis add_Suc_shift mod_add_right_eq)
    then show ?thesis using lt by simp
  qed
  ultimately show "\<exists>i. 1 \<le> i \<and> i \<le> min (n - h) 256 \<and> (h + i) mod 256 = w mod 256"
    by (intro exI [of _ ?i]) simp
qed

definition advance :: "ReplayFilter \<Rightarrow> u64 \<Rightarrow> ReplayFilter" where
  "advance f c = f\<lparr>backtrack := clear_words (drop_bit 6 (counter f))
     (minUint64 (drop_bit 6 c - drop_bit 6 (counter f)) 256) (backtrack f), counter := c\<rparr>"

lemma unat_advance_diff:
  assumes "counter f < c"
  shows "unat (minUint64 (drop_bit 6 c - drop_bit 6 (counter f)) 256) =
    min (unat c div 64 - unat (counter f) div 64) 256"
proof -
  have le: "drop_bit 6 (counter f) \<le> drop_bit 6 c"
    using assms by (simp add: word_le_nat_alt word_less_nat_alt unat_window div_le_mono)
  then have "unat (drop_bit 6 c - drop_bit 6 (counter f)) = unat c div 64 - unat (counter f) div 64"
    by (simp add: unat_sub unat_window)
  then show ?thesis by (auto simp: minUint64_def word_less_nat_alt)
qed

lemma replay_rep_advance:
  assumes rep: "replay_rep f S" and gt: "counter f < c"
  shows "replay_rep (advance f c) S"
proof -
  define h where "h = unat (counter f) div 64"
  define n where "n = unat c div 64"
  have hn: "h \<le> n" using gt by (simp add: h_def n_def word_less_nat_alt div_le_mono)
  have len: "length (backtrack f) = 256" using rep by (simp add: replay_rep_def)
  have bt: "backtrack (advance f c) = fold (\<lambda>i bt. bt[(h + i) mod 256 := 0]) [1..<Suc (min (n - h) 256)] (backtrack f)"
    using u64_div_bound [of "counter f"] clear_words_nat [of "drop_bit 6 (counter f)"]
    by (simp add: advance_def unat_advance_diff [OF gt] unat_window h_def n_def)
  have cell: "backtrack (advance f c) ! (w mod 256) = (if h < w then 0 else backtrack f ! (w mod 256))"
    if "in_window w n" for w
    unfolding bt using nth_fold_clear [OF len, of h "min (n - h) 256"] cleared_index [OF that hn] by simp
  have "bit (backtrack (advance f c) ! (unat d div 64 mod 256)) (unat d mod 64) = (d \<in> S)"
    if d: "in_window (unat d div 64) n" for d
  proof (cases "h < unat d div 64")
    case True
    then have "\<not> d \<le> counter f"
      by (metis h_def div_le_mono not_le word_le_nat_alt)
    then show ?thesis using rep cell [OF d] True by (auto simp: replay_rep_def)
  next
    case False
    then have "in_window (unat d div 64) h" using d hn by (auto simp: in_window_def)
    then show ?thesis using rep cell [OF d] False by (simp add: replay_rep_def h_def)
  qed
  moreover have "length (backtrack (advance f c)) = 256"
    unfolding bt using nth_fold_clear [OF len, of h "min (n - h) 256"] by simp
  moreover have "counter (advance f c) = c" by (simp add: advance_def)
  moreover have "\<forall>d \<in> S. d \<le> c" using rep gt by (auto simp: replay_rep_def)
  ultimately show ?thesis by (simp add: replay_rep_def n_def)
qed

text \<open>The check-and-set at the end of \<open>ValidateCounter\<close>, on natural numbers.\<close>

definition check_set :: "ReplayFilter \<Rightarrow> u64 \<Rightarrow> bool \<times> ReplayFilter" where
  "check_set f c = (\<not> bit (backtrack f ! (unat c div 64 mod 256)) (unat c mod 64),
     f\<lparr>backtrack := (backtrack f)[unat c div 64 mod 256 :=
       backtrack f ! (unat c div 64 mod 256) OR push_bit (unat c mod 64) 1]\<rparr>)"

lemma or_bit_unchanged: "k < 64 \<Longrightarrow> (w OR push_bit k 1 = w) = bit w k" for w :: u64
  using bit_eq_iff [of "w OR push_bit k 1" w] unfolding bit_set_bit by auto

lemma ValidateCounter_cases:
  "ValidateCounter f c limit =
     (if limit \<le> c then (False, f)
      else if counter f < c then check_set (advance f c) c
      else if CounterWindowSize < counter f - c then (False, f)
      else check_set f c)"
proof -
  have "unat c mod 64 < 64" by simp
  from or_bit_unchanged [OF this] show ?thesis
    unfolding ValidateCounter_def check_set_def advance_def Let_def
    by (simp add: replay_consts unat_window eq_commute)
qed

lemma check_set_rep:
  assumes "replay_rep f S" "c \<le> counter f" "in_window (unat c div 64) (unat (counter f) div 64)"
  shows "fst (check_set f c) = (c \<notin> S)" "replay_rep (snd (check_set f c)) (insert c S)"
    "counter (snd (check_set f c)) = counter f"
  using replay_rep_set [OF assms] assms by (auto simp: check_set_def replay_rep_def)

lemma in_window_self: "in_window w w"
  by (simp add: in_window_def)

lemma in_window_recent:
  fixes c hi :: u64
  assumes "c \<le> hi" "hi - c \<le> CounterWindowSize"
  shows "in_window (unat c div 64) (unat hi div 64)"
proof -
  have "unat hi - unat c \<le> 1984" "unat c \<le> unat hi"
    using assms by (simp_all add: replay_consts word_le_nat_alt unat_sub)
  then have "unat hi \<le> unat c + 31 * 64" by simp
  then have "unat hi div 64 \<le> (unat c + 31 * 64) div 64" by (rule div_le_mono)
  also have "\<dots> = unat c div 64 + 31" by (simp only: div_mult_self1)
  finally show ?thesis using \<open>unat c \<le> unat hi\<close> by (simp add: in_window_def div_le_mono)
qed

text \<open>The abstract specification: the highest counter accepted and the set of those accepted.\<close>

definition accepts :: "u64 \<Rightarrow> u64 set \<Rightarrow> u64 \<Rightarrow> u64 \<Rightarrow> bool" where
  "accepts hi S c limit \<longleftrightarrow> c < limit \<and> c \<notin> S \<and> (hi < c \<or> hi - c \<le> CounterWindowSize)"

lemma ValidateCounter_refines:
  assumes "replay_rep f S"
  shows "fst (ValidateCounter f c limit) = accepts (counter f) S c limit"
    "replay_rep (snd (ValidateCounter f c limit)) (if accepts (counter f) S c limit then insert c S else S)"
    "counter (snd (ValidateCounter f c limit)) = (if accepts (counter f) S c limit then max (counter f) c else counter f)"
proof -
  have new: "c \<notin> S" if "counter f < c" using that assms by (auto simp: replay_rep_def)
  have adv: "counter (advance f c) = c" by (simp add: advance_def)
  note fwd = check_set_rep [OF replay_rep_advance [OF assms], of c c, unfolded adv, OF _ order_refl in_window_self]
  note old = check_set_rep [OF assms, of c, OF _ in_window_recent]
  have same: "insert c S = S" if "c \<in> S" using that by auto
  show "fst (ValidateCounter f c limit) = accepts (counter f) S c limit"
    using new fwd(1) old(1) by (auto simp: ValidateCounter_cases accepts_def not_less not_le)
  show "replay_rep (snd (ValidateCounter f c limit)) (if accepts (counter f) S c limit then insert c S else S)"
    using new fwd(2) old(2) assms same
    by (auto simp: ValidateCounter_cases accepts_def not_less not_le)
  show "counter (snd (ValidateCounter f c limit)) = (if accepts (counter f) S c limit then max (counter f) c else counter f)"
    using new fwd(3) old(3) by (auto simp: ValidateCounter_cases accepts_def not_less not_le max_def)
qed

lemma replay_rep_init: "length (backtrack f) = 256 \<Longrightarrow> replay_rep (ReplayFilter_Init f) {}"
  by (auto simp: replay_rep_def ReplayFilter_Init_def in_window_def)

section \<open>The contract of a replay window\<close>

text \<open>
  The receiver offers the counters of the authenticated packets of a session one after the other,
  all with the same limit, and keeps the packets whose counter is accepted.
\<close>

fun offer_all :: "('f \<Rightarrow> u64 \<Rightarrow> u64 \<Rightarrow> bool \<times> 'f) \<Rightarrow> u64 \<Rightarrow> u64 list \<Rightarrow> 'f \<Rightarrow> u64 list \<times> 'f" where
  "offer_all validate limit [] f = ([], f)"
| "offer_all validate limit (c # cs) f =
     (case validate f c limit of (ok, f') \<Rightarrow>
      case offer_all validate limit cs f' of (acc, f'') \<Rightarrow> (if ok then c # acc else acc, f''))"

fun accepted :: "u64 \<Rightarrow> u64 set \<Rightarrow> u64 \<Rightarrow> u64 list \<Rightarrow> u64 list" where
  "accepted hi S limit [] = []"
| "accepted hi S limit (c # cs) =
     (if accepts hi S c limit then c # accepted (max hi c) (insert c S) limit cs else accepted hi S limit cs)"

locale replay_window =
  fixes rep :: "'f \<Rightarrow> u64 set \<Rightarrow> bool"
    and highest :: "'f \<Rightarrow> u64"
    and validate :: "'f \<Rightarrow> u64 \<Rightarrow> u64 \<Rightarrow> bool \<times> 'f"
  assumes validate_iff: "rep f S \<Longrightarrow> fst (validate f c limit) = accepts (highest f) S c limit"
    and validate_rep: "rep f S \<Longrightarrow>
      rep (snd (validate f c limit)) (if accepts (highest f) S c limit then insert c S else S)"
    and validate_highest: "rep f S \<Longrightarrow> highest (snd (validate f c limit)) =
      (if accepts (highest f) S c limit then max (highest f) c else highest f)"
begin

lemma offer_all_rep:
  "rep f S \<Longrightarrow> offer_all validate limit cs f = (acc, f') \<Longrightarrow>
     rep f' (S \<union> set acc) \<and> highest f' = foldl max (highest f) acc \<and> distinct acc \<and> set acc \<inter> S = {}
     \<and> (\<forall>c \<in> set acc. c < limit)"
proof (induction cs arbitrary: f S acc)
  case Nil
  then show ?case by simp
next
  case (Cons c cs)
  let ?ok = "accepts (highest f) S c limit"
  obtain f1 where f1: "validate f c limit = (?ok, f1)"
    using validate_iff [OF Cons.prems(1), of c limit] by (cases "validate f c limit") simp
  obtain acc1 where acc1: "offer_all validate limit cs f1 = (acc1, f')" "acc = (if ?ok then c # acc1 else acc1)"
    using Cons.prems(2) f1 by (auto split: prod.splits)
  have r: "rep f1 (if ?ok then insert c S else S)" "highest f1 = (if ?ok then max (highest f) c else highest f)"
    using validate_rep [OF Cons.prems(1), of c limit] validate_highest [OF Cons.prems(1), of c limit] f1 by simp_all
  have "?ok \<Longrightarrow> c \<notin> S \<and> c < limit" by (simp add: accepts_def)
  then show ?case using Cons.IH [OF r(1) acc1(1)] r(2) acc1(2) by (auto split: if_splits)
qed

lemma offer_all_spec:
  "rep f S \<Longrightarrow> fst (offer_all validate limit cs f) = accepted (highest f) S limit cs"
proof (induction cs arbitrary: f S)
  case Nil
  then show ?case by simp
next
  case (Cons c cs)
  then show ?case
    using Cons.IH [OF validate_rep [OF Cons.prems, of c limit]] validate_iff [OF Cons.prems, of c limit]
      validate_highest [OF Cons.prems, of c limit]
    by (auto split: prod.splits)
qed

lemma offer_all_increasing:
  "rep f S \<Longrightarrow> sorted_wrt (<) cs \<Longrightarrow> \<forall>c \<in> set cs. c < limit \<and> highest f < c \<Longrightarrow> \<forall>c \<in> S. c \<le> highest f \<Longrightarrow>
     fst (offer_all validate limit cs f) = cs"
proof (induction cs arbitrary: f S)
  case Nil
  then show ?case by simp
next
  case (Cons c cs)
  have ok: "accepts (highest f) S c limit" using Cons.prems by (auto simp: accepts_def)
  let ?f = "snd (validate f c limit)"
  have "fst (offer_all validate limit cs ?f) = cs"
    using Cons.prems validate_rep [OF Cons.prems(1), of c limit] validate_highest [OF Cons.prems(1), of c limit] ok
    by (intro Cons.IH [of _ "insert c S"]) (auto simp: max_def)
  then show ?case
    using validate_iff [OF Cons.prems(1), of c limit] ok by (auto split: prod.splits)
qed

end

interpretation filter: replay_window replay_rep counter ValidateCounter
  by unfold_locales (simp_all only: ValidateCounter_refines)

section \<open>Properties\<close>

text \<open>
  C9: after any sequence of counters offered to a filter that has been initialised with \<open>Init\<close> (whatever its ring
  held before: \<open>Init\<close> clears the first word only), \<open>ValidateCounter\<close> accepts a counter exactly when it
  is below the limit, has not been accepted before and lies above the highest accepted one or at most
  \<open>CounterWindowSize\<close> behind it.
\<close>

theorem replay_accepts_iff:
  assumes "length (backtrack f) = BacktrackWords"
    and "offer_all ValidateCounter limit cs (ReplayFilter_Init f) = (acc, f')"
  shows "fst (ValidateCounter f' c limit) \<longleftrightarrow>
    c < limit \<and> c \<notin> set acc \<and> (foldl max 0 acc < c \<or> foldl max 0 acc - c \<le> CounterWindowSize)"
proof -
  have "replay_rep (ReplayFilter_Init f) {}" using assms(1) replay_rep_init by (simp add: replay_consts)
  from filter.offer_all_rep [OF this assms(2)]
  have "replay_rep f' (set acc)" "counter f' = foldl max 0 acc"
    by (auto simp: ReplayFilter_Init_def)
  then show ?thesis by (simp add: filter.validate_iff accepts_def)
qed

text \<open>Witness of C9: a reused filter whose ring is full of ones, after the counters 5, 5 and 2000.\<close>

theorem replay_accepts_iff_witness:
  "\<exists>acc f'. offer_all ValidateCounter 10000 [5, 5, 2000] (ReplayFilter_Init \<lparr>counter = 9, backtrack = replicate 256 7\<rparr>) = (acc, f')
    \<and> acc = [5, 2000] \<and> fst (ValidateCounter f' 16 10000) \<and> \<not> fst (ValidateCounter f' 15 10000)
    \<and> \<not> fst (ValidateCounter f' 2000 10000) \<and> \<not> fst (ValidateCounter f' 10000 10000)"
proof -
  let ?f = "\<lparr>counter = 9, backtrack = replicate 256 7\<rparr>"
  obtain acc f' where run: "offer_all ValidateCounter 10000 [5, 5, 2000] (ReplayFilter_Init ?f) = (acc, f')"
    by fastforce
  have acc: "acc = [5, 2000]"
    using filter.offer_all_spec [OF replay_rep_init [of ?f], of 10000 "[5, 5, 2000]"] run
    by (simp add: ReplayFilter_Init_def accepts_def)
  have "length (backtrack ?f) = BacktrackWords" by (simp add: replay_consts)
  from replay_accepts_iff [OF this run] run acc show ?thesis by (simp add: replay_consts)
qed

text \<open>
  C19: over the life of an initialised filter no counter is accepted twice and none at or above the limit is accepted,
  whatever order, repetitions or gaps the counters arrive with.
\<close>

theorem replay_accepts_once:
  assumes "length (backtrack f) = BacktrackWords"
  shows "distinct (fst (offer_all ValidateCounter limit cs (ReplayFilter_Init f)))
    \<and> (\<forall>c. c \<in> set (fst (offer_all ValidateCounter limit cs (ReplayFilter_Init f))) \<longrightarrow> c < limit)"
proof -
  have "replay_rep (ReplayFilter_Init f) {}" using assms(1) replay_rep_init by (simp add: replay_consts)
  from filter.offer_all_rep [OF this, of limit cs] show ?thesis by (metis prod.collapse)
qed

text \<open>Witness of C19: a duplicated and reordered sequence.\<close>

theorem replay_accepts_once_witness:
  "distinct (fst (offer_all ValidateCounter 100 [3, 1, 3, 2, 1, 200] (ReplayFilter_Init new_ReplayFilter)))
   \<and> fst (offer_all ValidateCounter 100 [3, 1, 3, 2, 1, 200] (ReplayFilter_Init new_ReplayFilter)) = [3, 1, 2]"
proof -
  have len: "length (backtrack new_ReplayFilter) = BacktrackWords" by (simp add: new_ReplayFilter_def)
  then have "replay_rep (ReplayFilter_Init new_ReplayFilter) {}"
    using replay_rep_init [of new_ReplayFilter] by (simp add: replay_consts)
  from filter.offer_all_spec [OF this, of 100 "[3, 1, 3, 2, 1, 200]"]
  have "fst (offer_all ValidateCounter 100 [3, 1, 3, 2, 1, 200] (ReplayFilter_Init new_ReplayFilter)) = [3, 1, 2]"
    by (simp add: ReplayFilter_Init_def accepts_def replay_consts)
  with replay_accepts_once [OF len, of 100 "[3, 1, 3, 2, 1, 200]"] show ?thesis by blast
qed

text \<open>
  C20: packets that arrive in the order they were sent, below the limit, are all accepted, however large the gaps that
  lost packets leave between their counters.
\<close>

theorem replay_accepts_increasing:
  assumes "length (backtrack f) = BacktrackWords" "sorted_wrt (<) cs" "\<forall>c \<in> set cs. c < limit"
  shows "fst (offer_all ValidateCounter limit cs (ReplayFilter_Init f)) = cs"
proof -
  have rep: "replay_rep (ReplayFilter_Init f) {}" using assms(1) replay_rep_init by (simp add: replay_consts)
  have hi: "counter (ReplayFilter_Init f) = 0" by (simp add: ReplayFilter_Init_def)
  show ?thesis
  proof (cases "cs \<noteq> [] \<and> hd cs = 0")
    case True
    then obtain cs' where cs: "cs = 0 # cs'" by (cases cs) auto
    with assms have ok: "accepts 0 {} 0 limit" by (auto simp: accepts_def)
    let ?f = "snd (ValidateCounter (ReplayFilter_Init f) 0 limit)"
    have "replay_rep ?f {0}" "counter ?f = 0"
      using filter.validate_rep [OF rep, of 0 limit] filter.validate_highest [OF rep, of 0 limit] ok hi by simp_all
    then have "fst (offer_all ValidateCounter limit cs' ?f) = cs'"
      using assms cs by (intro filter.offer_all_increasing [of _ "{0}"]) auto
    then show ?thesis using cs filter.validate_iff [OF rep, of 0 limit] ok hi by (auto split: prod.splits)
  next
    case False
    have "\<forall>c \<in> set cs. 0 < c"
      using False assms(2) by (cases cs) (auto simp: word_gt_0)
    then show ?thesis using filter.offer_all_increasing [OF rep assms(2)] assms(3) hi by auto
  qed
qed

text \<open>Witness of C20: a sequence with a gap larger than the whole ring.\<close>

theorem replay_accepts_increasing_witness:
  "fst (offer_all ValidateCounter (2 ^ 60) [0, 1, 7, 100000, 100001] (ReplayFilter_Init new_ReplayFilter)) = [0, 1, 7, 100000, 100001]"
  by (rule replay_accepts_increasing) (simp_all add: new_ReplayFilter_def)

end
