(* ===== verification/GoLib.thy ===== *)
theory GoLib
  imports Prelude
begin

text \<open>
  What the program uses of the Go language and its standard library, beyond the bytes and words of
  \<open>Prelude\<close>: 64-bit signed arithmetic, \<^verbatim>\<open>time\<close>, the address forms of \<^verbatim>\<open>net.IP\<close>, channels and
  \<^verbatim>\<open>bytes.Compare\<close>. A time is a number of nanoseconds.
\<close>

section \<open>Signed 64-bit integers and time\<close>

definition wrap64 :: "int \<Rightarrow> int" where
  "wrap64 x = (x + 2 ^ 63) mod 2 ^ 64 - 2 ^ 63"

lemma wrap64_id [simp]: "- (2 ^ 63) \<le> x \<Longrightarrow> x < 2 ^ 63 \<Longrightarrow> wrap64 x = x"
  by (simp add: wrap64_def)

type_synonym time = int
type_synonym duration = int

definition Second :: duration where
  "Second = 1000000000"

definition Millisecond :: duration where
  "Millisecond = 1000000"

text \<open>\<^verbatim>\<open>Time.Sub\<close> saturates at the extreme durations.\<close>

definition time_sub :: "time \<Rightarrow> time \<Rightarrow> duration" where
  "time_sub t u = max (- (2 ^ 63)) (min (2 ^ 63 - 1) (t - u))"

lemma time_sub_exact [simp]: "- (2 ^ 63) \<le> t - u \<Longrightarrow> t - u < 2 ^ 63 \<Longrightarrow> time_sub t u = t - u"
  by (simp add: time_sub_def)

text \<open>The zero \<^verbatim>\<open>time.Time\<close>, the first of January of the year 1, relative to the Unix epoch.\<close>

definition zero_time :: time where
  "zero_time = - 62135596800 * Second"

text \<open>The bytes of a string literal.\<close>

definition string_bytes :: "string \<Rightarrow> bytes" where
  "string_bytes s = map (\<lambda>c. of_nat (of_char c)) s"

section \<open>Addresses\<close>

definition v4InV6Prefix :: bytes where
  "v4InV6Prefix = replicate 10 0 @ [255, 255]"

definition To4 :: "bytes \<Rightarrow> bytes option" where
  "To4 ip = (if length ip = 4 then Some ip
    else if length ip = 16 \<and> take 12 ip = v4InV6Prefix then Some (drop 12 ip) else None)"

definition To16 :: "bytes \<Rightarrow> bytes option" where
  "To16 ip = (if length ip = 4 then Some (v4InV6Prefix @ ip) else if length ip = 16 then Some ip else None)"

text \<open>\<^verbatim>\<open>copy(dst, src)\<close> on a destination of the given content.\<close>

definition copy_into :: "bytes \<Rightarrow> bytes \<Rightarrow> bytes" where
  "copy_into dst src = take (length dst) src @ drop (length src) dst"

lemma length_copy_into [simp]: "length (copy_into dst src) = length dst"
  by (simp add: copy_into_def)

lemma copy_into_exact [simp]: "length src = length dst \<Longrightarrow> copy_into dst src = src"
  by (simp add: copy_into_def)

section \<open>Channels that are only closed or signalled\<close>

datatype channel = NilChan | OpenChan | ClosedChan

text \<open>\<^verbatim>\<open>close(c)\<close> panics on a nil and on a closed channel.\<close>

fun close_chan :: "channel \<Rightarrow> channel option" where
  "close_chan OpenChan = Some ClosedChan"
| "close_chan NilChan = None"
| "close_chan ClosedChan = None"

end
