(* ===== verification/Ratelimiter.thy ===== *)
theory Ratelimiter
  imports GoLib "HOL-Library.AList"
begin

text \<open>
  The handshake rate limiter of \<^verbatim>\<open>ratelimiter/ratelimiter.go\<close>: a token bucket per source address, and the
  garbage collector that drops idle buckets. The specification is the budget of each source as
  a function of time; the collector and the other sources do not show in it.
\<close>

section \<open>Model\<close>

definition packetsPerSecond :: int where
  "packetsPerSecond = 20"

definition packetsBurstable :: int where
  "packetsBurstable = 5"

definition garbageCollectTime :: duration where
  "garbageCollectTime = Second"

definition packetCost :: int where
  "packetCost = 1000000000 div packetsPerSecond"

definition maxTokens :: int where
  "maxTokens = packetCost * packetsBurstable"

record RatelimiterEntry =
  lastTime :: time
  tokens :: int

text \<open>
  The tables are association lists in the iteration order of the Go maps. \<open>ticking\<close> is the ticker of the
  garbage-collection goroutine, a local variable of \<open>Init\<close>'s function literal.
\<close>

record Ratelimiter =
  stopReset :: channel
  ticking :: bool
  tableIPv4 :: "(bytes \<times> RatelimiterEntry) list"
  tableIPv6 :: "(bytes \<times> RatelimiterEntry) list"

definition new_Ratelimiter :: Ratelimiter where
  "new_Ratelimiter = \<lparr>stopReset = NilChan, ticking = False, tableIPv4 = [], tableIPv6 = []\<rparr>"

definition Ratelimiter_Close :: "Ratelimiter \<Rightarrow> Ratelimiter option" where
  "Ratelimiter_Close rate =
     (if stopReset rate \<noteq> NilChan
      then do { c \<leftarrow> close_chan (stopReset rate); Some (rate\<lparr>stopReset := c, ticking := False\<rparr>) }
      else Some rate)"

definition Ratelimiter_Init :: "Ratelimiter \<Rightarrow> Ratelimiter option" where
  "Ratelimiter_Init rate =
     do {
       (if stopReset rate \<noteq> NilChan then close_chan (stopReset rate) else Some NilChan);
       Some \<lparr>stopReset = OpenChan, ticking = False, tableIPv4 = [], tableIPv6 = []\<rparr>
     }"

text \<open>
  One tick of the garbage collector, with the clock reading \<open>clock key\<close> for the entry of each key. A stopped
  ticker does not fire.
\<close>

definition collect_table :: "(bytes \<Rightarrow> time) \<Rightarrow> (bytes \<times> RatelimiterEntry) list \<Rightarrow> (bytes \<times> RatelimiterEntry) list" where
  "collect_table clock tbl =
     filter (\<lambda>(key, entry). \<not> time_sub (clock key) (lastTime entry) > garbageCollectTime) tbl"

definition collect :: "(bytes \<Rightarrow> time) \<Rightarrow> Ratelimiter \<Rightarrow> Ratelimiter" where
  "collect clock rate =
     (if \<not> ticking rate then rate
      else
        let t4 = collect_table clock (tableIPv4 rate);
            t6 = collect_table clock (tableIPv6 rate)
        in rate\<lparr>tableIPv4 := t4, tableIPv6 := t6,
             ticking := \<not> (length t4 = 0 \<and> length t6 = 0)\<rparr>)"

text \<open>
  The send on \<open>stopReset\<close> restarts the ticker of the collector; on a closed channel it panics.
\<close>

definition signal_reset :: "Ratelimiter \<Rightarrow> Ratelimiter option" where
  "signal_reset rate = (if stopReset rate = OpenChan then Some (rate\<lparr>ticking := True\<rparr>) else None)"

definition new_entry :: "time \<Rightarrow> RatelimiterEntry" where
  "new_entry now = \<lparr>lastTime = now, tokens = maxTokens - packetCost\<rparr>"

definition refill :: "time \<Rightarrow> RatelimiterEntry \<Rightarrow> RatelimiterEntry" where
  "refill now entry =
     (let t = wrap64 (tokens entry + time_sub now (lastTime entry))
      in entry\<lparr>tokens := (if t > maxTokens then maxTokens else t), lastTime := now\<rparr>)"

definition take_packet :: "time \<Rightarrow> RatelimiterEntry \<Rightarrow> bool \<times> RatelimiterEntry" where
  "take_packet now entry =
     (let entry = refill now entry
      in if tokens entry > packetCost then (True, entry\<lparr>tokens := tokens entry - packetCost\<rparr>) else (False, entry))"

definition Allow :: "time \<Rightarrow> bytes \<Rightarrow> Ratelimiter \<Rightarrow> (bool \<times> Ratelimiter) option" where
  "Allow now ip rate =
     (case To4 ip of
        Some IPv4 \<Rightarrow>
          let keyIPv4 = copy_into (replicate 4 0) IPv4 in
          (case map_of (tableIPv4 rate) keyIPv4 of
             None \<Rightarrow>
               let rate = rate\<lparr>tableIPv4 := AList.update keyIPv4 (new_entry now) (tableIPv4 rate)\<rparr> in
               do {
                 rate \<leftarrow> (if length (tableIPv4 rate) = 1 \<and> length (tableIPv6 rate) = 0
                          then signal_reset rate else Some rate);
                 Some (True, rate)
               }
           | Some entry \<Rightarrow>
               let (ok, entry) = take_packet now entry
               in Some (ok, rate\<lparr>tableIPv4 := AList.update keyIPv4 entry (tableIPv4 rate)\<rparr>))
      | None \<Rightarrow>
          let keyIPv6 = copy_into (replicate 16 0) (case To16 ip of Some b \<Rightarrow> b | None \<Rightarrow> []) in
          (case map_of (tableIPv6 rate) keyIPv6 of
             None \<Rightarrow>
               let rate = rate\<lparr>tableIPv6 := AList.update keyIPv6 (new_entry now) (tableIPv6 rate)\<rparr> in
               do {
                 rate \<leftarrow> (if length (tableIPv6 rate) = 1 \<and> length (tableIPv4 rate) = 0
                          then signal_reset rate else Some rate);
                 Some (True, rate)
               }
           | Some entry \<Rightarrow>
               let (ok, entry) = take_packet now entry
               in Some (ok, rate\<lparr>tableIPv6 := AList.update keyIPv6 entry (tableIPv6 rate)\<rparr>)))"

section \<open>Budgets\<close>

lemmas limiter_consts = packetsPerSecond_def packetsBurstable_def garbageCollectTime_def Second_def packetCost_def maxTokens_def

text \<open>The table and the key of a source address.\<close>

definition limiter_key :: "bytes \<Rightarrow> bool \<times> bytes" where
  "limiter_key ip = (case To4 ip of
     Some a \<Rightarrow> (True, copy_into (replicate 4 0) a)
   | None \<Rightarrow> (False, copy_into (replicate 16 0) (case To16 ip of Some b \<Rightarrow> b | None \<Rightarrow> [])))"

definition limiter_table :: "Ratelimiter \<Rightarrow> bool \<Rightarrow> (bytes \<times> RatelimiterEntry) list" where
  "limiter_table rate v4 = (if v4 then tableIPv4 rate else tableIPv6 rate)"

definition limiter_entry :: "Ratelimiter \<Rightarrow> bool \<times> bytes \<Rightarrow> RatelimiterEntry option" where
  "limiter_entry rate k = map_of (limiter_table rate (fst k)) (snd k)"

definition entry_budget :: "RatelimiterEntry option \<Rightarrow> time \<Rightarrow> int" where
  "entry_budget e t = (case e of None \<Rightarrow> maxTokens | Some e \<Rightarrow> min maxTokens (tokens e + (t - lastTime e)))"

definition budget :: "Ratelimiter \<Rightarrow> bool \<times> bytes \<Rightarrow> time \<Rightarrow> int" where
  "budget rate k t = entry_budget (limiter_entry rate k) t"

text \<open>Clock readings stay below \<open>horizon\<close>, 2^62 nanoseconds or 146 years, so that no token count overflows.\<close>

definition horizon :: time where
  "horizon = 2 ^ 62"

definition wf_entry :: "time \<Rightarrow> RatelimiterEntry \<Rightarrow> bool" where
  "wf_entry t e \<longleftrightarrow> 0 < tokens e \<and> tokens e \<le> maxTokens \<and> 0 \<le> lastTime e \<and> lastTime e \<le> t"

definition wf_limiter :: "time \<Rightarrow> Ratelimiter \<Rightarrow> bool" where
  "wf_limiter t rate \<longleftrightarrow> 0 \<le> t \<and> t < horizon \<and> stopReset rate = OpenChan \<and>
     distinct (map fst (tableIPv4 rate)) \<and> distinct (map fst (tableIPv6 rate)) \<and>
     (\<forall>k e. limiter_entry rate k = Some e \<longrightarrow> wf_entry t e)"

lemma wf_limiterD: "wf_limiter t rate \<Longrightarrow> limiter_entry rate k = Some e \<Longrightarrow> wf_entry t e"
  by (cases k) (simp add: wf_limiter_def)

lemma map_of_filter_distinct:
  "distinct (map fst xs) \<Longrightarrow>
     map_of (filter P xs) k = (case map_of xs k of Some v \<Rightarrow> if P (k, v) then Some v else None | None \<Rightarrow> None)"
  by (induction xs) (auto split: option.splits simp: map_of_eq_None_iff image_iff)

lemma refill_wf:
  assumes "wf_entry t e" "t \<le> now" "now < horizon"
  shows "tokens (refill now e) = entry_budget (Some e) now" "lastTime (refill now e) = now"
proof -
  have "time_sub now (lastTime e) = now - lastTime e"
    using assms by (intro time_sub_exact) (auto simp: wf_entry_def horizon_def)
  moreover have "wrap64 (tokens e + (now - lastTime e)) = tokens e + (now - lastTime e)"
    using assms by (intro wrap64_id) (auto simp: wf_entry_def horizon_def limiter_consts)
  ultimately show "tokens (refill now e) = entry_budget (Some e) now" "lastTime (refill now e) = now"
    by (simp_all add: refill_def Let_def entry_budget_def min_def)
qed

lemma entry_budget_bounds: "wf_entry t e \<Longrightarrow> t \<le> u \<Longrightarrow> 0 < entry_budget (Some e) u \<and> entry_budget (Some e) u \<le> maxTokens"
  by (auto simp: wf_entry_def entry_budget_def limiter_consts)

text \<open>One call on the entry of a source, existing or not.\<close>

definition allow_entry :: "time \<Rightarrow> RatelimiterEntry option \<Rightarrow> bool \<times> RatelimiterEntry" where
  "allow_entry now e = (case e of None \<Rightarrow> (True, new_entry now) | Some e \<Rightarrow> take_packet now e)"

lemma allow_entry_budget:
  assumes "\<And>e'. e = Some e' \<Longrightarrow> wf_entry t e'" "t \<le> now" "0 \<le> t" "now < horizon" "allow_entry now e = (ok, e1)"
  shows "ok = (entry_budget e now > packetCost)" "wf_entry now e1"
    "now \<le> u \<Longrightarrow> entry_budget (Some e1) u =
      min maxTokens (entry_budget e now - (if ok then packetCost else 0) + (u - now))"
proof -
  have "ok = (entry_budget e now > packetCost) \<and> tokens e1 = entry_budget e now - (if ok then packetCost else 0)
      \<and> lastTime e1 = now"
  proof (cases e)
    case None
    then show ?thesis
      using assms(5) by (auto simp: allow_entry_def new_entry_def entry_budget_def limiter_consts)
  next
    case (Some e')
    then show ?thesis
      using assms(5) refill_wf [OF assms(1) [OF Some] assms(2,4)]
      by (auto simp: allow_entry_def take_packet_def Let_def split: if_splits)
  qed
  moreover have "0 < entry_budget e now \<and> entry_budget e now \<le> maxTokens"
  proof (cases e)
    case None
    then show ?thesis by (simp add: entry_budget_def limiter_consts)
  next
    case (Some e')
    then show ?thesis using entry_budget_bounds [OF assms(1) [OF Some] assms(2)] by simp
  qed
  ultimately show "ok = (entry_budget e now > packetCost)" "wf_entry now e1"
    "now \<le> u \<Longrightarrow> entry_budget (Some e1) u =
      min maxTokens (entry_budget e now - (if ok then packetCost else 0) + (u - now))"
    using assms(2,3) by (auto simp: wf_entry_def entry_budget_def limiter_consts)
qed

text \<open>\<open>Allow\<close> changes the entry of its source only, and does not panic once the limiter is initialised.\<close>

definition set_entry :: "bool \<times> bytes \<Rightarrow> RatelimiterEntry \<Rightarrow> Ratelimiter \<Rightarrow> Ratelimiter" where
  "set_entry k e rate =
     (if fst k then rate\<lparr>tableIPv4 := AList.update (snd k) e (tableIPv4 rate)\<rparr>
      else rate\<lparr>tableIPv6 := AList.update (snd k) e (tableIPv6 rate)\<rparr>)"

lemma Allow_set_entry:
  assumes "stopReset rate = OpenChan" "allow_entry now (limiter_entry rate (limiter_key ip)) = (ok, e)"
  shows "\<exists>b. Allow now ip rate = Some (ok, (set_entry (limiter_key ip) e rate)\<lparr>ticking := b\<rparr>)"
  using assms
  by (cases rate; cases "To4 ip")
    (force simp: Allow_def Let_def limiter_key_def limiter_entry_def limiter_table_def allow_entry_def set_entry_def
      signal_reset_def split: option.splits prod.splits)+

lemma limiter_entry_set:
  "limiter_entry ((set_entry k e rate)\<lparr>ticking := b\<rparr>) k' = (if k' = k then Some e else limiter_entry rate k')"
  by (cases k; cases k') (auto simp: limiter_entry_def limiter_table_def set_entry_def update_conv')

lemma Allow_budget:
  assumes wf: "wf_limiter t rate" and now: "t \<le> now" "now < horizon"
  shows "\<exists>ok rate'. Allow now ip rate = Some (ok, rate') \<and> wf_limiter now rate' \<and>
    ok = (budget rate (limiter_key ip) now > packetCost) \<and>
    (\<forall>k u. now \<le> u \<longrightarrow> budget rate' k u =
      (if k = limiter_key ip
       then min maxTokens (budget rate k now - (if ok then packetCost else 0) + (u - now))
       else budget rate k u))"
proof -
  let ?k = "limiter_key ip"
  obtain ok e where e: "allow_entry now (limiter_entry rate ?k) = (ok, e)" by fastforce
  note old = wf_limiterD [OF wf]
  have t: "0 \<le> t" "stopReset rate = OpenChan" using wf by (simp_all add: wf_limiter_def)
  note E = allow_entry_budget [OF old now(1) t(1) now(2) e]
  obtain b where b: "Allow now ip rate = Some (ok, (set_entry ?k e rate)\<lparr>ticking := b\<rparr>)"
    using Allow_set_entry [OF t(2) e] by blast
  let ?r = "(set_entry ?k e rate)\<lparr>ticking := b\<rparr>"
  have "wf_entry t e' \<Longrightarrow> wf_entry now e'" for e' using now(1) by (auto simp: wf_entry_def)
  then have "wf_limiter now ?r"
    using wf now E(2) by (auto simp: wf_limiter_def limiter_entry_set split: if_splits)
      (auto simp: set_entry_def distinct_update)
  then show ?thesis using b E(1) E(3) by (auto simp: budget_def limiter_entry_set)
qed

text \<open>The collector keeps every budget.\<close>

lemma collect_budget:
  assumes wf: "wf_limiter t rate" and clock: "\<forall>k. t \<le> clock k \<and> clock k \<le> t'" and t': "t' < horizon"
  shows "wf_limiter t' (collect clock rate)" "t' \<le> u \<Longrightarrow> budget (collect clock rate) k u = budget rate k u"
proof -
  have tt: "0 \<le> t" "t \<le> t'" using wf clock by (auto simp: wf_limiter_def intro: order_trans)
  have entry: "limiter_entry (collect clock rate) k =
      (case limiter_entry rate k of
         Some e \<Rightarrow> if ticking rate \<and> time_sub (clock (snd k)) (lastTime e) > garbageCollectTime then None else Some e
       | None \<Rightarrow> None)" for k
    using wf by (auto simp: limiter_entry_def limiter_table_def collect_def Let_def collect_table_def
        map_of_filter_distinct wf_limiter_def split: option.splits)
  have "wf_entry t e \<Longrightarrow> wf_entry t' e" for e using tt by (auto simp: wf_entry_def)
  moreover have "stopReset (collect clock rate) = OpenChan" "distinct (map fst (tableIPv4 (collect clock rate)))"
    "distinct (map fst (tableIPv6 (collect clock rate)))"
    using wf by (auto simp: wf_limiter_def collect_def Let_def collect_table_def distinct_map_filter)
  ultimately show "wf_limiter t' (collect clock rate)"
    using wf tt t' by (auto simp: wf_limiter_def entry split: option.splits if_splits)
  assume u: "t' \<le> u"
  have "maxTokens \<le> tokens e + (u - lastTime e)"
    if "wf_entry t e" "time_sub (clock c) (lastTime e) > garbageCollectTime" for c e
  proof -
    have "time_sub (clock c) (lastTime e) = clock c - lastTime e"
      using that(1) clock t' tt by (intro time_sub_exact) (auto simp: wf_entry_def horizon_def
          dest: spec [of _ c] order_trans)
    moreover have "clock c \<le> u" using clock u order_trans by blast
    ultimately show ?thesis using that by (auto simp: wf_entry_def limiter_consts)
  qed
  then have "maxTokens = min maxTokens (tokens e + (u - lastTime e))"
    if "limiter_entry rate k = Some e" "time_sub (clock (snd k)) (lastTime e) > garbageCollectTime" for e
    using wf_limiterD [OF wf that(1)] that(2) by (simp add: min_absorb1)
  then show "budget (collect clock rate) k u = budget rate k u"
    by (cases "limiter_entry rate k") (simp_all add: budget_def entry entry_budget_def)
qed

section \<open>The contract of a rate limiter\<close>

text \<open>
  A history is a sequence of calls of \<open>Allow\<close>, each with its clock reading, and of collector ticks, each with its clock
  readings and the time it ends.
\<close>

datatype limiter_event = AllowEv time bytes | CollectEv "bytes \<Rightarrow> time" time

fun timed :: "time \<Rightarrow> limiter_event list \<Rightarrow> time \<Rightarrow> bool" where
  "timed t [] t' \<longleftrightarrow> t \<le> t' \<and> t' < horizon"
| "timed t (AllowEv now ip # es) t' \<longleftrightarrow> t \<le> now \<and> timed now es t'"
| "timed t (CollectEv clock u # es) t' \<longleftrightarrow> (\<forall>k. t \<le> clock k \<and> clock k \<le> u) \<and> timed u es t'"

lemma timed_le: "timed t es t' \<Longrightarrow> t \<le> t' \<and> t' < horizon"
  by (induction t es t' rule: timed.induct) (auto intro: order_trans dest: spec)

fun run_limiter :: "(time \<Rightarrow> bytes \<Rightarrow> 'r \<Rightarrow> (bool \<times> 'r) option) \<Rightarrow> ((bytes \<Rightarrow> time) \<Rightarrow> 'r \<Rightarrow> 'r) \<Rightarrow>
    limiter_event list \<Rightarrow> 'r \<Rightarrow> ((bytes \<times> bool) list \<times> 'r) option" where
  "run_limiter allow gc [] r = Some ([], r)"
| "run_limiter allow gc (AllowEv now ip # es) r =
     do { (ok, r) \<leftarrow> allow now ip r; (res, r) \<leftarrow> run_limiter allow gc es r; Some ((ip, ok) # res, r) }"
| "run_limiter allow gc (CollectEv clock u # es) r = run_limiter allow gc es (gc clock r)"

definition granted :: "(bytes \<Rightarrow> 'k) \<Rightarrow> 'k \<Rightarrow> (bytes \<times> bool) list \<Rightarrow> int" where
  "granted key k res = int (length (filter (\<lambda>(ip, ok). key ip = k \<and> ok) res))"

definition of_source :: "(bytes \<Rightarrow> 'k) \<Rightarrow> 'k \<Rightarrow> limiter_event \<Rightarrow> bool" where
  "of_source key k ev = (case ev of AllowEv _ ip \<Rightarrow> key ip = k | CollectEv _ _ \<Rightarrow> False)"

locale rate_limiter =
  fixes wf :: "time \<Rightarrow> 'r \<Rightarrow> bool"
    and budget :: "'r \<Rightarrow> 'k \<Rightarrow> time \<Rightarrow> int"
    and key :: "bytes \<Rightarrow> 'k"
    and allow :: "time \<Rightarrow> bytes \<Rightarrow> 'r \<Rightarrow> (bool \<times> 'r) option"
    and gc :: "(bytes \<Rightarrow> time) \<Rightarrow> 'r \<Rightarrow> 'r"
  assumes allow_law: "wf t r \<Longrightarrow> t \<le> now \<Longrightarrow> now < horizon \<Longrightarrow>
      \<exists>ok r'. allow now ip r = Some (ok, r') \<and> wf now r' \<and> ok = (budget r (key ip) now > packetCost) \<and>
        (\<forall>k u. now \<le> u \<longrightarrow> budget r' k u =
          (if k = key ip then min maxTokens (budget r k now - (if ok then packetCost else 0) + (u - now))
           else budget r k u))"
    and gc_wf: "wf t r \<Longrightarrow> \<forall>k. t \<le> clock k \<and> clock k \<le> t' \<Longrightarrow> t' < horizon \<Longrightarrow> wf t' (gc clock r)"
    and gc_budget: "wf t r \<Longrightarrow> \<forall>k. t \<le> clock k \<and> clock k \<le> t' \<Longrightarrow> t' < horizon \<Longrightarrow> t' \<le> u \<Longrightarrow>
      budget (gc clock r) k u = budget r k u"
    and wf_later: "wf t r \<Longrightarrow> t \<le> t' \<Longrightarrow> t' < horizon \<Longrightarrow> wf t' r"
    and budget_bounds: "wf t r \<Longrightarrow> t \<le> u \<Longrightarrow> 0 < budget r k u \<and> budget r k u \<le> maxTokens"
    and budget_refill: "wf t r \<Longrightarrow> t \<le> u \<Longrightarrow> u \<le> v \<Longrightarrow> budget r k v \<le> budget r k u + (v - u)"
begin

text \<open>No call panics, and what a source is granted is paid from its budget.\<close>

lemma run_granted:
  "wf t r \<Longrightarrow> timed t es t' \<Longrightarrow> \<exists>res r'. run_limiter allow gc es r = Some (res, r') \<and> wf t' r' \<and>
     granted key k res * packetCost + budget r' k t' \<le> budget r k t + (t' - t)"
proof (induction es arbitrary: t r)
  case Nil
  then show ?case using wf_later budget_refill [of t r t t' k] by (auto simp: granted_def)
next
  case (Cons ev es)
  show ?case
  proof (cases ev)
    case (AllowEv now ip)
    then have now: "t \<le> now" "timed now es t'" "now < horizon" using Cons.prems timed_le [of now es t'] by auto
    obtain ok r1 where r1: "allow now ip r = Some (ok, r1)" "wf now r1" "ok = (budget r (key ip) now > packetCost)"
      "budget r1 k now = (if k = key ip then min maxTokens (budget r k now - (if ok then packetCost else 0)) else budget r k now)"
      using allow_law [OF Cons.prems(1) now(1,3), of ip] by force
    have "budget r k now \<le> budget r k t + (now - t)" using budget_refill [OF Cons.prems(1) order_refl now(1)] .
    moreover have "granted key k ((ip, ok) # res) = (if k = key ip \<and> ok then 1 else 0) + granted key k res" for res
      by (auto simp: granted_def)
    ultimately show ?thesis using Cons.IH [OF r1(2) now(2)] AllowEv r1
      by (auto simp: algebra_simps split: if_splits)
  next
    case (CollectEv clock u)
    then have c: "\<forall>k. t \<le> clock k \<and> clock k \<le> u" "timed u es t'" "u < horizon"
      using Cons.prems timed_le [of u es t'] by auto
    then have "t \<le> u" by (meson order_trans)
    then have "budget (gc clock r) k u \<le> budget r k t + (u - t)"
      using gc_budget [OF Cons.prems(1) c(1,3) order_refl, of k] budget_refill [OF Cons.prems(1) order_refl, of u k] by simp
    then show ?thesis using Cons.IH [OF gc_wf [OF Cons.prems(1) c(1,3)] c(2)] CollectEv by fastforce
  qed
qed

text \<open>The answers a source gets are those of a run with its own calls only.\<close>

lemma run_isolated:
  assumes "wf t r" "wf t r'" "\<forall>u \<ge> t. budget r k u = budget r' k u" "timed t es t'"
    "run_limiter allow gc es r = Some (res, s)"
  shows "\<exists>s'. run_limiter allow gc (filter (of_source key k) es) r' = Some (filter (\<lambda>(ip, ok). key ip = k) res, s')"
  using assms
proof (induction es arbitrary: t r r' res)
  case Nil
  then show ?case by auto
next
  case (Cons ev es)
  show ?case
  proof (cases ev)
    case (AllowEv now ip)
    then have now: "t \<le> now" "timed now es t'" "now < horizon" using Cons.prems timed_le [of now es t'] by auto
    obtain ok r1 where r1: "allow now ip r = Some (ok, r1)" "wf now r1" "ok = (budget r (key ip) now > packetCost)"
      "\<forall>k u. now \<le> u \<longrightarrow> budget r1 k u = (if k = key ip
        then min maxTokens (budget r k now - (if ok then packetCost else 0) + (u - now)) else budget r k u)"
      using allow_law [OF Cons.prems(1) now(1,3), of ip] by blast
    obtain res1 where res1: "run_limiter allow gc es r1 = Some (res1, s)" "res = (ip, ok) # res1"
      using Cons.prems(5) AllowEv r1(1) by (auto split: bind_splits)
    show ?thesis
    proof (cases "key ip = k")
      case True
      have same: "budget r' k now = budget r k now" using Cons.prems(3) now(1) by simp
      obtain ok2 r2 where r2: "allow now ip r' = Some (ok2, r2)" "wf now r2" "ok2 = (budget r' (key ip) now > packetCost)"
        "\<forall>k u. now \<le> u \<longrightarrow> budget r2 k u = (if k = key ip
          then min maxTokens (budget r' k now - (if ok2 then packetCost else 0) + (u - now)) else budget r' k u)"
        using allow_law [OF Cons.prems(2) now(1,3), of ip] by blast
      have ok2: "ok2 = ok" using r2(3) r1(3) same True by simp
      have "\<forall>u \<ge> now. budget r1 k u = budget r2 k u" using r1(4) r2(4) same ok2 True by simp
      from Cons.IH [OF r1(2) r2(2) this now(2) res1(1)] show ?thesis
        using AllowEv True r2(1) ok2 res1(2) by (auto simp: of_source_def)
    next
      case False
      then have "\<forall>u \<ge> now. budget r1 k u = budget r' k u" using r1(4) Cons.prems(3) now(1) by auto
      from Cons.IH [OF r1(2) wf_later [OF Cons.prems(2) now(1,3)] this now(2) res1(1)] show ?thesis
        using AllowEv False res1(2) by (auto simp: of_source_def)
    qed
  next
    case (CollectEv clock u)
    then have c: "\<forall>k. t \<le> clock k \<and> clock k \<le> u" "timed u es t'" "u < horizon"
      using Cons.prems timed_le [of u es t'] by auto
    then have tu: "t \<le> u" by (meson order_trans)
    have "\<forall>v \<ge> u. budget (gc clock r) k v = budget r' k v"
      using gc_budget [OF Cons.prems(1) c(1,3)] Cons.prems(3) tu by auto
    from Cons.IH [OF gc_wf [OF Cons.prems(1) c(1,3)] wf_later [OF Cons.prems(2) tu c(3)] this c(2)] show ?thesis
      using Cons.prems(5) CollectEv by (auto simp: of_source_def)
  qed
qed

end

lemma budget_laws:
  assumes "wf_limiter t rate" "t \<le> u"
  shows "0 < budget rate k u \<and> budget rate k u \<le> maxTokens"
    "u \<le> v \<Longrightarrow> budget rate k v \<le> budget rate k u + (v - u)"
    "u < horizon \<Longrightarrow> wf_limiter u rate"
proof -
  show "0 < budget rate k u \<and> budget rate k u \<le> maxTokens"
    using entry_budget_bounds [OF wf_limiterD [OF assms(1)] assms(2)]
    by (cases "limiter_entry rate k") (auto simp: budget_def entry_budget_def limiter_consts)
  show "u \<le> v \<Longrightarrow> budget rate k v \<le> budget rate k u + (v - u)"
    by (auto simp: budget_def entry_budget_def split: option.splits)
  show "u < horizon \<Longrightarrow> wf_limiter u rate"
    using assms by (force simp: wf_limiter_def wf_entry_def)
qed

interpretation limiter: rate_limiter wf_limiter budget limiter_key Allow collect
  by unfold_locales
    (erule (2) Allow_budget | erule (2) collect_budget(1) | erule (3) collect_budget(2) | erule (2) budget_laws(3)
      | erule (1) budget_laws(1) | erule (2) budget_laws(2))+

section \<open>Properties\<close>

lemma Init_wf: "Ratelimiter_Init rate = Some r \<Longrightarrow> 0 \<le> t \<Longrightarrow> t < horizon \<Longrightarrow> wf_limiter t r"
  by (auto simp: Ratelimiter_Init_def wf_limiter_def limiter_entry_def limiter_table_def split: bind_splits if_splits)

text \<open>
  C10: on an initialised limiter no call of \<open>Allow\<close> panics, and in any part of any history, whatever the collector removes
  in between, one source is granted fewer than \<open>packetsBurstable\<close> plus \<open>packetsPerSecond\<close> packets for each second:
  the cost of what it is granted between two points in time is less than \<open>maxTokens\<close> plus the time between them.
\<close>

theorem limiter_rate_bound:
  assumes "Ratelimiter_Init rate = Some r0" "0 \<le> t0" "timed t0 before t" "timed t es t'"
  shows "\<exists>res1 r res2 r'. run_limiter Allow collect before r0 = Some (res1, r) \<and>
    run_limiter Allow collect es r = Some (res2, r') \<and>
    granted limiter_key (limiter_key ip) res2 * packetCost < maxTokens + (t' - t)"
proof -
  have "wf_limiter t0 r0" using assms timed_le [OF assms(3)] by (intro Init_wf) auto
  from limiter.run_granted [OF this assms(3)] obtain res1 r
    where r: "run_limiter Allow collect before r0 = Some (res1, r)" "wf_limiter t r" by blast
  let ?k = "limiter_key ip"
  obtain res2 r' where r': "run_limiter Allow collect es r = Some (res2, r')" "wf_limiter t' r'"
    "granted limiter_key ?k res2 * packetCost + budget r' ?k t' \<le> budget r ?k t + (t' - t)"
    using limiter.run_granted [OF r(2) assms(4), of ?k] by blast
  then show ?thesis
    using r(1) limiter.budget_bounds [OF r(2) order_refl, of ?k] limiter.budget_bounds [OF r'(2) order_refl, of ?k]
    by fastforce
qed

text \<open>Witness of C10: six calls of one source within a millisecond, and a collector tick two seconds later.\<close>

definition burst :: "limiter_event list" where
  "burst = [AllowEv 1000 [10, 0, 0, 1], AllowEv 1001 [10, 0, 0, 1], AllowEv 1002 [10, 0, 0, 1],
     AllowEv 1003 [10, 0, 0, 1], AllowEv 1004 [10, 0, 0, 1], AllowEv 1005 [10, 0, 0, 1]]"

definition idle_then_burst :: "limiter_event list" where
  "idle_then_burst = [CollectEv (\<lambda>_. 2000001000) 2000001000,
     AllowEv 2000001000 [10, 0, 0, 1], AllowEv 2000001001 [10, 0, 0, 1]]"

lemmas eval_limiter = limiter_consts Ratelimiter_Init_def new_Ratelimiter_def Allow_def To4_def To16_def copy_into_def
  new_entry_def take_packet_def refill_def signal_reset_def collect_def collect_table_def time_sub_def wrap64_def

theorem limiter_rate_bound_witness:
  "\<exists>r0 res1 r res2 r'. Ratelimiter_Init new_Ratelimiter = Some r0 \<and>
    run_limiter Allow collect burst r0 = Some (res1, r) \<and>
    run_limiter Allow collect idle_then_burst r = Some (res2, r') \<and>
    granted limiter_key (limiter_key [10, 0, 0, 1]) res2 * packetCost < maxTokens + (2000001001 - 1005) \<and>
    map snd res1 = [True, True, True, True, True, False] \<and> map snd res2 = [True, True]"
proof -
  obtain r0 where r0: "Ratelimiter_Init new_Ratelimiter = Some r0" by (simp add: Ratelimiter_Init_def new_Ratelimiter_def)
  have t: "timed 0 burst 1005" "timed 1005 idle_then_burst 2000001001"
    by (simp_all add: burst_def idle_then_burst_def horizon_def)
  obtain res1 r res2 r' where run: "run_limiter Allow collect burst r0 = Some (res1, r)"
    "run_limiter Allow collect idle_then_burst r = Some (res2, r')"
    and bound: "granted limiter_key (limiter_key [10, 0, 0, 1]) res2 * packetCost < maxTokens + (2000001001 - 1005)"
    using limiter_rate_bound [OF r0 _ t, of "[10, 0, 0, 1]"] by auto
  have r0': "r0 = \<lparr>stopReset = OpenChan, ticking = False, tableIPv4 = [], tableIPv6 = []\<rparr>"
    using r0 by (simp add: Ratelimiter_Init_def new_Ratelimiter_def)
  have res1: "map snd res1 = [True, True, True, True, True, False]"
    and r: "r = \<lparr>stopReset = OpenChan, ticking = True,
      tableIPv4 = [([10, 0, 0, 1], \<lparr>lastTime = 1005, tokens = 5\<rparr>)], tableIPv6 = []\<rparr>"
    using run(1) by (auto simp: r0' burst_def eval_limiter cong: bind_weak_cong)
  have "map snd res2 = [True, True]"
    using run(2) by (auto simp: r idle_then_burst_def eval_limiter cong: bind_weak_cong)
  with r0 run bound res1 show ?thesis by (intro exI conjI) assumption+
qed

text \<open>
  C21: the answers a source gets from the limiter are exactly those it would get if it were the only one calling and the
  collector never ran: other sources cannot use up its budget, and dropping an idle bucket is not observable.
\<close>

theorem limiter_isolation:
  assumes "Ratelimiter_Init rate = Some r0" "0 \<le> t" "timed t es t'" "run_limiter Allow collect es r0 = Some (res, r)"
  shows "map_option fst (run_limiter Allow collect (filter (of_source limiter_key k) es) r0) =
    Some (filter (\<lambda>(ip, ok). limiter_key ip = k) res)"
proof -
  have "wf_limiter t r0" using assms timed_le [OF assms(3)] by (intro Init_wf) auto
  from limiter.run_isolated [OF this this _ assms(3,4), of k] show ?thesis by auto
qed

text \<open>Witness of C21: two sources, the second of which floods the limiter, and a collector tick.\<close>

definition two_sources :: "limiter_event list" where
  "two_sources = [AllowEv 1000 [10, 0, 0, 1],
     AllowEv 1001 [10, 0, 0, 2], AllowEv 1002 [10, 0, 0, 2], AllowEv 1003 [10, 0, 0, 2],
     AllowEv 1004 [10, 0, 0, 2], AllowEv 1005 [10, 0, 0, 2], AllowEv 1006 [10, 0, 0, 2],
     CollectEv (\<lambda>_. 2000000000) 2000000000, AllowEv 2000000000 [10, 0, 0, 1]]"

lemma two_sources_results:
  "map_option fst (run_limiter Allow collect two_sources
     \<lparr>stopReset = OpenChan, ticking = False, tableIPv4 = [], tableIPv6 = []\<rparr>) =
   Some [([10, 0, 0, 1], True), ([10, 0, 0, 2], True), ([10, 0, 0, 2], True), ([10, 0, 0, 2], True),
     ([10, 0, 0, 2], True), ([10, 0, 0, 2], True), ([10, 0, 0, 2], False), ([10, 0, 0, 1], True)]"
  by code_simp

theorem limiter_isolation_witness:
  "\<exists>r0. Ratelimiter_Init new_Ratelimiter = Some r0 \<and>
     map_option (map snd \<circ> fst) (run_limiter Allow collect two_sources r0) =
       Some [True, True, True, True, True, True, False, True] \<and>
     map_option fst (run_limiter Allow collect (filter (of_source limiter_key (limiter_key [10, 0, 0, 1])) two_sources) r0) =
       Some [([10, 0, 0, 1], True), ([10, 0, 0, 1], True)]"
proof -
  let ?r0 = "\<lparr>stopReset = OpenChan, ticking = False, tableIPv4 = [], tableIPv6 = []\<rparr>"
  have r0: "Ratelimiter_Init new_Ratelimiter = Some ?r0" by (simp add: Ratelimiter_Init_def new_Ratelimiter_def)
  have t: "timed 0 two_sources 2000000000" by (simp add: two_sources_def horizon_def)
  obtain res r where run: "run_limiter Allow collect two_sources ?r0 = Some (res, r)"
    and res: "res = [([10, 0, 0, 1], True), ([10, 0, 0, 2], True), ([10, 0, 0, 2], True), ([10, 0, 0, 2], True),
     ([10, 0, 0, 2], True), ([10, 0, 0, 2], True), ([10, 0, 0, 2], False), ([10, 0, 0, 1], True)]"
    using two_sources_results by auto
  have k: "limiter_key [10, 0, 0, 1] = (True, [10, 0, 0, 1])" "limiter_key [10, 0, 0, 2] = (True, [10, 0, 0, 2])"
    by (simp_all add: limiter_key_def To4_def)
  have "filter (\<lambda>(ip, ok). limiter_key ip = limiter_key [10, 0, 0, 1]) res = [([10, 0, 0, 1], True), ([10, 0, 0, 1], True)]"
    unfolding res by (simp add: k)
  with limiter_isolation [OF r0 order_refl t run, of "limiter_key [10, 0, 0, 1]"] r0 run res
  show ?thesis by (intro exI [of _ ?r0]) simp
qed

end
