(* ===== verification/IndexTable.thy ===== *)
theory IndexTable
  imports GoLib
begin

text \<open>
  The table of \<^verbatim>\<open>indextable.go\<close> that gives out the session indices of the device. Peers and key pairs are referred to by
  address; the handshake of an entry is the one inside its peer, so it is referred to by the address of the peer.
\<close>

section \<open>Model\<close>

type_synonym peer_ref = nat
type_synonym keypair_ref = nat

record IndexTableEntry =
  ie_peer :: "peer_ref option"
  ie_handshake :: "peer_ref option"
  ie_keypair :: "keypair_ref option"

type_synonym IndexTable = "u32 \<Rightarrow> IndexTableEntry option"

text \<open>A draw of the random source: the bytes it filled in and whether it reported an error.\<close>

type_synonym rand_draw = "bytes \<times> bool"

definition randUint32 :: "rand_draw \<Rightarrow> u32 \<times> bool" where
  "randUint32 draw = (le_u32 (copy_into (replicate 4 0) (fst draw)), snd draw)"

definition IndexTable_Init :: IndexTable where
  "IndexTable_Init = (\<lambda>_. None)"

definition IndexTable_Delete :: "u32 \<Rightarrow> IndexTable \<Rightarrow> IndexTable" where
  "IndexTable_Delete index table = table(index := None)"

definition SwapIndexForKeypair :: "u32 \<Rightarrow> keypair_ref \<Rightarrow> IndexTable \<Rightarrow> IndexTable" where
  "SwapIndexForKeypair index keypair table =
     (case table index of
        None \<Rightarrow> table
      | Some entry \<Rightarrow> table(index \<mapsto>
          \<lparr>ie_peer = ie_peer entry, ie_handshake = None, ie_keypair = Some keypair\<rparr>))"

text \<open>
  The loop draws until an index is free; the draws are an argument, and \<^const>\<open>None\<close> stands for a loop that has used all of
  them without coming to an end. The result is the index and whether the random source failed.
\<close>

fun NewIndexForHandshake :: "rand_draw list \<Rightarrow> peer_ref \<Rightarrow> peer_ref \<Rightarrow> IndexTable \<Rightarrow> (u32 \<times> bool \<times> IndexTable) option" where
  "NewIndexForHandshake [] peer handshake table = None"
| "NewIndexForHandshake (draw # draws) peer handshake table =
     (case randUint32 draw of (index, err) \<Rightarrow>
      if err then Some (index, True, table)
      else if table index \<noteq> None then NewIndexForHandshake draws peer handshake table
      else Some (index, False,
        table(index \<mapsto> \<lparr>ie_peer = Some peer, ie_handshake = Some handshake, ie_keypair = None\<rparr>)))"

definition IndexTable_Lookup :: "u32 \<Rightarrow> IndexTable \<Rightarrow> IndexTableEntry" where
  "IndexTable_Lookup index table =
     (case table index of None \<Rightarrow> \<lparr>ie_peer = None, ie_handshake = None, ie_keypair = None\<rparr> | Some e \<Rightarrow> e)"

section \<open>Lemmas\<close>

lemma NewIndex_fresh:
  "NewIndexForHandshake draws p h table = Some (index, False, table') \<Longrightarrow>
     table index = None \<and> table' = table(index \<mapsto> \<lparr>ie_peer = Some p, ie_handshake = Some h, ie_keypair = None\<rparr>)"
  by (induction draws) (auto split: prod.splits if_splits)

lemma NewIndex_error:
  "NewIndexForHandshake draws p h table = Some (index, True, table') \<Longrightarrow> table' = table"
  by (induction draws) (auto split: prod.splits if_splits)

text \<open>The loop ends as soon as the source draws a free index or fails.\<close>

lemma NewIndex_ends_iff:
  "(\<exists>r. NewIndexForHandshake draws p h table = Some r) \<longleftrightarrow>
     (\<exists>d \<in> set draws. snd (randUint32 d) \<or> table (fst (randUint32 d)) = None)"
  by (induction draws) (auto split: prod.splits)

lemma IndexTable_Lookup_new:
  "NewIndexForHandshake draws p h table = Some (index, False, table') \<Longrightarrow>
     IndexTable_Lookup i table' =
       (if i = index then \<lparr>ie_peer = Some p, ie_handshake = Some h, ie_keypair = None\<rparr> else IndexTable_Lookup i table)"
  by (drule NewIndex_fresh) (auto simp: IndexTable_Lookup_def)

lemma IndexTable_Lookup_delete:
  "IndexTable_Lookup i (IndexTable_Delete j table) =
     (if i = j then \<lparr>ie_peer = None, ie_handshake = None, ie_keypair = None\<rparr> else IndexTable_Lookup i table)"
  by (simp add: IndexTable_Lookup_def IndexTable_Delete_def)

lemma IndexTable_Lookup_swap:
  "table j = Some e \<Longrightarrow> IndexTable_Lookup i (SwapIndexForKeypair j k table) =
     (if i = j then \<lparr>ie_peer = ie_peer e, ie_handshake = None, ie_keypair = Some k\<rparr> else IndexTable_Lookup i table)"
  by (simp add: IndexTable_Lookup_def SwapIndexForKeypair_def)

section \<open>Properties\<close>

text \<open>
  C24: as soon as the random source yields an index that is free, \<open>NewIndexForHandshake\<close> returns; what it returns is a free
  index, entered for the handshake with every other entry kept, or the failure of the source, with the table
  unchanged.
\<close>

theorem new_index_fresh:
  assumes "d \<in> set draws" "table (fst (randUint32 d)) = None"
  shows "\<exists>index err table'. NewIndexForHandshake draws p h table = Some (index, err, table') \<and>
    (if err then table' = table
     else table index = None \<and>
       IndexTable_Lookup index table' = \<lparr>ie_peer = Some p, ie_handshake = Some h, ie_keypair = None\<rparr> \<and>
       (\<forall>i. i \<noteq> index \<longrightarrow> IndexTable_Lookup i table' = IndexTable_Lookup i table))"
proof -
  obtain index err table' where r: "NewIndexForHandshake draws p h table = Some (index, err, table')"
    using assms NewIndex_ends_iff [of draws p h table] by (metis prod_cases3)
  then show ?thesis
    using NewIndex_error [of draws p h table index table'] NewIndex_fresh [of draws p h table index table']
      IndexTable_Lookup_new [of draws p h table index table']
    by (cases err) auto
qed

text \<open>Witness of C24: the first draw hits an index in use.\<close>

theorem new_index_fresh_witness:
  "\<exists>table'. NewIndexForHandshake [([1, 0, 0, 0], False), ([2, 0, 0, 0], False)] 7 7
      (IndexTable_Init(1 \<mapsto> \<lparr>ie_peer = Some 3, ie_handshake = Some 3, ie_keypair = None\<rparr>)) = Some (2, False, table') \<and>
     IndexTable_Lookup 2 table' = \<lparr>ie_peer = Some 7, ie_handshake = Some 7, ie_keypair = None\<rparr> \<and>
     ie_peer (IndexTable_Lookup 1 table') = Some 3"
proof -
  let ?t = "IndexTable_Init(1 \<mapsto> \<lparr>ie_peer = Some 3, ie_handshake = Some 3, ie_keypair = None\<rparr>)"
  have r: "randUint32 ([1, 0, 0, 0], False) = (1, False)" "randUint32 ([2, 0, 0, 0], False) = (2, False)"
    by (simp_all add: randUint32_def copy_into_def le_u32_def)
  have "\<exists>index err table'. NewIndexForHandshake [([1, 0, 0, 0], False), ([2, 0, 0, 0], False)] 7 7 ?t = Some (index, err, table') \<and>
    (if err then table' = ?t
     else ?t index = None \<and>
       IndexTable_Lookup index table' = \<lparr>ie_peer = Some 7, ie_handshake = Some 7, ie_keypair = None\<rparr> \<and>
       (\<forall>i. i \<noteq> index \<longrightarrow> IndexTable_Lookup i table' = IndexTable_Lookup i ?t))"
    by (rule new_index_fresh [of "([2, 0, 0, 0], False)"]) (simp_all add: r IndexTable_Init_def)
  then show ?thesis by (auto simp: r IndexTable_Init_def IndexTable_Lookup_def)
qed

end
