(* ===== verification/Tai64n.thy ===== *)
theory Tai64n
  imports GoLib
begin

text \<open>
  The handshake timestamps of \<^verbatim>\<open>tai64n/tai64n.go\<close>: their construction from the wall clock and their comparison as byte
  strings, which is characterised on the clock readings.
\<close>

section \<open>Model\<close>

definition TimestampSize :: nat where
  "TimestampSize = 12"

definition tai64n_base :: u64 where
  "tai64n_base = 4611686018427387914"

type_synonym Timestamp = bytes

definition Unix :: "time \<Rightarrow> int" where
  "Unix t = t div Second"

definition UnixNano :: "time \<Rightarrow> int" where
  "UnixNano t = wrap64 t"

definition tai64n_Now :: "time \<Rightarrow> Timestamp" where
  "tai64n_Now now =
     (let secs = tai64n_base + of_int (Unix now);
          nano = (of_int (UnixNano now) :: u32)
      in put_be64 secs @ put_be32 nano)"

fun bytes_Compare :: "bytes \<Rightarrow> bytes \<Rightarrow> int" where
  "bytes_Compare [] [] = 0"
| "bytes_Compare [] (b # bs) = -1"
| "bytes_Compare (a # as) [] = 1"
| "bytes_Compare (a # as) (b # bs) =
     (if a < b then -1 else if a > b then 1 else bytes_Compare as bs)"

definition Timestamp_After :: "Timestamp \<Rightarrow> Timestamp \<Rightarrow> bool" where
  "Timestamp_After t1 t2 \<longleftrightarrow> bytes_Compare t1 t2 > 0"

section \<open>The byte order is the numeric order\<close>

lemma be_nat_Cons: "be_nat (b # bs) = unat b * 256 ^ length bs + be_nat bs"
  by (simp add: be_nat_def le_nat_append)

lemma be_nat_append: "be_nat (xs @ ys) = be_nat xs * 256 ^ length ys + be_nat ys"
  by (simp add: be_nat_def le_nat_append)

lemma be_nat_bound: "be_nat bs < 256 ^ length bs"
  using le_nat_bound [of "rev bs"] by (simp add: be_nat_def)

lemma bytes_Compare_be_nat:
  "length xs = length ys \<Longrightarrow> bytes_Compare xs ys = sgn (int (be_nat xs) - int (be_nat ys))"
proof (induction xs ys rule: list_induct2)
  case Nil
  then show ?case by (simp add: be_nat_def)
next
  case (Cons x xs y ys)
  have b: "be_nat xs < 256 ^ length xs" "be_nat ys < 256 ^ length xs"
    using be_nat_bound [of xs] be_nat_bound [of ys] Cons by simp_all
  consider "unat x < unat y" | "unat y < unat x" | "unat x = unat y" by linarith
  then show ?case
  proof cases
    case 1
    then have "(unat x + 1) * 256 ^ length xs \<le> unat y * 256 ^ length xs" by (intro mult_le_mono1) simp
    with b have "be_nat (x # xs) < be_nat (y # ys)" using Cons by (simp add: be_nat_Cons)
    with 1 show ?thesis by (simp add: word_less_nat_alt)
  next
    case 2
    then have "(unat y + 1) * 256 ^ length xs \<le> unat x * 256 ^ length xs" by (intro mult_le_mono1) simp
    with b have "be_nat (y # ys) < be_nat (x # xs)" using Cons by (simp add: be_nat_Cons)
    with 2 show ?thesis by (simp add: word_less_nat_alt)
  next
    case 3
    then show ?thesis using Cons by (simp add: be_nat_Cons word_less_nat_alt)
  qed
qed

lemma be_nat_put: "be_nat (put_be64 w) = unat w" "be_nat (put_be32 v) = unat v"
  using unsigned_less [of w, where ?'a = nat] unsigned_less [of v, where ?'a = nat]
  by (simp_all add: put_be64_def put_be32_def be_nat_def be_bytes_def le_nat_le_bytes)

lemma pair_less:
  fixes a b c d :: int
  assumes "0 \<le> b" "b < M" "0 \<le> d" "d < M"
  shows "a * M + b < c * M + d \<longleftrightarrow> a < c \<or> (a = c \<and> b < d)"
proof -
  have "a < c \<Longrightarrow> a * M + b < c * M + d"
  proof -
    assume "a < c"
    then have "(a + 1) * M \<le> c * M" using assms by (intro mult_right_mono) auto
    then show ?thesis using assms by (simp add: algebra_simps)
  qed
  moreover have "c < a \<Longrightarrow> c * M + d < a * M + b"
  proof -
    assume "c < a"
    then have "(c + 1) * M \<le> a * M" using assms by (intro mult_right_mono) auto
    then show ?thesis using assms by (simp add: algebra_simps)
  qed
  ultimately show ?thesis by (cases a c rule: linorder_cases) auto
qed

lemma After_iff:
  assumes "0 \<le> t" "t < 2 ^ 62" "0 \<le> u" "u < 2 ^ 62"
  shows "Timestamp_After (tai64n_Now t) (tai64n_Now u) \<longleftrightarrow>
    Unix u < Unix t \<or> (Unix u = Unix t \<and> u mod 2 ^ 32 < t mod 2 ^ 32)"
proof -
  have secs: "int (unat (tai64n_base + of_int (Unix t))) = 4611686018427387914 + Unix t" if "0 \<le> t" "t < 2 ^ 62" for t
  proof -
    have "0 \<le> Unix t" "Unix t < 2 ^ 62" using that by (auto simp: Unix_def Second_def)
    then show ?thesis by (simp add: tai64n_base_def uint_word_ariths unsigned_of_int take_bit_eq_mod)
  qed
  have nano: "int (unat (of_int (UnixNano t) :: u32)) = t mod 2 ^ 32" if "0 \<le> t" "t < 2 ^ 62" for t
    using that by (simp add: UnixNano_def unsigned_of_int take_bit_eq_mod)
  have val: "int (be_nat (tai64n_Now t)) = (4611686018427387914 + Unix t) * 2 ^ 32 + t mod 2 ^ 32" if "0 \<le> t" "t < 2 ^ 62" for t
    using secs [OF that] nano [OF that] by (simp add: tai64n_Now_def be_nat_append be_nat_put)
  have "Timestamp_After (tai64n_Now t) (tai64n_Now u) \<longleftrightarrow> int (be_nat (tai64n_Now u)) < int (be_nat (tai64n_Now t))"
    by (subst Timestamp_After_def, subst bytes_Compare_be_nat) (simp_all add: tai64n_Now_def sgn_if)
  also have "\<dots> \<longleftrightarrow> (4611686018427387914 + Unix u) * 2 ^ 32 + u mod 2 ^ 32 < (4611686018427387914 + Unix t) * 2 ^ 32 + t mod 2 ^ 32"
    unfolding val [OF assms(1,2)] val [OF assms(3,4)] ..
  finally show ?thesis by (subst (asm) pair_less) simp_all
qed

section \<open>Properties\<close>

text \<open>
  C22: a handshake timestamp taken in a later second is always accepted after an earlier one, so that an initiator that waits
  for the next second between two initiations is never rejected as a replay.
\<close>

theorem tai64n_later_second_after:
  assumes "0 \<le> u" "u < t" "t < 2 ^ 62" "Unix u \<noteq> Unix t"
  shows "Timestamp_After (tai64n_Now t) (tai64n_Now u) \<and> \<not> Timestamp_After (tai64n_Now u) (tai64n_Now t)"
proof -
  have "Unix u \<le> Unix t" using assms(2) by (simp add: Unix_def Second_def zdiv_mono1)
  then show ?thesis using assms by (simp add: After_iff)
qed

text \<open>Witness of C22: one second apart in 2018.\<close>

theorem tai64n_later_second_after_witness:
  "Timestamp_After (tai64n_Now 1538352001000000000) (tai64n_Now 1538352000000000000) \<and>
   \<not> Timestamp_After (tai64n_Now 1538352000000000000) (tai64n_Now 1538352001000000000)"
  using tai64n_later_second_after [of 1538352000000000000 1538352001000000000] by (simp add: Unix_def Second_def)

text \<open>
  C23: within one second the timestamps are not increasing: the low word is the number of nanoseconds since the epoch cut to 32
  bits, not the nanoseconds of the second, and it starts again from zero every 4.29 seconds, inside a second.
\<close>

theorem tai64n_not_monotone:
  "\<exists>u t. 1538352000000000000 < u \<and> u < t \<and> Unix u = Unix t \<and>
     Timestamp_After (tai64n_Now u) (tai64n_Now t) \<and> \<not> Timestamp_After (tai64n_Now t) (tai64n_Now u)"
proof -
  let ?t = "358175491 * 2 ^ 32 :: int"
  have "Unix (?t - 1) = Unix ?t" by (simp add: Unix_def Second_def)
  moreover have "(?t - 1) mod 2 ^ 32 = 2 ^ 32 - 1" "?t mod 2 ^ 32 = 0" by simp_all
  ultimately have "Timestamp_After (tai64n_Now (?t - 1)) (tai64n_Now ?t) \<and> \<not> Timestamp_After (tai64n_Now ?t) (tai64n_Now (?t - 1))"
    using After_iff [of "?t - 1" ?t] After_iff [of ?t "?t - 1"] by simp
  with \<open>Unix (?t - 1) = Unix ?t\<close> show ?thesis by (intro exI [of _ "?t - 1"] exI [of _ ?t]) simp
qed

end
