(* ===== verification/Blake2s.thy ===== *)
theory Blake2s
  imports GoLib
begin

unbundle bit_operations_syntax

text \<open>
  BLAKE2s as the vendored package \<^verbatim>\<open>golang.org/x/crypto/blake2s\<close> computes it on the platforms without assembly:
  the compression function of \<^verbatim>\<open>blake2s_generic.go\<close>, the one-shot checksum and the buffering digest of
  \<^verbatim>\<open>blake2s.go\<close>. The buffering is proved irrelevant: what a digest returns depends on the concatenation of what
  was written only, and without a key it is the one-shot checksum.
\<close>

section \<open>Model\<close>

definition BlockSize :: nat where
  "BlockSize = 64"

definition Size :: nat where
  "Size = 32"

definition Size128 :: nat where
  "Size128 = 16"

definition iv :: "u32 list" where
  "iv = [0x6a09e667, 0xbb67ae85, 0x3c6ef372, 0xa54ff53a,
         0x510e527f, 0x9b05688c, 0x1f83d9ab, 0x5be0cd19]"

definition precomputed :: "nat list list" where
  "precomputed = [
    [0, 2, 4, 6, 1, 3, 5, 7, 8, 10, 12, 14, 9, 11, 13, 15],
    [14, 4, 9, 13, 10, 8, 15, 6, 1, 0, 11, 5, 12, 2, 7, 3],
    [11, 12, 5, 15, 8, 0, 2, 13, 10, 3, 7, 9, 14, 6, 1, 4],
    [7, 3, 13, 11, 9, 1, 12, 14, 2, 5, 4, 15, 6, 10, 0, 8],
    [9, 5, 2, 10, 0, 7, 4, 15, 14, 11, 6, 3, 1, 12, 8, 13],
    [2, 6, 0, 8, 12, 10, 11, 3, 4, 7, 15, 1, 13, 5, 14, 9],
    [12, 1, 14, 4, 5, 15, 13, 10, 0, 6, 9, 8, 7, 3, 2, 11],
    [13, 7, 12, 3, 11, 14, 1, 9, 5, 15, 8, 2, 0, 4, 6, 10],
    [6, 14, 11, 0, 15, 9, 3, 8, 12, 13, 1, 10, 2, 7, 4, 5],
    [10, 8, 7, 1, 2, 4, 6, 5, 15, 9, 3, 13, 11, 14, 12, 0]]"

definition rotate_right :: "nat \<Rightarrow> u32 \<Rightarrow> u32" where
  "rotate_right n w = push_bit (32 - n) w OR drop_bit n w"

text \<open>
  The seven statements for one column: \<open>v[a] += m; v[a] += v[b]; v[d] ^= v[a]; rotate v[d] by p; v[c] += v[d]; v[b] ^= v[c];
  rotate v[b] by q\<close>.
\<close>

fun mix_step :: "u32 \<Rightarrow> nat \<times> nat \<times> nat \<times> nat \<times> nat \<times> nat \<Rightarrow> u32 list \<Rightarrow> u32 list" where
  "mix_step x (a, b, c, d, p, q) v =
     (let v = v[a := v ! a + x];
          v = v[a := v ! a + v ! b];
          v = v[d := v ! d XOR v ! a];
          v = v[d := rotate_right p (v ! d)];
          v = v[c := v ! c + v ! d];
          v = v[b := v ! b XOR v ! c]
      in v[b := rotate_right q (v ! b)])"

text \<open>The columns in the order of the loop body, each with its rotations.\<close>

definition mix_columns :: "(nat \<times> nat \<times> nat \<times> nat \<times> nat \<times> nat) list" where
  "mix_columns = [
    (0, 4, 8, 12, 16, 12), (1, 5, 9, 13, 16, 12), (2, 6, 10, 14, 16, 12), (3, 7, 11, 15, 16, 12),
    (0, 4, 8, 12, 8, 7), (1, 5, 9, 13, 8, 7), (2, 6, 10, 14, 8, 7), (3, 7, 11, 15, 8, 7),
    (0, 5, 10, 15, 16, 12), (1, 6, 11, 12, 16, 12), (2, 7, 8, 13, 16, 12), (3, 4, 9, 14, 16, 12),
    (0, 5, 10, 15, 8, 7), (1, 6, 11, 12, 8, 7), (2, 7, 8, 13, 8, 7), (3, 4, 9, 14, 8, 7)]"

definition mix_round :: "u32 list \<Rightarrow> nat list \<Rightarrow> u32 list \<Rightarrow> u32 list" where
  "mix_round m s v = fold (\<lambda>(i, col) v. mix_step (m ! i) col v) (zip s mix_columns) v"

definition message_words :: "bytes \<Rightarrow> u32 list" where
  "message_words block = map (\<lambda>j. le_u32 (drop (4 * j) block)) [0..<16]"

definition hash_block :: "u32 \<Rightarrow> bytes \<Rightarrow> u32 list \<times> u32 \<times> u32 \<Rightarrow> u32 list \<times> u32 \<times> u32" where
  "hash_block flag block state =
     (case state of (h, c0, c1) \<Rightarrow>
      let c0 = c0 + of_nat BlockSize;
          c1 = (if c0 < of_nat BlockSize then c1 + 1 else c1);
          v = h @ take 4 iv @ [iv ! 4 XOR c0, iv ! 5 XOR c1, iv ! 6 XOR flag, iv ! 7];
          v = fold (mix_round (message_words block)) precomputed v
      in (map (\<lambda>i. h ! i XOR (v ! i XOR v ! (i + 8))) [0..<8], c0, c1))"

text \<open>The blocks argument is always a whole number of blocks.\<close>

function hashBlocks :: "u32 \<Rightarrow> bytes \<Rightarrow> u32 list \<times> u32 \<times> u32 \<Rightarrow> u32 list \<times> u32 \<times> u32" where
  "hashBlocks flag blocks state =
     (if blocks = [] then state
      else hashBlocks flag (drop BlockSize blocks) (hash_block flag (take BlockSize blocks) state))"
  by pat_completeness auto
termination by (relation "measure (\<lambda>(_, blocks, _). length blocks)") (simp_all add: BlockSize_def)

declare hashBlocks.simps [simp del]

definition start_state :: "nat \<Rightarrow> nat \<Rightarrow> u32 list" where
  "start_state hashSize keyLen =
     iv[0 := iv ! 0 XOR (of_nat hashSize OR push_bit 8 (of_nat keyLen) OR push_bit 16 1 OR push_bit 24 1)]"

text \<open>The length of the blocks that are hashed before the last one.\<close>

definition whole_blocks :: "nat \<Rightarrow> nat" where
  "whole_blocks n = (let nn = n - n mod BlockSize in if n = nn then nn - BlockSize else nn)"

definition final_counter :: "nat \<Rightarrow> u32 \<times> u32 \<Rightarrow> u32 \<times> u32" where
  "final_counter offset c =
     (let remaining = of_nat (BlockSize - offset)
      in (fst c - remaining, if fst c < remaining then snd c - 1 else snd c))"

definition finish :: "bytes \<Rightarrow> u32 list \<times> u32 \<times> u32 \<Rightarrow> bytes" where
  "finish tail state =
     (case state of (h, c) \<Rightarrow>
      let block = copy_into (replicate BlockSize 0) tail;
          c = final_counter (length tail) c
      in concat (map put_le32 (fst (hashBlocks 0xFFFFFFFF block (h, c)))))"

definition checkSum :: "nat \<Rightarrow> bytes \<Rightarrow> bytes" where
  "checkSum hashSize data =
     (let h = start_state hashSize 0;
          n = (if length data > BlockSize then whole_blocks (length data) else 0)
      in finish (drop n data) (hashBlocks 0 (take n data) (h, 0, 0)))"

definition Sum256 :: "bytes \<Rightarrow> bytes" where
  "Sum256 data = checkSum Size data"

record digest =
  d_h :: "u32 list"
  d_c :: "u32 \<times> u32"
  d_size :: nat
  d_block :: bytes
  d_offset :: nat
  d_key :: bytes
  d_keyLen :: nat

definition digest_Reset :: "digest \<Rightarrow> digest" where
  "digest_Reset d =
     (let d = d\<lparr>d_h := start_state (d_size d) (d_keyLen d), d_offset := 0, d_c := (0, 0)\<rparr>
      in if d_keyLen d > 0 then d\<lparr>d_block := d_key d, d_offset := BlockSize\<rparr> else d)"

definition newDigest :: "nat \<Rightarrow> bytes \<Rightarrow> digest option" where
  "newDigest hashSize key =
     (if length key > Size then None
      else Some (digest_Reset \<lparr>d_h = replicate 8 0, d_c = (0, 0), d_size = hashSize, d_block = replicate BlockSize 0,
        d_offset = 0, d_key = copy_into (replicate BlockSize 0) key, d_keyLen = length key\<rparr>))"

definition New256 :: "bytes \<Rightarrow> digest option" where
  "New256 key = newDigest Size key"

definition New128 :: "bytes \<Rightarrow> digest option" where
  "New128 key = (if length key = 0 then None else newDigest Size128 key)"

definition digest_Write :: "digest \<Rightarrow> bytes \<Rightarrow> digest" where
  "digest_Write d p =
     (let remaining = BlockSize - d_offset d in
      if d_offset d > 0 \<and> length p \<le> remaining
      then d\<lparr>d_block := take (d_offset d) (d_block d) @ copy_into (drop (d_offset d) (d_block d)) p,
             d_offset := d_offset d + length p\<rparr>
      else
        let (d, p) =
              (if d_offset d > 0 then
                 let block = take (d_offset d) (d_block d) @ copy_into (drop (d_offset d) (d_block d)) (take remaining p);
                     (h, c) = hashBlocks 0 block (d_h d, d_c d)
                 in (d\<lparr>d_block := block, d_h := h, d_c := c, d_offset := 0\<rparr>, drop remaining p)
               else (d, p));
            (d, p) =
              (if length p > BlockSize then
                 let nn = whole_blocks (length p);
                     (h, c) = hashBlocks 0 (take nn p) (d_h d, d_c d)
                 in (d\<lparr>d_h := h, d_c := c\<rparr>, drop nn p)
               else (d, p))
        in d\<lparr>d_block := copy_into (d_block d) p, d_offset := d_offset d + length p\<rparr>)"

definition digest_Sum :: "digest \<Rightarrow> bytes" where
  "digest_Sum d = take (d_size d) (finish (take (d_offset d) (d_block d)) (d_h d, d_c d))"

section \<open>Buffering\<close>

lemma hashBlocks_append:
  "64 dvd length A \<Longrightarrow> hashBlocks flag (A @ B) s = hashBlocks flag B (hashBlocks flag A s)"
proof (induction flag A s rule: hashBlocks.induct)
  case (1 flag A s)
  show ?case
  proof (cases "A = []")
    case True
    then show ?thesis by (simp add: hashBlocks.simps [of flag "[]"])
  next
    case False
    then have "64 \<le> length A" using "1.prems" by (simp add: dvd_imp_le)
    moreover from this have "64 dvd length (drop 64 A)" using "1.prems" by (simp add: dvd_diff_nat)
    ultimately show ?thesis
      using "1.IH" False by (simp add: hashBlocks.simps [of flag "A @ B"] hashBlocks.simps [of flag A] BlockSize_def)
  qed
qed

definition full :: "nat \<Rightarrow> nat" where
  "full n = (n - 1) div 64 * 64"

lemma full_props: "64 dvd full n" "full n \<le> n" "0 < n \<Longrightarrow> full n < n" "n - full n \<le> 64"
proof -
  have "(n - 1) div 64 * 64 + (n - 1) mod 64 = n - 1" by (simp only: div_mult_mod_eq)
  moreover have "(n - 1) mod 64 < 64" by simp
  ultimately show "full n \<le> n" "0 < n \<Longrightarrow> full n < n" "n - full n \<le> 64" unfolding full_def by linarith+
qed (simp add: full_def)

lemma full_unique: "64 dvd k \<Longrightarrow> k < n \<Longrightarrow> n \<le> k + 64 \<Longrightarrow> full n = k"
proof -
  assume k: "64 dvd k" "k < n" "n \<le> k + 64"
  then obtain j where j: "k = 64 * j" by (auto elim: dvdE)
  then have "n - 1 = 64 * j + (n - 1 - k)" "n - 1 - k < 64" using k by simp_all
  then have "(n - 1) div 64 = j" by (metis div_mult_self4 div_less add_0_right numeral_eq_iff zero_neq_numeral)
  then show ?thesis using j by (simp add: full_def)
qed

lemma full_small: "n \<le> 64 \<Longrightarrow> full n = 0"
  using full_unique [of 0 n] by (cases "n = 0") (simp_all add: full_def)

lemma whole_blocks_full: "64 < n \<Longrightarrow> whole_blocks n = full n"
proof -
  assume n: "64 < n"
  have d: "64 dvd n - n mod 64" by (metis dvd_minus_mod)
  have m: "n mod 64 < 64" "n mod 64 \<le> n" by simp_all
  show ?thesis
  proof (cases "n = n - n mod 64")
    case True
    then have "whole_blocks n = n - 64" by (simp add: whole_blocks_def Let_def BlockSize_def)
    moreover have "64 dvd n - 64" using d True by (simp add: dvd_diff_nat)
    ultimately show ?thesis using n by (simp add: full_unique)
  next
    case False
    then have "whole_blocks n = n - n mod 64" by (simp add: whole_blocks_def Let_def BlockSize_def)
    moreover have "n - n mod 64 < n" "n \<le> n - n mod 64 + 64" using False m by linarith+
    ultimately show ?thesis using full_unique [OF d] by simp
  qed
qed

text \<open>A digest that has absorbed the message \<open>m\<close> from the chaining value \<open>h0\<close>.\<close>

definition absorbed :: "u32 list \<Rightarrow> bytes \<Rightarrow> digest \<Rightarrow> bool" where
  "absorbed h0 m d \<longleftrightarrow> d_offset d = length m - full (length m) \<and> length (d_block d) = 64 \<and>
     (d_h d, d_c d) = hashBlocks 0 (take (full (length m)) m) (h0, 0, 0) \<and>
     take (d_offset d) (d_block d) = drop (full (length m)) m"

text \<open>Absorbing more data when everything so far has been hashed.\<close>

definition absorb_rest :: "digest \<Rightarrow> bytes \<Rightarrow> digest" where
  "absorb_rest d p =
     (let (d, p) =
        (if length p > BlockSize then
           let nn = whole_blocks (length p);
               (h, c) = hashBlocks 0 (take nn p) (d_h d, d_c d)
           in (d\<lparr>d_h := h, d_c := c\<rparr>, drop nn p)
         else (d, p))
      in d\<lparr>d_block := copy_into (d_block d) p, d_offset := d_offset d + length p\<rparr>)"

lemma absorb_rest_aligned:
  assumes "64 dvd length A" "(d_h d, d_c d) = hashBlocks 0 A (h0, 0, 0)" "d_offset d = 0" "length (d_block d) = 64"
    "p \<noteq> [] \<or> A = []"
  shows "absorbed h0 (A @ p) (absorb_rest d p)"
proof -
  let ?f = "full (length p)"
  have len: "full (length (A @ p)) = length A + ?f"
  proof (cases "p = []")
    case True
    then show ?thesis using assms(5) by (simp add: full_def)
  next
    case False
    then show ?thesis using assms(1) full_props [of "length p"] by (intro full_unique) auto
  qed
  have hb: "hashBlocks 0 (take ?f p) (d_h d, d_c d) = hashBlocks 0 (A @ take ?f p) (h0, 0, 0)"
    using hashBlocks_append [OF assms(1)] assms(2) by simp
  obtain h c where hc: "hashBlocks 0 (A @ take ?f p) (h0, 0, 0) = (h, c)" by (rule prod.exhaust)
  have rest: "length (drop ?f p) \<le> 64" using full_props [of "length p"] by simp
  have "absorb_rest d p = d\<lparr>d_h := h, d_c := c, d_block := copy_into (d_block d) (drop ?f p), d_offset := length p - ?f\<rparr>"
  proof (cases "64 < length p")
    case True
    then show ?thesis using hb hc assms(3)
      by (simp add: absorb_rest_def BlockSize_def whole_blocks_full)
  next
    case False
    then have "?f = 0" by (simp add: full_small)
    with hb hc have "h = d_h d" "c = d_c d" by (simp_all add: hashBlocks.simps [of 0 "[]"])
    then show ?thesis using False assms(3) \<open>?f = 0\<close> by (simp add: absorb_rest_def BlockSize_def)
  qed
  moreover have "take (length (A @ p) - length A - ?f) (copy_into (d_block d) (drop ?f p)) = drop ?f p"
    using rest assms(4) by (simp add: copy_into_def)
  ultimately show ?thesis using assms(4) len hc by (simp add: absorbed_def)
qed

lemma digest_Write_absorbed:
  assumes "absorbed h0 m d"
  shows "absorbed h0 (m @ p) (digest_Write d p)"
proof -
  let ?f = "full (length m)" and ?o = "d_offset d" and ?r = "64 - d_offset d"
  have inv: "?o = length m - ?f" "length (d_block d) = 64"
    "(d_h d, d_c d) = hashBlocks 0 (take ?f m) (h0, 0, 0)" "take ?o (d_block d) = drop ?f m"
    using assms by (auto simp: absorbed_def)
  have fm: "64 dvd ?f" "?f \<le> length m" "?o \<le> 64" using full_props [of "length m"] inv(1) by auto
  consider "?o = 0" | "?o > 0" "length p \<le> ?r" | "?o > 0" "?r < length p" by linarith
  then show ?thesis
  proof cases
    case 1
    then have "m = []" using inv(1) full_props(3) [of "length m"] by auto
    then show ?thesis using 1 absorb_rest_aligned [of "[]" d h0 p] inv
      by (simp add: digest_Write_def absorb_rest_def Let_def full_def)
  next
    case 2
    have f: "full (length (m @ p)) = ?f"
      using 2 inv(1) fm by (intro full_unique) auto
    have "take (?o + length p) (take ?o (d_block d) @ copy_into (drop ?o (d_block d)) p) = drop ?f m @ p"
      using 2 inv fm by (simp add: copy_into_def)
    then show ?thesis using 2 inv fm f by (auto simp: absorbed_def digest_Write_def Let_def BlockSize_def)
  next
    case 3
    let ?b = "take ?o (d_block d) @ copy_into (drop ?o (d_block d)) (take ?r p)"
    have b: "?b = drop ?f m @ take ?r p" using inv fm 3 by (simp add: copy_into_def)
    obtain h c where hc: "hashBlocks 0 ?b (d_h d, d_c d) = (h, c)" by (rule prod.exhaust)
    let ?d = "d\<lparr>d_block := ?b, d_h := h, d_c := c, d_offset := 0\<rparr>"
    let ?A = "m @ take ?r p"
    have lb: "length ?b = 64" using fm inv 3 by (simp add: b)
    have "?A = take ?f m @ ?b" by (simp add: b)
    then have "hashBlocks 0 ?A (h0, 0, 0) = (h, c)"
      using hashBlocks_append [of "take ?f m" 0 ?b "(h0, 0, 0)"] hc inv(3) fm by simp
    moreover have "64 dvd length ?A" using \<open>?A = take ?f m @ ?b\<close> lb fm by (metis dvd_add_triv_right_iff length_append length_take min.absorb2)
    ultimately have "absorbed h0 (?A @ drop ?r p) (absorb_rest ?d (drop ?r p))"
      using 3 lb by (intro absorb_rest_aligned) auto
    moreover have "digest_Write d p = absorb_rest ?d (drop ?r p)"
      using 3 hc by (simp add: digest_Write_def absorb_rest_def Let_def BlockSize_def)
    ultimately show ?thesis by simp
  qed
qed

lemma foldl_Write_absorbed: "absorbed h0 m d \<Longrightarrow> absorbed h0 (m @ concat parts) (foldl digest_Write d parts)"
proof (induction parts arbitrary: m d)
  case (Cons p parts)
  from Cons.IH [OF digest_Write_absorbed [OF Cons.prems]] show ?case by simp
qed simp

text \<open>The hash of a whole message, from the chaining value that the size and the key length give.\<close>

definition hash_message :: "u32 list \<Rightarrow> bytes \<Rightarrow> bytes" where
  "hash_message h0 m = finish (drop (full (length m)) m) (hashBlocks 0 (take (full (length m)) m) (h0, 0, 0))"

lemma digest_Sum_absorbed: "absorbed h0 m d \<Longrightarrow> digest_Sum d = take (d_size d) (hash_message h0 m)"
  by (auto simp: absorbed_def digest_Sum_def hash_message_def)

lemma d_size_Write [simp]: "d_size (digest_Write d p) = d_size d"
  by (auto simp: digest_Write_def Let_def split: prod.splits)

lemma d_size_foldl_Write [simp]: "d_size (foldl digest_Write d parts) = d_size d"
  by (induction parts arbitrary: d) auto

lemma checkSum_message: "checkSum hashSize data = hash_message (start_state hashSize 0) data"
  using whole_blocks_full [of "length data"] full_small [of "length data"]
  by (auto simp: checkSum_def hash_message_def Let_def BlockSize_def)

lemma length_hash_block: "length (fst (hash_block flag block s)) = 8"
  by (simp add: hash_block_def Let_def split: prod.splits)

lemma length_hashBlocks: "blocks \<noteq> [] \<Longrightarrow> length (fst (hashBlocks flag blocks s)) = 8"
proof (induction flag blocks s rule: hashBlocks.induct)
  case (1 flag blocks s)
  then show ?case
    by (cases "drop BlockSize blocks = []")
      (auto simp: hashBlocks.simps [of flag blocks] hashBlocks.simps [of flag "[]"] length_hash_block)
qed

lemma length_finish [simp]: "length (finish tail s) = 32"
proof -
  have "length (concat (map put_le32 xs)) = 4 * length xs" for xs by (induction xs) simp_all
  moreover have "copy_into (replicate BlockSize 0) tail \<noteq> []"
    using length_copy_into [of "replicate BlockSize 0" tail] by (metis BlockSize_def length_replicate list.size(3) zero_neq_numeral)
  ultimately show ?thesis by (simp add: finish_def Let_def length_hashBlocks split: prod.splits)
qed

lemma length_Sum256 [simp]: "length (Sum256 data) = 32"
  by (simp add: Sum256_def checkSum_message hash_message_def)

text \<open>The digests the program makes: without a key, and with a key that fits.\<close>

definition key_block :: "bytes \<Rightarrow> bytes" where
  "key_block key = (if key = [] then [] else copy_into (replicate 64 0) key)"

lemma newDigest_absorbed:
  assumes "newDigest hashSize key = Some d"
  shows "absorbed (start_state hashSize (length key)) (key_block key) d" "d_size d = hashSize"
proof -
  let ?d0 = "\<lparr>d_h = replicate 8 0, d_c = (0, 0), d_size = hashSize, d_block = replicate BlockSize 0,
        d_offset = 0, d_key = copy_into (replicate BlockSize 0) key, d_keyLen = length key\<rparr>"
  have d: "d = digest_Reset ?d0" using assms by (simp add: newDigest_def split: if_splits)
  show "d_size d = hashSize" unfolding d by (simp add: digest_Reset_def Let_def)
  show "absorbed (start_state hashSize (length key)) (key_block key) d"
    unfolding d by (cases "key = []")
      (auto simp: absorbed_def digest_Reset_def key_block_def Let_def full_def BlockSize_def hashBlocks.simps [of 0 "[]"])
qed

lemma digest_stream:
  assumes "newDigest hashSize key = Some d"
  shows "digest_Sum (foldl digest_Write d parts) =
    take hashSize (hash_message (start_state hashSize (length key)) (key_block key @ concat parts))"
  using digest_Sum_absorbed [OF foldl_Write_absorbed [OF newDigest_absorbed(1) [OF assms]]] newDigest_absorbed(2) [OF assms]
  by simp

section \<open>Properties\<close>

text \<open>
  C27: however a message is cut into writes, the unkeyed digest returns the one-shot checksum of the whole message, and the keyed
  128-bit digest returns what a single write of the whole message gives.
\<close>

theorem blake2s_streaming:
  assumes "length key \<le> Size" "key \<noteq> []"
  shows "\<exists>d k. New256 [] = Some d \<and> New128 key = Some k \<and>
    digest_Sum (foldl digest_Write d parts) = Sum256 (concat parts) \<and>
    digest_Sum (foldl digest_Write k parts) = digest_Sum (digest_Write k (concat parts)) \<and>
    length (digest_Sum (foldl digest_Write k parts)) = Size128"
proof -
  obtain d where d: "newDigest Size [] = Some d" by (simp add: newDigest_def)
  obtain k where k: "newDigest Size128 key = Some k" using assms by (simp add: newDigest_def)
  have "digest_Sum (foldl digest_Write d parts) = Sum256 (concat parts)"
    using digest_stream [OF d, of parts]
    by (simp add: key_block_def Sum256_def checkSum_message Size_def hash_message_def)
  moreover have "digest_Sum (foldl digest_Write k parts) = digest_Sum (digest_Write k (concat parts))"
    using digest_stream [OF k, of parts] digest_stream [OF k, of "[concat parts]"] by simp
  moreover have "length (digest_Sum (foldl digest_Write k parts)) = Size128"
    using digest_stream [OF k, of parts] by (simp add: hash_message_def Size128_def)
  ultimately show ?thesis using d k assms by (auto simp: New256_def New128_def)
qed

text \<open>Witness of C27: a message over two blocks in three writes, and a 16-byte key.\<close>

theorem blake2s_streaming_witness:
  "\<exists>d k. New256 [] = Some d \<and> New128 (replicate 16 7) = Some k \<and>
    digest_Sum (foldl digest_Write d [replicate 60 1, replicate 10 2, replicate 70 3]) =
      Sum256 (concat [replicate 60 1, replicate 10 2, replicate 70 3]) \<and>
    length (digest_Sum (foldl digest_Write k [replicate 60 1, replicate 10 2])) = Size128"
proof -
  have "length (replicate 16 (7 :: byte)) \<le> Size" "replicate 16 (7 :: byte) \<noteq> []" by (simp_all add: Size_def)
  note S = blake2s_streaming [OF this]
  from S [of "[replicate 60 1, replicate 10 2, replicate 70 3]"] S [of "[replicate 60 1, replicate 10 2]"]
  show ?thesis by (metis option.inject)
qed

end
