(* ===== verification/NoiseTypes.thy ===== *)
theory NoiseTypes
  imports GoLib
begin

unbundle bit_operations_syntax

text \<open>
  The key types of \<^verbatim>\<open>noise-types.go\<close> and the byte helpers of \<^verbatim>\<open>noise-helpers.go\<close>: constant-time comparison (with the
  arithmetic of \<^verbatim>\<open>crypto/subtle\<close>), hexadecimal keys (\<^verbatim>\<open>encoding/hex\<close>), the decimal identifiers
  of the root keys (\<^verbatim>\<open>strconv\<close>) and fresh private keys. Keys are byte strings of length 32.
\<close>

section \<open>Constant-time comparison\<close>

definition ConstantTimeByteEq :: "byte \<Rightarrow> byte \<Rightarrow> u32" where
  "ConstantTimeByteEq x y = drop_bit 31 (ucast (x XOR y) - 1 :: u32)"

definition ConstantTimeCompare :: "bytes \<Rightarrow> bytes \<Rightarrow> u32" where
  "ConstantTimeCompare x y =
     (if length x \<noteq> length y then 0
      else ConstantTimeByteEq (foldl (\<lambda>v (a, b). v OR (a XOR b)) 0 (zip x y)) 0)"

text \<open>The accumulator of the loop of \<open>isZero\<close> is a Go \<^verbatim>\<open>int\<close> that only ever holds 0 or 1.\<close>

definition isZero :: "bytes \<Rightarrow> bool" where
  "isZero val = (foldl (\<lambda>acc b. acc AND ConstantTimeByteEq b 0) 1 val = 1)"

definition setZero :: "bytes \<Rightarrow> bytes" where
  "setZero arr = map (\<lambda>_. 0) arr"

lemma ConstantTimeByteEq_iff: "ConstantTimeByteEq x y = (if x = y then 1 else 0)"
proof (cases "x = y")
  case True
  then show ?thesis by (simp add: ConstantTimeByteEq_def drop_bit_eq_div)
next
  case False
  let ?v = "ucast (x XOR y) :: u32"
  have "x XOR y \<noteq> 0" using False by (simp add: xor_zero_iff)
  then have "unat (x XOR y) \<noteq> 0" by (simp add: unat_eq_0)
  moreover have "unat (x XOR y) < 256" using unsigned_less [of "x XOR y", where ?'a = nat] by simp
  moreover have "unat ?v = unat (x XOR y)" using calculation(2) by (simp add: unsigned_ucast_eq take_bit_nat_eq_self)
  ultimately have "unat (?v - 1) = unat (x XOR y) - 1" "unat (x XOR y) - 1 < 2 ^ 31"
    by (simp_all add: unat_sub word_le_nat_alt)
  then have "unat (drop_bit 31 (?v - 1)) = 0" by (simp add: drop_bit_eq_div unat_div)
  then show ?thesis using False by (simp add: ConstantTimeByteEq_def unat_eq_0)
qed

lemma foldl_or_zero:
  "length xs = length ys \<Longrightarrow> (foldl (\<lambda>v (a, b). v OR (a XOR b)) v (zip xs ys) = 0) = (v = 0 \<and> xs = ys)" for xs ys :: bytes
proof (induction xs ys arbitrary: v rule: list_induct2)
  case Nil
  then show ?case by simp
next
  case (Cons x xs y ys)
  have "(v OR (x XOR y) = 0) = (v = 0 \<and> x = y)"
    using xor_zero_iff [of x y] by (simp add: or_eq_0_iff)
  then show ?case using Cons by auto
qed

lemma ConstantTimeCompare_iff: "(ConstantTimeCompare x y = 1) = (x = y)"
  using foldl_or_zero [of x y 0] by (auto simp: ConstantTimeCompare_def ConstantTimeByteEq_iff)

lemma isZero_iff: "isZero val \<longleftrightarrow> (\<forall>b \<in> set val. b = 0)"
proof -
  have "foldl (\<lambda>acc b. acc AND ConstantTimeByteEq b 0) a val = (if \<forall>b \<in> set val. b = 0 then a AND 1 else 0)"
    if "a = 0 \<or> a = 1" for a
    using that
  proof (induction val arbitrary: a)
    case (Cons b val)
    then show ?case using Cons.IH [of "a AND ConstantTimeByteEq b 0"] by (auto simp: ConstantTimeByteEq_iff)
  qed auto
  from this [of 1] show ?thesis by (simp add: isZero_def)
qed

section \<open>Hexadecimal\<close>

definition fromHexChar :: "char \<Rightarrow> byte option" where
  "fromHexChar c = (let n = of_char c :: nat in
     if 48 \<le> n \<and> n \<le> 57 then Some (of_nat (n - 48))
     else if 97 \<le> n \<and> n \<le> 102 then Some (of_nat (n - 97 + 10))
     else if 65 \<le> n \<and> n \<le> 70 then Some (of_nat (n - 65 + 10))
     else None)"

datatype hex_error = InvalidByteError char | ErrLength | DoesNotFit

fun hex_DecodeString :: "string \<Rightarrow> hex_error + bytes" where
  "hex_DecodeString [] = Inr []"
| "hex_DecodeString [c] = (case fromHexChar c of None \<Rightarrow> Inl (InvalidByteError c) | Some _ \<Rightarrow> Inl ErrLength)"
| "hex_DecodeString (c # d # cs) =
     (case fromHexChar c of
        None \<Rightarrow> Inl (InvalidByteError c)
      | Some a \<Rightarrow>
        (case fromHexChar d of
           None \<Rightarrow> Inl (InvalidByteError d)
         | Some b \<Rightarrow>
           (case hex_DecodeString cs of Inl e \<Rightarrow> Inl e | Inr bs \<Rightarrow> Inr ((push_bit 4 a OR b) # bs))))"

definition hexdigit :: "byte \<Rightarrow> char" where
  "hexdigit b = ''0123456789abcdef'' ! unat b"

definition hex_EncodeToString :: "bytes \<Rightarrow> string" where
  "hex_EncodeToString bs = concat (map (\<lambda>b. [hexdigit (drop_bit 4 b), hexdigit (b AND 15)]) bs)"

text \<open>The destination is an array: \<open>loadExactHex\<close> returns its new content.\<close>

definition loadExactHex :: "bytes \<Rightarrow> string \<Rightarrow> hex_error + bytes" where
  "loadExactHex dst src =
     (case hex_DecodeString src of
        Inl err \<Rightarrow> Inl err
      | Inr decoded \<Rightarrow> if length decoded \<noteq> length dst then Inl DoesNotFit else Inr (copy_into dst decoded))"

definition lower :: "char \<Rightarrow> char" where
  "lower c = (let n = of_char c :: nat in if 65 \<le> n \<and> n \<le> 70 then char_of (n + 32) else c)"

lemma fromHexChar_hexdigit: "unat b < 16 \<Longrightarrow> fromHexChar (hexdigit b) = Some b"
proof -
  have "list_all (\<lambda>n. fromHexChar (hexdigit (of_nat n)) = Some (of_nat n)) [0..<16]" by code_simp
  then have "\<forall>n<16. fromHexChar (hexdigit (of_nat n)) = Some (of_nat n)" by (auto simp: list_all_iff)
  moreover assume "unat b < 16"
  ultimately have "fromHexChar (hexdigit (of_nat (unat b))) = Some (of_nat (unat b))" by blast
  then show ?thesis by simp
qed

lemma byte_nibbles: "unat (drop_bit 4 b) < 16" "unat (b AND 15) < 16" "push_bit 4 (drop_bit 4 b) OR (b AND 15) = b" for b :: byte
proof -
  show "unat (drop_bit 4 b) < 16" using unsigned_less [of b, where ?'a = nat] by (simp add: drop_bit_eq_div unat_div)
  have m: "b AND 15 = take_bit 4 b" by (simp add: take_bit_eq_mask mask_numeral)
  then show "unat (b AND 15) < 16" by (simp add: take_bit_eq_mod unat_mod)
  show "push_bit 4 (drop_bit 4 b) OR (b AND 15) = b"
    unfolding m by (rule bit_eqI) (auto simp: bit_simps)
qed

lemma hex_DecodeString_Encode: "hex_DecodeString (hex_EncodeToString bs) = Inr bs"
  by (induction bs) (simp_all add: hex_EncodeToString_def fromHexChar_hexdigit byte_nibbles)

lemma hexdigit_fromHexChar:
  assumes "fromHexChar c = Some b"
  shows "hexdigit b = lower c \<and> unat b < 16"
proof -
  let ?P = "\<lambda>c. case fromHexChar c of None \<Rightarrow> True | Some b \<Rightarrow> hexdigit b = lower c \<and> unat b < 16"
  have "list_all (\<lambda>n. ?P (char_of n)) ([48..<58] @ [65..<71] @ [97..<103])"
    by (simp add: upt_rec hexdigit_def fromHexChar_def lower_def char_of_def bit_numeral_rec)
  moreover have "of_char c \<in> set ([48..<58] @ [65..<71] @ [97..<103])"
    unfolding set_append set_upt Un_iff atLeastLessThan_iff
    using assms by (simp add: fromHexChar_def Let_def split: if_splits)
  ultimately have "?P (char_of (of_char c :: nat))" unfolding list_all_iff by blast
  then show ?thesis using assms by simp
qed

lemma nibbles_of_or:
  fixes a b :: byte
  assumes "unat a < 16" "unat b < 16"
  shows "drop_bit 4 (push_bit 4 a OR b) = a" "(push_bit 4 a OR b) AND 15 = b"
proof -
  have self: "take_bit 4 x = x" if "unat x < 16" for x :: byte
    using that by (intro unsigned_word_eqI [where ?'a = nat]) (simp add: take_bit_eq_mod unat_mod)
  have hi: "n < 4" if "unat x < 16" "bit x n" for x :: byte and n
    using that self [of x] by (metis bit_take_bit_iff)
  show "drop_bit 4 (push_bit 4 a OR b) = a" using hi [OF assms(1)] hi [OF assms(2)]
    by (intro bit_eqI) (auto simp: bit_drop_bit_eq bit_or_iff bit_push_bit_iff dest: hi [OF assms(2)])
  have "(push_bit 4 a OR b) AND 15 = take_bit 4 (push_bit 4 a OR b)" by (simp add: take_bit_eq_mask mask_numeral)
  also have "\<dots> = b"
    by (intro bit_eqI) (auto simp: bit_take_bit_iff bit_or_iff bit_push_bit_iff dest: hi [OF assms(2)])
  finally show "(push_bit 4 a OR b) AND 15 = b" .
qed

lemma hex_EncodeToString_Decode: "hex_DecodeString s = Inr bs \<Longrightarrow> hex_EncodeToString bs = map lower s"
proof (induction s arbitrary: bs rule: hex_DecodeString.induct)
  case (3 c d cs)
  then obtain a b bs' where s: "fromHexChar c = Some a" "fromHexChar d = Some b" "hex_DecodeString cs = Inr bs'"
    "bs = (push_bit 4 a OR b) # bs'"
    by (auto split: option.splits sum.splits)
  with 3 have "hex_EncodeToString bs' = map lower cs" by simp
  then show ?case
    using hexdigit_fromHexChar [OF s(1)] hexdigit_fromHexChar [OF s(2)]
    by (simp add: s(4) hex_EncodeToString_def nibbles_of_or del: drop_bit_or)
qed (auto simp: hex_EncodeToString_def split: option.splits)

lemma length_hex_Encode [simp]: "length (hex_EncodeToString bs) = 2 * length bs"
  by (induction bs) (simp_all add: hex_EncodeToString_def)

section \<open>Decimal integers\<close>

datatype num_error = ErrSyntax | ErrRange

definition digit_val :: "char \<Rightarrow> nat option" where
  "digit_val c = (let n = of_char c :: nat in if 48 \<le> n \<and> n \<le> 57 then Some (n - 48) else None)"

text \<open>The loop of \<^verbatim>\<open>ParseUint\<close> in base 10 with 64 bits.\<close>

fun ParseUint_loop :: "nat \<Rightarrow> string \<Rightarrow> num_error + nat" where
  "ParseUint_loop n [] = Inr n"
| "ParseUint_loop n (c # cs) =
     (case digit_val c of
        None \<Rightarrow> Inl ErrSyntax
      | Some d \<Rightarrow>
          if n \<ge> (2 ^ 64 - 1) div 10 + 1 then Inl ErrRange
          else if n * 10 + d > 2 ^ 64 - 1 then Inl ErrRange
          else ParseUint_loop (n * 10 + d) cs)"

definition strip_sign :: "string \<Rightarrow> bool \<times> string" where
  "strip_sign s = (case s of
     c # cs \<Rightarrow> if c = CHR ''+'' then (False, cs) else if c = CHR ''-'' then (True, cs) else (False, s)
   | [] \<Rightarrow> (False, []))"

definition ParseInt :: "string \<Rightarrow> int \<times> num_error option" where
  "ParseInt s =
     (if s = [] then (0, Some ErrSyntax)
      else case strip_sign s of (neg, ds) \<Rightarrow>
        if ds = [] then (0, Some ErrSyntax)
        else case ParseUint_loop 0 ds of
          Inl ErrSyntax \<Rightarrow> (0, Some ErrSyntax)
        | Inl ErrRange \<Rightarrow> ((if neg then - (2 ^ 63) else 2 ^ 63 - 1), Some ErrRange)
        | Inr un \<Rightarrow>
            if \<not> neg \<and> un \<ge> 2 ^ 63 then (2 ^ 63 - 1, Some ErrRange)
            else if neg \<and> un > 2 ^ 63 then (- (2 ^ 63), Some ErrRange)
            else ((if neg then - int un else int un), None))"

fun atoi_loop :: "nat \<Rightarrow> string \<Rightarrow> nat option" where
  "atoi_loop n [] = Some n"
| "atoi_loop n (c # cs) = (case digit_val c of None \<Rightarrow> None | Some d \<Rightarrow> atoi_loop (n * 10 + d) cs)"

definition Atoi :: "string \<Rightarrow> int \<times> num_error option" where
  "Atoi s =
     (if 0 < length s \<and> length s < 19 then
        case strip_sign s of (neg, ds) \<Rightarrow>
          if ds = [] then (0, Some ErrSyntax)
          else case atoi_loop 0 ds of
            None \<Rightarrow> (0, Some ErrSyntax)
          | Some n \<Rightarrow> ((if neg then - int n else int n), None)
      else ParseInt s)"

definition digit_char :: "nat \<Rightarrow> char" where
  "digit_char d = ''0123456789'' ! d"

fun decimal :: "nat \<Rightarrow> string" where
  "decimal n = (if n < 10 then [digit_char n] else decimal (n div 10) @ [digit_char (n mod 10)])"

declare decimal.simps [simp del]

definition Itoa :: "int \<Rightarrow> string" where
  "Itoa i = (if i < 0 then CHR ''-'' # decimal (nat (- i)) else decimal (nat i))"

lemma digit_val_char: "d < 10 \<Longrightarrow> digit_val (digit_char d) = Some d"
proof -
  have "list_all (\<lambda>d. digit_val (digit_char d) = Some d) [0..<10]"
    by (simp add: upt_rec digit_val_def digit_char_def)
  then show "d < 10 \<Longrightarrow> ?thesis" by (simp add: list_all_iff)
qed

lemma digit_char_not_sign: "d < 10 \<Longrightarrow> digit_char d \<noteq> CHR ''+'' \<and> digit_char d \<noteq> CHR ''-''"
  using digit_val_char [of d] by (auto simp: digit_val_def)

lemma atoi_loop_decimal: "atoi_loop 0 (decimal n @ cs) = atoi_loop n cs"
proof (induction n arbitrary: cs rule: decimal.induct)
  case (1 n)
  then show ?case
    by (subst decimal.simps) (auto simp: digit_val_char)
qed

lemma ParseUint_loop_decimal: "n < 2 ^ 64 \<Longrightarrow> ParseUint_loop 0 (decimal n @ cs) = ParseUint_loop n cs"
proof (induction n arbitrary: cs rule: decimal.induct)
  case (1 n)
  then show ?case
    by (subst decimal.simps) (auto simp: digit_val_char)
qed

lemma decimal_nonempty: "decimal n \<noteq> []"
  by (subst decimal.simps) simp

lemma decimal_head: "\<exists>d cs. d < 10 \<and> decimal n = digit_char d # cs"
proof (induction n rule: decimal.induct)
  case (1 n)
  show ?case
  proof (cases "n < 10")
    case True
    then show ?thesis by (subst decimal.simps) auto
  next
    case False
    then obtain d cs where "d < 10" "decimal (n div 10) = digit_char d # cs" using 1 by blast
    then show ?thesis using False by (subst decimal.simps) auto
  qed
qed

lemma strip_sign_decimal: "strip_sign (decimal n) = (False, decimal n)"
proof -
  obtain d cs where "d < 10" "decimal n = digit_char d # cs" using decimal_head by blast
  then show ?thesis using digit_char_not_sign [of d] by (simp add: strip_sign_def)
qed

lemma Atoi_Itoa: "- (2 ^ 63) \<le> i \<Longrightarrow> i < 2 ^ 63 \<Longrightarrow> Atoi (Itoa i) = (i, None)"
proof -
  assume i: "- (2 ^ 63) \<le> i" "i < 2 ^ 63"
  define n where "n = nat \<bar>i\<bar>"
  have n: "n \<le> 2 ^ 63" "n < 2 ^ 64" "i \<ge> 0 \<Longrightarrow> n < 2 ^ 63" using i by (auto simp: n_def nat_le_iff nat_less_iff)
  have "strip_sign (Itoa i) = (i < 0, decimal n)"
    by (auto simp: Itoa_def n_def strip_sign_decimal) (simp add: strip_sign_def)
  moreover have "Itoa i \<noteq> []" by (simp add: Itoa_def decimal_nonempty)
  moreover have "int n = \<bar>i\<bar>" by (simp add: n_def)
  ultimately show ?thesis
    using n atoi_loop_decimal [of n "[]"] ParseUint_loop_decimal [of n "[]"] decimal_nonempty [of n]
    by (cases "i < 0") (auto simp: Atoi_def ParseInt_def)
qed

section \<open>Keys\<close>

definition NoisePublicKeySize :: nat where
  "NoisePublicKeySize = 32"

definition NoisePrivateKeySize :: nat where
  "NoisePrivateKeySize = 32"

type_synonym NoisePublicKey = bytes
type_synonym NoisePrivateKey = bytes
type_synonym NoiseSymmetricKey = bytes
type_synonym RootPrivateKey = int

definition NoisePrivateKey_Equals :: "NoisePrivateKey \<Rightarrow> NoisePrivateKey \<Rightarrow> bool" where
  "NoisePrivateKey_Equals key tar = (ConstantTimeCompare key tar = 1)"

definition NoisePrivateKey_IsZero :: "NoisePrivateKey \<Rightarrow> bool" where
  "NoisePrivateKey_IsZero key = NoisePrivateKey_Equals key (replicate NoisePrivateKeySize 0)"

definition NoisePrivateKey_FromHex :: "NoisePrivateKey \<Rightarrow> string \<Rightarrow> hex_error + NoisePrivateKey" where
  "NoisePrivateKey_FromHex key src = loadExactHex key src"

definition NoisePrivateKey_ToHex :: "NoisePrivateKey \<Rightarrow> string" where
  "NoisePrivateKey_ToHex key = hex_EncodeToString key"

definition RootPrivateKey_IsZero :: "RootPrivateKey \<Rightarrow> bool" where
  "RootPrivateKey_IsZero key = (if key = 0 then True else False)"

text \<open>The key is set even when the string is refused.\<close>

definition RootPrivateKey_FromString :: "string \<Rightarrow> RootPrivateKey \<times> num_error option" where
  "RootPrivateKey_FromString src = Atoi src"

definition RootPrivateKey_ToString :: "RootPrivateKey \<Rightarrow> string" where
  "RootPrivateKey_ToString key = Itoa key"

definition NoisePublicKey_FromHex :: "NoisePublicKey \<Rightarrow> string \<Rightarrow> hex_error + NoisePublicKey" where
  "NoisePublicKey_FromHex key src = loadExactHex key src"

definition NoisePublicKey_ToHex :: "NoisePublicKey \<Rightarrow> string" where
  "NoisePublicKey_ToHex key = hex_EncodeToString key"

definition NoisePublicKey_Equals :: "NoisePublicKey \<Rightarrow> NoisePublicKey \<Rightarrow> bool" where
  "NoisePublicKey_Equals key tar = (ConstantTimeCompare key tar = 1)"

definition NoisePublicKey_IsZero :: "NoisePublicKey \<Rightarrow> bool" where
  "NoisePublicKey_IsZero key = NoisePublicKey_Equals key (replicate NoisePublicKeySize 0)"

definition NoiseSymmetricKey_FromHex :: "NoiseSymmetricKey \<Rightarrow> string \<Rightarrow> hex_error + NoiseSymmetricKey" where
  "NoiseSymmetricKey_FromHex key src = loadExactHex key src"

definition NoiseSymmetricKey_ToHex :: "NoiseSymmetricKey \<Rightarrow> string" where
  "NoiseSymmetricKey_ToHex key = hex_EncodeToString key"

text \<open>A fresh private key from a draw of the random source; the key is clamped even when the source fails.\<close>

definition newPrivateKey :: "bytes \<times> bool \<Rightarrow> NoisePrivateKey \<times> bool" where
  "newPrivateKey draw =
     (let sk = copy_into (replicate NoisePrivateKeySize 0) (fst draw);
          sk = sk[0 := sk ! 0 AND 248];
          sk = sk[31 := sk ! 31 AND 127];
          sk = sk[31 := sk ! 31 OR 64]
      in (sk, snd draw))"

lemma length_newPrivateKey [simp]: "length (fst (newPrivateKey draw)) = 32"
  by (simp add: newPrivateKey_def Let_def NoisePrivateKeySize_def)

lemma Equals_iff [simp]:
  "NoisePublicKey_Equals a b \<longleftrightarrow> a = b" "NoisePrivateKey_Equals a b \<longleftrightarrow> a = b"
  by (simp_all add: NoisePublicKey_Equals_def NoisePrivateKey_Equals_def ConstantTimeCompare_iff)

lemma fromHexChar_lower: "fromHexChar (lower c) = fromHexChar c"
proof (cases "65 \<le> (of_char c :: nat) \<and> of_char c \<le> (70 :: nat)")
  case True
  then have "of_char (lower c) = (of_char c + 32 :: nat)" by (simp add: lower_def)
  then show ?thesis using True by (simp add: fromHexChar_def Let_def)
next
  case False
  then have "lower c = c" by (auto simp: lower_def Let_def)
  then show ?thesis by simp
qed

lemma hex_DecodeString_lower: "hex_DecodeString (map lower s) = Inr bs \<longleftrightarrow> hex_DecodeString s = Inr bs"
proof -
  have "(case hex_DecodeString (map lower s) of Inl _ \<Rightarrow> None | Inr b \<Rightarrow> Some b) =
      (case hex_DecodeString s of Inl _ \<Rightarrow> None | Inr b \<Rightarrow> Some b)"
    by (induction s rule: induct_list012) (auto simp: fromHexChar_lower split: option.splits sum.splits)
  then show ?thesis by (auto split: sum.splits)
qed

lemma loadExactHex_iff: "loadExactHex dst s = Inr k \<longleftrightarrow> length k = length dst \<and> map lower s = hex_EncodeToString k"
proof
  assume "loadExactHex dst s = Inr k"
  then have "hex_DecodeString s = Inr k" "length k = length dst"
    by (auto simp: loadExactHex_def split: sum.splits if_splits)
  then show "length k = length dst \<and> map lower s = hex_EncodeToString k" using hex_EncodeToString_Decode by simp
next
  assume k: "length k = length dst \<and> map lower s = hex_EncodeToString k"
  then have "hex_DecodeString s = Inr k" using hex_DecodeString_Encode hex_DecodeString_lower by metis
  then show "loadExactHex dst s = Inr k" using k by (simp add: loadExactHex_def)
qed

section \<open>Properties\<close>

text \<open>
  C25: a string is accepted as a public key, with the value \<open>k\<close>, exactly when \<open>k\<close> has 32 bytes and the string is the hexadecimal
  form of \<open>k\<close> in lower or upper case digits; in particular printing a key and reading it back gives the key.
\<close>

theorem public_key_hex:
  assumes "length dst = NoisePublicKeySize"
  shows "NoisePublicKey_FromHex dst s = Inr k \<longleftrightarrow> length k = NoisePublicKeySize \<and> map lower s = NoisePublicKey_ToHex k"
  using assms by (simp add: NoisePublicKey_FromHex_def NoisePublicKey_ToHex_def loadExactHex_iff)

text \<open>Witness of C25: a key in upper case digits.\<close>

theorem public_key_hex_witness:
  "NoisePublicKey_FromHex (replicate 32 0) (concat (replicate 32 ''A7'')) = Inr (replicate 32 167)"
proof -
  have "NoisePublicKey_ToHex (replicate 32 167) = concat (replicate 32 ''a7'')"
    by (simp add: NoisePublicKey_ToHex_def hex_EncodeToString_def hexdigit_def)
  moreover have "lower (CHR ''A'') = CHR ''a''" "lower (CHR ''7'') = CHR ''7''"
    by (simp_all add: lower_def char_of_def bit_numeral_rec bit_0)
  ultimately show ?thesis
    using public_key_hex [of "replicate 32 0" "concat (replicate 32 ''A7'')" "replicate 32 167"]
    by (simp add: NoisePublicKeySize_def map_concat)
qed



end
