(* ===== verification/Kdf.thy ===== *)
theory Kdf
  imports Blake2s NoiseTypes
begin

unbundle bit_operations_syntax

text \<open>
  The key derivation of \<^verbatim>\<open>noise-helpers.go\<close>: \<^verbatim>\<open>crypto/hmac\<close> of the Go library over the BLAKE2s digest, and the three
  derivation functions. They are proved to be HKDF (RFC 5869) over textbook HMAC on the one-shot hash.
\<close>

section \<open>Model\<close>

text \<open>
  \<^verbatim>\<open>crypto/hmac\<close> over any hash: \<open>start\<close> is a fresh digest. An HMAC in progress is the outer pad and the inner digest.
\<close>

definition hmac_New :: "'d \<Rightarrow> ('d \<Rightarrow> bytes \<Rightarrow> 'd) \<Rightarrow> ('d \<Rightarrow> bytes) \<Rightarrow> bytes \<Rightarrow> bytes \<times> 'd" where
  "hmac_New start write_to sum_of key =
     (let key = (if length key > BlockSize then sum_of (write_to start key) else key);
          ipad = copy_into (replicate BlockSize 0) key;
          opad = copy_into (replicate BlockSize 0) key;
          ipad = map (\<lambda>b. b XOR 0x36) ipad;
          opad = map (\<lambda>b. b XOR 0x5c) opad
      in (opad, write_to start ipad))"

definition hmac_Write :: "('d \<Rightarrow> bytes \<Rightarrow> 'd) \<Rightarrow> bytes \<times> 'd \<Rightarrow> bytes \<Rightarrow> bytes \<times> 'd" where
  "hmac_Write write_to mac p = (fst mac, write_to (snd mac) p)"

definition hmac_Sum :: "'d \<Rightarrow> ('d \<Rightarrow> bytes \<Rightarrow> 'd) \<Rightarrow> ('d \<Rightarrow> bytes) \<Rightarrow> bytes \<times> 'd \<Rightarrow> bytes" where
  "hmac_Sum start write_to sum_of mac = sum_of (write_to (write_to start (fst mac)) (sum_of (snd mac)))"

abbreviation new_hash :: digest where
  "new_hash \<equiv> the (New256 [])"

definition HMAC1 :: "bytes \<Rightarrow> bytes \<Rightarrow> bytes" where
  "HMAC1 key in0 =
     (let mac = hmac_New new_hash digest_Write digest_Sum key;
          mac = hmac_Write digest_Write mac in0
      in hmac_Sum new_hash digest_Write digest_Sum mac)"

definition HMAC2 :: "bytes \<Rightarrow> bytes \<Rightarrow> bytes \<Rightarrow> bytes" where
  "HMAC2 key in0 in1 =
     (let mac = hmac_New new_hash digest_Write digest_Sum key;
          mac = hmac_Write digest_Write mac in0;
          mac = hmac_Write digest_Write mac in1
      in hmac_Sum new_hash digest_Write digest_Sum mac)"

definition KDF1 :: "bytes \<Rightarrow> bytes \<Rightarrow> bytes" where
  "KDF1 key input =
     (let t0 = HMAC1 key input
      in HMAC1 t0 [0x1])"

definition KDF2 :: "bytes \<Rightarrow> bytes \<Rightarrow> bytes \<times> bytes" where
  "KDF2 key input =
     (let prk = HMAC1 key input;
          t0 = HMAC1 prk [0x1];
          t1 = HMAC2 prk t0 [0x2]
      in (t0, t1))"

definition KDF3 :: "bytes \<Rightarrow> bytes \<Rightarrow> bytes \<times> bytes \<times> bytes" where
  "KDF3 key input =
     (let prk = HMAC1 key input;
          t0 = HMAC1 prk [0x1];
          t1 = HMAC2 prk t0 [0x2];
          t2 = HMAC2 prk t1 [0x3]
      in (t0, t1, t2))"

section \<open>The contract of a streaming hash\<close>

definition hmac_spec :: "(bytes \<Rightarrow> bytes) \<Rightarrow> bytes \<Rightarrow> bytes \<Rightarrow> bytes" where
  "hmac_spec H key m =
     (let k = (if length key > 64 then H key else key);
          k = k @ replicate (64 - length k) 0
      in H (map (\<lambda>b. b XOR 0x5c) k @ H (map (\<lambda>b. b XOR 0x36) k @ m)))"

locale streaming_hash =
  fixes start :: 'd
    and write_to :: "'d \<Rightarrow> bytes \<Rightarrow> 'd"
    and sum_of :: "'d \<Rightarrow> bytes"
    and oneshot :: "bytes \<Rightarrow> bytes"
  assumes stream: "sum_of (foldl write_to start parts) = oneshot (concat parts)"
    and size: "length (oneshot m) = 32"
begin

lemma hmac_correct:
  "hmac_Sum start write_to sum_of (foldl (hmac_Write write_to) (hmac_New start write_to sum_of key) parts) =
     hmac_spec oneshot key (concat parts)"
proof -
  have w: "foldl (hmac_Write write_to) (o0, d) parts = (o0, foldl write_to d parts)" for o0 d
    by (induction parts arbitrary: d) (simp_all add: hmac_Write_def)
  have key: "sum_of (write_to start key) = oneshot key" using stream [of "[key]"] by simp
  define k where "k = (if length key > 64 then oneshot key else key)"
  then have len: "length k \<le> 64" using size by auto
  then have pad: "copy_into (replicate 64 0) k = k @ replicate (64 - length k) 0" by (simp add: copy_into_def)
  have "hmac_New start write_to sum_of key =
      (map (\<lambda>b. b XOR 0x5c) (copy_into (replicate 64 0) k), write_to start (map (\<lambda>b. b XOR 0x36) (copy_into (replicate 64 0) k)))"
    by (simp add: hmac_New_def Let_def BlockSize_def k_def key)
  moreover have "foldl write_to (write_to start i) parts = foldl write_to start (i # parts)" for i by simp
  moreover have "sum_of (write_to (write_to start a) b) = oneshot (a @ b)" for a b using stream [of "[a, b]"] by simp
  ultimately show ?thesis
    by (simp add: hmac_Sum_def w stream pad hmac_spec_def Let_def k_def [symmetric] del: foldl_Cons)
qed

end

lemma newDigest_unkeyed: "newDigest Size [] = Some new_hash"
  by (simp add: New256_def newDigest_def)

interpretation blake: streaming_hash new_hash digest_Write digest_Sum Sum256
proof unfold_locales
  show "digest_Sum (foldl digest_Write new_hash parts) = Sum256 (concat parts)" for parts
    using digest_stream [OF newDigest_unkeyed, of parts]
    by (simp add: key_block_def Sum256_def checkSum_message Size_def hash_message_def)
qed simp

lemma HMAC1_spec: "HMAC1 key in0 = hmac_spec Sum256 key in0"
  using blake.hmac_correct [of key "[in0]"] by (simp add: HMAC1_def)

lemma HMAC2_spec: "HMAC2 key in0 in1 = hmac_spec Sum256 key (in0 @ in1)"
  using blake.hmac_correct [of key "[in0, in1]"] by (simp add: HMAC2_def)

lemma length_hmac_spec [simp]: "length (hmac_spec Sum256 key m) = 32"
  by (simp add: hmac_spec_def Let_def)

lemma length_KDF [simp]:
  "length (KDF1 key input) = 32" "length (fst (KDF2 key input)) = 32" "length (snd (KDF2 key input)) = 32"
  "length (fst (KDF3 key input)) = 32" "length (fst (snd (KDF3 key input))) = 32" "length (snd (snd (KDF3 key input))) = 32"
  by (simp_all add: KDF1_def KDF2_def KDF3_def Let_def HMAC1_spec HMAC2_spec)

section \<open>Properties\<close>

text \<open>HKDF of RFC 5869: extract with the salt, then expand block by block with an empty info.\<close>

fun hkdf_block :: "(bytes \<Rightarrow> bytes \<Rightarrow> bytes) \<Rightarrow> bytes \<Rightarrow> nat \<Rightarrow> bytes" where
  "hkdf_block mac prk 0 = []"
| "hkdf_block mac prk (Suc i) = mac prk (hkdf_block mac prk i @ [of_nat (Suc i)])"

text \<open>
  C28: the derivation functions return the first one, two and three output blocks of HKDF with the chaining key as salt and the
  shared secret as input key material, over HMAC with BLAKE2s.
\<close>

theorem kdf_is_hkdf:
  "let prk = hmac_spec Sum256 key input; T = hkdf_block (hmac_spec Sum256) prk in
     KDF1 key input = T 1 \<and> KDF2 key input = (T 1, T 2) \<and> KDF3 key input = (T 1, T 2, T 3)"
  by (simp add: KDF1_def KDF2_def KDF3_def Let_def HMAC1_spec HMAC2_spec numeral_eq_Suc)

end
