(* ===== verification/ChaCha20.thy ===== *)
theory ChaCha20
  imports GoLib
begin

unbundle bit_operations_syntax

text \<open>
  The ChaCha20 stream cipher of the vendored package \<^verbatim>\<open>golang.org/x/crypto/internal/chacha20\<close> on the platforms without
  assembly, with its precomputed first round and its buffer of unused key stream. It is proved to be the
  exclusive or with the key stream of RFC 7539, whatever the calls it is spread over.
\<close>

section \<open>Model\<close>

definition j0 :: u32 where "j0 = 0x61707865"
definition j1 :: u32 where "j1 = 0x3320646e"
definition j2 :: u32 where "j2 = 0x79622d32"
definition j3 :: u32 where "j3 = 0x6b206574"

definition rotate_left :: "nat \<Rightarrow> u32 \<Rightarrow> u32" where
  "rotate_left n w = push_bit n w OR drop_bit (32 - n) w"

definition quarterRound :: "u32 \<Rightarrow> u32 \<Rightarrow> u32 \<Rightarrow> u32 \<Rightarrow> u32 \<times> u32 \<times> u32 \<times> u32" where
  "quarterRound a b c d =
     (let a = a + b; d = d XOR a; d = rotate_left 16 d;
          c = c + d; b = b XOR c; b = rotate_left 12 b;
          a = a + b; d = d XOR a; d = rotate_left 8 d;
          c = c + d; b = b XOR c; b = rotate_left 7 b
      in (a, b, c, d))"

definition round_at :: "nat \<times> nat \<times> nat \<times> nat \<Rightarrow> u32 list \<Rightarrow> u32 list" where
  "round_at pos x =
     (case pos of (a, b, c, d) \<Rightarrow>
      case quarterRound (x ! a) (x ! b) (x ! c) (x ! d) of (xa, xb, xc, xd) \<Rightarrow>
        x[a := xa, b := xb, c := xc, d := xd])"

definition column_round :: "u32 list \<Rightarrow> u32 list" where
  "column_round x = fold round_at [(0, 4, 8, 12), (1, 5, 9, 13), (2, 6, 10, 14), (3, 7, 11, 15)] x"

definition diagonal_round :: "u32 list \<Rightarrow> u32 list" where
  "diagonal_round x = fold round_at [(0, 5, 10, 15), (1, 6, 11, 12), (2, 7, 8, 13), (3, 4, 9, 14)] x"

record Cipher =
  ch_key :: "u32 list"
  ch_counter :: u32
  ch_nonce :: "u32 list"
  ch_buf :: bytes
  ch_len :: nat

definition Cipher_New :: "u32 list \<Rightarrow> u32 list \<Rightarrow> Cipher" where
  "Cipher_New key nonce =
     \<lparr>ch_key = key, ch_counter = 0, ch_nonce = nonce, ch_buf = replicate 64 0, ch_len = 0\<rparr>"

text \<open>The sixteen words of one block, with the part of the first round that does not depend on the counter.\<close>

definition block_words :: "u32 list \<Rightarrow> u32 \<Rightarrow> u32 list \<Rightarrow> u32 list" where
  "block_words key counter nonce =
     (let (s1, s5, s9, s13) = quarterRound j1 (key ! 1) (key ! 5) (nonce ! 0);
          (s2, s6, s10, s14) = quarterRound j2 (key ! 2) (key ! 6) (nonce ! 1);
          (s3, s7, s11, s15) = quarterRound j3 (key ! 3) (key ! 7) (nonce ! 2);
          (s0, s4, s8, s12) = quarterRound j0 (key ! 0) (key ! 4) counter;
          x = diagonal_round [s0, s1, s2, s3, s4, s5, s6, s7, s8, s9, s10, s11, s12, s13, s14, s15];
          x = ((\<lambda>x. diagonal_round (column_round x)) ^^ 9) x
      in map2 (+) x ([j0, j1, j2, j3] @ key @ [counter] @ nonce))"

definition xor_word :: "bytes \<Rightarrow> u32 \<Rightarrow> bytes" where
  "xor_word src u = put_le32 (le_u32 src XOR u)"

fun xor_words :: "bytes \<Rightarrow> u32 list \<Rightarrow> bytes" where
  "xor_words src [] = []"
| "xor_words src (u # us) = xor_word src u @ xor_words (drop 4 src) us"

text \<open>
  The main loop on the rest of the source. The last block, when it is not a whole one, is padded in the buffer, whose
  remaining bytes keep the unused key stream.
\<close>

function xor_blocks :: "Cipher \<Rightarrow> bytes \<Rightarrow> (bytes \<times> Cipher) option" where
  "xor_blocks s src =
     (if src = [] then Some ([], s)
      else
        let words = block_words (ch_key s) (ch_counter s) (ch_nonce s);
            s = s\<lparr>ch_counter := ch_counter s + 1\<rparr>
        in if ch_counter s = 0 then None
           else if length src < 64 then
             let buf = xor_words (copy_into (ch_buf s) src) words
             in Some (take (length src) buf, s\<lparr>ch_buf := buf, ch_len := 64 - length src\<rparr>)
           else
             do { (out, s) \<leftarrow> xor_blocks s (drop 64 src); Some (xor_words (take 64 src) words @ out, s) })"
  by pat_completeness auto
termination by (relation "measure (\<lambda>(_, src). length src)") simp_all

declare xor_blocks.simps [simp del]

definition XORKeyStream :: "Cipher \<Rightarrow> bytes \<Rightarrow> (bytes \<times> Cipher) option" where
  "XORKeyStream s src =
     (let buf = drop (64 - ch_len s) (ch_buf s);
          buf = (if length src < length buf then take (length src) buf else buf);
          out = map2 (XOR) (take (length buf) src) buf;
          s1 = s\<lparr>ch_len := ch_len s - length buf\<rparr>
      in if ch_len s \<noteq> 0 \<and> ch_len s1 \<noteq> 0 then Some (out, s1)
         else
           let (out, s, src) =
             (if ch_len s \<noteq> 0 then (out, s1\<lparr>ch_buf := replicate 64 0\<rparr>, drop (length buf) src) else ([], s, src))
           in do { (out', s) \<leftarrow> xor_blocks s src; Some (out @ out', s) })"

definition Cipher_Advance :: "Cipher \<Rightarrow> Cipher" where
  "Cipher_Advance s =
     (let s = s\<lparr>ch_len := ch_len s - ch_len s mod 64\<rparr>
      in if ch_len s = 0 then s\<lparr>ch_buf := replicate 64 0\<rparr> else s)"

section \<open>The block function\<close>

text \<open>The block of RFC 7539: ten double rounds on the initial state, added to it.\<close>

definition initial_words :: "u32 list \<Rightarrow> u32 \<Rightarrow> u32 list \<Rightarrow> u32 list" where
  "initial_words key counter nonce = [j0, j1, j2, j3] @ key @ [counter] @ nonce"

definition rfc_block_words :: "u32 list \<Rightarrow> u32 \<Rightarrow> u32 list \<Rightarrow> u32 list" where
  "rfc_block_words key counter nonce =
     map2 (+) (((\<lambda>x. diagonal_round (column_round x)) ^^ 10) (initial_words key counter nonce)) (initial_words key counter nonce)"

lemma length_list_8:
  assumes "length xs = 8"
  obtains a b c d e f g h where "xs = [a, b, c, d, e, f, g, h]"
  using assms by (auto simp: numeral_eq_Suc length_Suc_conv)

lemma length_list_3:
  assumes "length xs = 3"
  obtains a b c where "xs = [a, b, c]"
  using assms by (auto simp: numeral_eq_Suc length_Suc_conv)

lemma block_words_rfc:
  assumes "length key = 8" "length nonce = 3"
  shows "block_words key counter nonce = rfc_block_words key counter nonce"
proof -
  obtain k0 k1 k2 k3 k4 k5 k6 k7 where k: "key = [k0, k1, k2, k3, k4, k5, k6, k7]" using assms(1) by (rule length_list_8)
  obtain n0 n1 n2 where n: "nonce = [n0, n1, n2]" using assms(2) by (rule length_list_3)
  obtain s0 s4 s8 s12 where q0: "quarterRound j0 k0 k4 counter = (s0, s4, s8, s12)" by (rule prod_cases4)
  obtain s1 s5 s9 s13 where q1: "quarterRound j1 k1 k5 n0 = (s1, s5, s9, s13)" by (rule prod_cases4)
  obtain s2 s6 s10 s14 where q2: "quarterRound j2 k2 k6 n1 = (s2, s6, s10, s14)" by (rule prod_cases4)
  obtain s3 s7 s11 s15 where q3: "quarterRound j3 k3 k7 n2 = (s3, s7, s11, s15)" by (rule prod_cases4)
  have col: "column_round (initial_words key counter nonce) =
      [s0, s1, s2, s3, s4, s5, s6, s7, s8, s9, s10, s11, s12, s13, s14, s15]"
    by (simp add: column_round_def round_at_def initial_words_def k n q0 q1 q2 q3)
  have ten: "(f ^^ 10) x = (f ^^ 9) (f x)" for f :: "u32 list \<Rightarrow> u32 list" and x
    using funpow_Suc_right [of 9 f] by (simp del: funpow.simps)
  show ?thesis
    unfolding rfc_block_words_def ten col
    by (simp add: block_words_def k n q0 q1 q2 q3 initial_words_def)
qed

lemma length_round_at [simp]: "length (round_at pos x) = length x"
  by (simp add: round_at_def split: prod.splits)

lemma length_rounds [simp]: "length (column_round x) = length x" "length (diagonal_round x) = length x"
  by (simp_all add: column_round_def diagonal_round_def)

lemma length_block_words [simp]:
  assumes "length key = 8" "length nonce = 3"
  shows "length (block_words key counter nonce) = 16"
proof -
  have "length (((\<lambda>x. diagonal_round (column_round x)) ^^ n) x) = length x" for n x by (induction n) simp_all
  then show ?thesis using assms by (simp add: block_words_rfc rfc_block_words_def initial_words_def)
qed

section \<open>The key stream\<close>

definition stream_block :: "u32 list \<Rightarrow> u32 list \<Rightarrow> u32 \<Rightarrow> bytes" where
  "stream_block key nonce counter = concat (map put_le32 (rfc_block_words key counter nonce))"

lemma length_concat_put [simp]: "length (concat (map put_le32 ws)) = 4 * length ws"
  by (induction ws) simp_all

lemma put_le32_xor: "put_le32 (a XOR b) = map2 (XOR) (put_le32 a) (put_le32 b)"
proof (rule nth_equalityI)
  fix i
  assume "i < length (put_le32 (a XOR b))"
  then have i: "i < 4" by simp
  show "put_le32 (a XOR b) ! i = map2 (XOR) (put_le32 a) (put_le32 b) ! i"
  proof (rule bit_eqI)
    fix n
    assume "possible_bit TYPE(8 word) n"
    then have "n < 8" by simp
    with i show "bit (put_le32 (a XOR b) ! i) n = bit (map2 (XOR) (put_le32 a) (put_le32 b) ! i) n"
      by (simp add: bit_put_le32 bit_xor_iff)
  qed
qed simp

lemma xor_words_stream:
  "length src = 4 * length us \<Longrightarrow> xor_words src us = map2 (XOR) src (concat (map put_le32 us))"
proof (induction us arbitrary: src)
  case (Cons u us)
  have t: "put_le32 (le_u32 src) = take 4 src"
    using put_le_u32 [of "take 4 src"] take_le_u32 [of src] Cons.prems by simp
  have "map2 (XOR) src (put_le32 u @ concat (map put_le32 us)) =
      map2 (XOR) (take 4 src @ drop 4 src) (put_le32 u @ concat (map put_le32 us))" by simp
  also have "\<dots> = map2 (XOR) (take 4 src) (put_le32 u) @ map2 (XOR) (drop 4 src) (concat (map put_le32 us))"
    using Cons.prems by (subst zip_append) simp_all
  finally show ?case using Cons t by (simp add: xor_word_def put_le32_xor)
qed simp

text \<open>The byte at a position of the key stream of a key and nonce.\<close>

definition stream_byte :: "u32 list \<Rightarrow> u32 list \<Rightarrow> nat \<Rightarrow> byte" where
  "stream_byte key nonce i = stream_block key nonce (of_nat (i div 64)) ! (i mod 64)"

definition xor_stream :: "u32 list \<Rightarrow> u32 list \<Rightarrow> nat \<Rightarrow> bytes \<Rightarrow> bytes" where
  "xor_stream key nonce pos src = map (\<lambda>i. src ! i XOR stream_byte key nonce (pos + i)) [0..<length src]"

definition blocks_for :: "nat \<Rightarrow> nat" where
  "blocks_for n = (n + 63) div 64"

text \<open>A cipher that has produced the first \<open>n\<close> bytes of the stream.\<close>

definition at_pos :: "u32 list \<Rightarrow> u32 list \<Rightarrow> nat \<Rightarrow> Cipher \<Rightarrow> bool" where
  "at_pos key nonce n s \<longleftrightarrow> length key = 8 \<and> length nonce = 3 \<and> ch_key s = key \<and> ch_nonce s = nonce \<and>
     length (ch_buf s) = 64 \<and> ch_counter s = of_nat (blocks_for n) \<and> ch_len s = blocks_for n * 64 - n \<and>
     (ch_len s = 0 \<longrightarrow> ch_buf s = replicate 64 0) \<and>
     (\<forall>i < ch_len s. ch_buf s ! (64 - ch_len s + i) = stream_byte key nonce (n + i))"

lemma length_stream_block [simp]: "length key = 8 \<Longrightarrow> length nonce = 3 \<Longrightarrow> length (stream_block key nonce c) = 64"
  by (simp add: stream_block_def flip: block_words_rfc)

lemma length_xor_stream [simp]: "length (xor_stream key nonce pos src) = length src"
  by (simp add: xor_stream_def)

lemma xor_stream_append:
  "xor_stream key nonce pos (a @ b) = xor_stream key nonce pos a @ xor_stream key nonce (pos + length a) b"
  by (rule nth_equalityI) (auto simp: xor_stream_def nth_append add.assoc)

lemma xor_stream_involution: "xor_stream key nonce pos (xor_stream key nonce pos src) = src"
  by (rule nth_equalityI) (auto simp: xor_stream_def xor.assoc)

lemma blocks_for_props: "n \<le> blocks_for n * 64" "blocks_for n * 64 - n < 64" "64 dvd n \<Longrightarrow> blocks_for n * 64 = n"
proof -
  have "blocks_for n * 64 + (n + 63) mod 64 = n + 63" unfolding blocks_for_def by (simp only: div_mult_mod_eq)
  moreover have "(n + 63) mod 64 < 64" by simp
  ultimately show "n \<le> blocks_for n * 64" "blocks_for n * 64 - n < 64" by linarith+
  show "64 dvd n \<Longrightarrow> blocks_for n * 64 = n" by (auto simp: blocks_for_def elim!: dvdE)
qed

lemma blocks_for_less: "0 < r \<Longrightarrow> r \<le> 64 \<Longrightarrow> blocks_for (64 * q + r) = Suc q"
  using div_mult_self4 [of 64 q "r + 63"] by (simp add: blocks_for_def add.assoc)

lemma blocks_for_mult: "blocks_for (64 * q) = q"
  using blocks_for_props(3) [of "64 * q"] by simp

lemma counter_step:
  assumes "q < 2 ^ 31"
  shows "(of_nat q + 1 :: u32) \<noteq> 0"
proof -
  have "unat (of_nat (Suc q) :: u32) = Suc q" using assms by (simp add: unat_of_nat del: of_nat_Suc)
  then show ?thesis by (metis add.commute nat.distinct(1) of_nat_Suc unsigned_0)
qed

text \<open>A source of whole blocks and a remainder, from a block boundary.\<close>

lemma xor_words_block:
  assumes "at_pos key nonce (64 * q) s" "length src = 64"
  shows "xor_words src (block_words key (of_nat q) nonce) = xor_stream key nonce (64 * q) src"
proof -
  have l: "length key = 8" "length nonce = 3" using assms by (simp_all add: at_pos_def)
  have "xor_words src (block_words key (of_nat q) nonce) = map2 (XOR) src (stream_block key nonce (of_nat q))"
    using l assms(2) xor_words_stream [of src "block_words key (of_nat q) nonce"]
    by (simp add: block_words_rfc stream_block_def flip: length_block_words [OF l, of "of_nat q"])
  also have "\<dots> = xor_stream key nonce (64 * q) src"
    by (rule nth_equalityI) (simp_all add: l assms(2) xor_stream_def stream_byte_def)
  finally show ?thesis .
qed

lemma xor_blocks_tail:
  assumes "at_pos key nonce (64 * q) s" "q < 2 ^ 31" "src \<noteq> []" "length src < 64"
  shows "\<exists>s'. xor_blocks s src = Some (xor_stream key nonce (64 * q) src, s') \<and> at_pos key nonce (64 * q + length src) s'"
proof -
  let ?n = "length src" and ?buf = "copy_into (ch_buf s) src"
  have s: "ch_key s = key" "ch_nonce s = nonce" "ch_counter s = of_nat q" "ch_buf s = replicate 64 0" "length key = 8" "length nonce = 3"
    using assms(1) by (auto simp: at_pos_def blocks_for_mult)
  let ?w = "xor_words ?buf (block_words key (of_nat q) nonce)"
  have w: "?w = xor_stream key nonce (64 * q) ?buf" using assms(1) by (rule xor_words_block) (simp add: s)
  have buf: "?buf = src @ replicate (64 - ?n) 0" using assms(4) by (simp add: s copy_into_def)
  have out: "take ?n ?w = xor_stream key nonce (64 * q) src" unfolding w unfolding buf xor_stream_append by simp
  have rest: "?w ! (?n + i) = stream_byte key nonce (64 * q + ?n + i)" if "i < 64 - ?n" for i
    unfolding w unfolding buf xor_stream_append using that by (simp add: nth_append xor_stream_def)
  let ?s = "s\<lparr>ch_counter := of_nat q + 1, ch_buf := ?w, ch_len := 64 - ?n\<rparr>"
  have "xor_blocks s src = Some (take ?n ?w, ?s)"
    using assms(3,4) counter_step [OF assms(2)] by (simp add: xor_blocks.simps [of s src] s Let_def)
  moreover have b: "blocks_for (64 * q + ?n) = Suc q" using assms(3,4) by (intro blocks_for_less) auto
  have "length ?w = 64" unfolding w by (simp add: s)
  then have "at_pos key nonce (64 * q + ?n) ?s"
    using assms(4) rest by (auto simp: at_pos_def s b)
  ultimately show ?thesis unfolding out by blast
qed

lemma xor_blocks_stream:
  assumes "at_pos key nonce (64 * q) s" "q + length src < 2 ^ 31"
  shows "\<exists>s'. xor_blocks s src = Some (xor_stream key nonce (64 * q) src, s') \<and> at_pos key nonce (64 * q + length src) s'"
  using assms
proof (induction s src arbitrary: q rule: xor_blocks.induct)
  case (1 s src)
  consider "src = []" | "src \<noteq> []" "length src < 64" | "64 \<le> length src" by linarith
  then show ?case
  proof cases
    case 1
    then show ?thesis using "1.prems" by (simp add: xor_blocks.simps [of s "[]"] xor_stream_def)
  next
    case 2
    then show ?thesis using "1.prems" by (intro xor_blocks_tail) auto
  next
    case 3
    have s: "ch_key s = key" "ch_nonce s = nonce" "ch_counter s = of_nat q" using "1.prems" by (auto simp: at_pos_def blocks_for_mult)
    let ?s = "s\<lparr>ch_counter := of_nat q + 1\<rparr>"
    have "src \<noteq> []" using 3 by auto
    have step: "of_nat q + 1 \<noteq> (0 :: u32)" using "1.prems" by (intro counter_step) simp
    have "at_pos key nonce (64 * Suc q) ?s"
      using "1.prems"(1) blocks_for_mult [of "Suc q"] by (auto simp: at_pos_def blocks_for_mult add.commute)
    moreover have "Suc q + length (drop 64 src) < 2 ^ 31" using 3 "1.prems"(2) by simp
    ultimately have "\<exists>s'. xor_blocks ?s (drop 64 src) = Some (xor_stream key nonce (64 * Suc q) (drop 64 src), s') \<and>
        at_pos key nonce (64 * Suc q + length (drop 64 src)) s'"
      using "1.IH" [of "block_words key (of_nat q) nonce" ?s "Suc q"] 3 step \<open>src \<noteq> []\<close> by (auto simp: s)
    then obtain s' where s': "xor_blocks ?s (drop 64 src) = Some (xor_stream key nonce (64 * Suc q) (drop 64 src), s')"
      "at_pos key nonce (64 * q + length src) s'" using 3 by (auto simp: algebra_simps)
    have "xor_words (take 64 src) (block_words key (of_nat q) nonce) = xor_stream key nonce (64 * q) (take 64 src)"
      using "1.prems"(1) by (rule xor_words_block) (simp add: 3)
    moreover have "xor_stream key nonce (64 * q) (take 64 src) @ xor_stream key nonce (64 * Suc q) (drop 64 src) =
        xor_stream key nonce (64 * q) src"
      using xor_stream_append [of key nonce "64 * q" "take 64 src" "drop 64 src"] 3 by (simp add: min_absorb2 add.commute)
    ultimately have "xor_blocks s src = Some (xor_stream key nonce (64 * q) src, s')"
      using 3 step s' \<open>src \<noteq> []\<close> by (auto simp: xor_blocks.simps [of s src] s Let_def)
    then show ?thesis using s'(2) by blast
  qed
qed

text \<open>A call at any position, and skipping to the next block.\<close>

lemma at_pos_boundary: "at_pos key nonce n s \<Longrightarrow> ch_len s = 0 \<Longrightarrow> \<exists>q. n = 64 * q"
  using blocks_for_props [of n] by (intro exI [of _ "blocks_for n"]) (simp add: at_pos_def)

lemma XORKeyStream_stream:
  assumes "at_pos key nonce n s" "n + length src < 2 ^ 31"
  shows "\<exists>s'. XORKeyStream s src = Some (xor_stream key nonce n src, s') \<and> at_pos key nonce (n + length src) s'"
proof (cases "ch_len s = 0")
  case True
  then obtain q where q: "n = 64 * q" using at_pos_boundary [OF assms(1)] by blast
  with xor_blocks_stream [of key nonce q s src] assms obtain s' where
    "xor_blocks s src = Some (xor_stream key nonce n src, s')" "at_pos key nonce (n + length src) s'" by auto
  then show ?thesis using True by (simp add: XORKeyStream_def Let_def)
next
  case False
  let ?l = "ch_len s" and ?m = "min (length src) (ch_len s)"
  have l: "?l = blocks_for n * 64 - n" "?l < 64" "n + ?l = 64 * blocks_for n" "length (ch_buf s) = 64"
    "length key = 8" "length nonce = 3" "ch_key s = key" "ch_nonce s = nonce"
    using assms(1) blocks_for_props [of n] by (simp_all add: at_pos_def)
  have buf: "ch_buf s ! (64 - ?l + i) = stream_byte key nonce (n + i)" if "i < ?l" for i
    using assms(1) that unfolding at_pos_def by blast
  define b where "b = take ?m (drop (64 - ?l) (ch_buf s))"
  have b: "(if length src < length (drop (64 - ?l) (ch_buf s)) then take (length src) (drop (64 - ?l) (ch_buf s))
      else drop (64 - ?l) (ch_buf s)) = b" "length b = ?m"
    using l by (auto simp: b_def min_def)
  have out: "map2 (XOR) (take ?m src) b = xor_stream key nonce n (take ?m src)"
    by (rule nth_equalityI) (use l buf in \<open>auto simp: b_def xor_stream_def\<close>)
  show ?thesis
  proof (cases "length src < ?l")
    case True
    let ?s = "s\<lparr>ch_len := ?l - length src\<rparr>"
    have "blocks_for (n + length src) = blocks_for n"
    proof -
      obtain q where q: "blocks_for n = Suc q" using False l by (cases "blocks_for n") auto
      have "n + length src = 64 * q + (64 - ?l + length src)" using l q by simp
      then show ?thesis using True l q blocks_for_less [of "64 - ?l + length src" q] by simp
    qed
    then have "at_pos key nonce (n + length src) ?s"
      using assms(1) True buf [of "length src + _"] l by (auto simp: at_pos_def add.assoc)
    moreover have "XORKeyStream s src = Some (xor_stream key nonce n src, ?s)"
      using True False out b by (simp add: XORKeyStream_def Let_def min_def)
    ultimately show ?thesis by blast
  next
    case ge: False
    let ?s = "s\<lparr>ch_len := 0, ch_buf := replicate 64 0\<rparr>" and ?q = "blocks_for n"
    have m: "?m = ?l" using ge by simp
    have "at_pos key nonce (64 * ?q) ?s" using assms(1) by (simp add: at_pos_def blocks_for_mult)
    moreover have "?q + length (drop ?l src) < 2 ^ 31"
    proof -
      have "64 * ?q + length (drop ?l src) < 2 ^ 31" using assms(2) l ge by simp
      then show ?thesis by simp
    qed
    ultimately obtain s' where s': "xor_blocks ?s (drop ?l src) = Some (xor_stream key nonce (64 * ?q) (drop ?l src), s')"
      "at_pos key nonce (64 * ?q + length (drop ?l src)) s'" using xor_blocks_stream by blast
    have "xor_stream key nonce n (take ?l src) @ xor_stream key nonce (64 * ?q) (drop ?l src) = xor_stream key nonce n src"
      using xor_stream_append [of key nonce n "take ?l src" "drop ?l src"] l(3) ge by (simp add: min_absorb2)
    then have "XORKeyStream s src = Some (xor_stream key nonce n src, s')"
      using False out b s' m by (simp add: XORKeyStream_def Let_def)
    moreover have "64 * ?q + length (drop ?l src) = n + length src" using l ge by simp
    ultimately show ?thesis using s'(2) by auto
  qed
qed

lemma Cipher_New_at_pos: "length key = 8 \<Longrightarrow> length nonce = 3 \<Longrightarrow> at_pos key nonce 0 (Cipher_New key nonce)"
  by (simp add: at_pos_def Cipher_New_def blocks_for_def)

lemma Cipher_Advance_at_pos: "at_pos key nonce n s \<Longrightarrow> at_pos key nonce (64 * blocks_for n) (Cipher_Advance s)"
  using blocks_for_props(2) [of n] by (simp add: at_pos_def Cipher_Advance_def Let_def blocks_for_mult)

section \<open>Properties\<close>

fun xor_calls :: "Cipher \<Rightarrow> bytes list \<Rightarrow> (bytes \<times> Cipher) option" where
  "xor_calls s [] = Some ([], s)"
| "xor_calls s (p # ps) = do { (out, s) \<leftarrow> XORKeyStream s p; (outs, s) \<leftarrow> xor_calls s ps; Some (out @ outs, s) }"

lemma xor_calls_stream:
  "at_pos key nonce n s \<Longrightarrow> n + length (concat ps) < 2 ^ 31 \<Longrightarrow>
     \<exists>s'. xor_calls s ps = Some (xor_stream key nonce n (concat ps), s') \<and> at_pos key nonce (n + length (concat ps)) s'"
proof (induction ps arbitrary: s n)
  case Nil
  then show ?case by (simp add: xor_stream_def)
next
  case (Cons p ps)
  then obtain s1 where s1: "XORKeyStream s p = Some (xor_stream key nonce n p, s1)" "at_pos key nonce (n + length p) s1"
    using XORKeyStream_stream [of key nonce n s p] by auto
  then show ?case using Cons.IH [OF s1(2)] Cons.prems(2) by (auto simp: xor_stream_append add.assoc)
qed

text \<open>
  C29: however the data is cut into calls, the cipher does not panic (for less than two gigabytes), and the outputs are together the
  exclusive or of the data with the key stream of RFC 7539, block \<open>i\<close> of which is the block function at counter \<open>i\<close>.
\<close>

theorem chacha20_keystream:
  assumes "length key = 8" "length nonce = 3" "length (concat ps) < 2 ^ 31"
  shows "\<exists>s'. xor_calls (Cipher_New key nonce) ps =
    Some (map (\<lambda>i. concat ps ! i XOR concat (map put_le32 (rfc_block_words key (of_nat (i div 64)) nonce)) ! (i mod 64))
      [0..<length (concat ps)], s')"
  using xor_calls_stream [OF Cipher_New_at_pos [OF assms(1,2)], of ps] assms(3)
  by (auto simp: xor_stream_def stream_byte_def stream_block_def)

text \<open>Witness of C29: three calls that end inside a block.\<close>

theorem chacha20_keystream_witness:
  "\<exists>s'. xor_calls (Cipher_New (replicate 8 1) (replicate 3 2)) [[1, 2], replicate 100 3, [4]] =
    Some (map (\<lambda>i. concat [[1, 2], replicate 100 3, [4]] ! i XOR
      concat (map put_le32 (rfc_block_words (replicate 8 1) (of_nat (i div 64)) (replicate 3 2))) ! (i mod 64)) [0..<103], s')"
  using chacha20_keystream [of "replicate 8 1" "replicate 3 2" "[[1, 2], replicate 100 3, [4]]"] by simp

end
