(* ===== verification/Poly1305.thy ===== *)
theory Poly1305
  imports NoiseTypes
begin

unbundle bit_operations_syntax

text \<open>
  The one-time authenticator of the vendored package \<^verbatim>\<open>golang.org/x/crypto/poly1305\<close> on the platforms without assembly:
  five 26-bit limbs in 32-bit words, products in 64-bit words.
\<close>

section \<open>Model\<close>

definition TagSize :: nat where
  "TagSize = 16"

type_synonym limbs = "u32 \<times> u32 \<times> u32 \<times> u32 \<times> u32"
type_synonym wide_limbs = "u64 \<times> u64 \<times> u64 \<times> u64 \<times> u64"

text \<open>The \<open>r\<close> part of the key, clamped.\<close>

definition poly_r :: "bytes \<Rightarrow> wide_limbs" where
  "poly_r key =
     (ucast (le_u32 key AND 0x3ffffff),
      ucast (drop_bit 2 (le_u32 (drop 3 key)) AND 0x3ffff03),
      ucast (drop_bit 4 (le_u32 (drop 6 key)) AND 0x3ffc0ff),
      ucast (drop_bit 6 (le_u32 (drop 9 key)) AND 0x3f03fff),
      ucast (drop_bit 8 (le_u32 (drop 12 key)) AND 0x00fffff))"

text \<open>\<open>h += msg\<close>; the last limb takes the bit above a whole block.\<close>

definition poly_add :: "limbs \<Rightarrow> bytes \<Rightarrow> u32 \<Rightarrow> limbs" where
  "poly_add h msg hibit =
     (case h of (h0, h1, h2, h3, h4) \<Rightarrow>
       (h0 + (le_u32 msg AND 0x3ffffff),
        h1 + (drop_bit 2 (le_u32 (drop 3 msg)) AND 0x3ffffff),
        h2 + (drop_bit 4 (le_u32 (drop 6 msg)) AND 0x3ffffff),
        h3 + (drop_bit 6 (le_u32 (drop 9 msg)) AND 0x3ffffff),
        h4 + (drop_bit 8 (le_u32 (drop 12 msg)) OR hibit)))"

text \<open>\<open>h *= r\<close> and the partial reduction \<open>h %= p\<close>.\<close>

definition poly_mul :: "limbs \<Rightarrow> wide_limbs \<Rightarrow> limbs" where
  "poly_mul h r =
     (case h of (h0, h1, h2, h3, h4) \<Rightarrow> case r of (r0, r1, r2, r3, r4) \<Rightarrow>
      let R1 = r1 * 5; R2 = r2 * 5; R3 = r3 * 5; R4 = r4 * 5;
          d0 = ucast h0 * r0 + ucast h1 * R4 + ucast h2 * R3 + ucast h3 * R2 + ucast h4 * R1;
          d1 = drop_bit 26 d0 + ucast h0 * r1 + ucast h1 * r0 + ucast h2 * R4 + ucast h3 * R3 + ucast h4 * R2;
          d2 = drop_bit 26 d1 + ucast h0 * r2 + ucast h1 * r1 + ucast h2 * r0 + ucast h3 * R4 + ucast h4 * R3;
          d3 = drop_bit 26 d2 + ucast h0 * r3 + ucast h1 * r2 + ucast h2 * r1 + ucast h3 * r0 + ucast h4 * R4;
          d4 = drop_bit 26 d3 + ucast h0 * r4 + ucast h1 * r3 + ucast h2 * r2 + ucast h3 * r1 + ucast h4 * r0;
          h0 = ucast d0 AND 0x3ffffff;
          h1 = ucast d1 AND 0x3ffffff;
          h2 = ucast d2 AND 0x3ffffff;
          h3 = ucast d3 AND 0x3ffffff;
          h4 = ucast d4 AND 0x3ffffff;
          h0 = h0 + ucast (drop_bit 26 (d4 :: u64)) * 5;
          h1 = h1 + drop_bit 26 h0;
          h0 = h0 AND 0x3ffffff
      in (h0, h1, h2, h3, h4))"

function poly_blocks :: "wide_limbs \<Rightarrow> limbs \<Rightarrow> bytes \<Rightarrow> limbs" where
  "poly_blocks r h msg =
     (if length msg \<ge> TagSize then poly_blocks r (poly_mul (poly_add h msg (push_bit 24 1)) r) (drop TagSize msg)
      else if length msg > 0 then
        let block = (copy_into (replicate TagSize 0) msg)[length msg := 0x01]
        in poly_mul (poly_add h block 0) r
      else h)"
  by pat_completeness auto
termination by (relation "measure (\<lambda>(_, _, msg). length msg)") (simp_all add: TagSize_def)

declare poly_blocks.simps [simp del]

text \<open>The full reduction.\<close>

definition poly_carry :: "limbs \<Rightarrow> limbs" where
  "poly_carry h =
     (case h of (h0, h1, h2, h3, h4) \<Rightarrow>
      let h2 = h2 + drop_bit 26 h1; h1 = h1 AND 0x3ffffff;
          h3 = h3 + drop_bit 26 h2; h2 = h2 AND 0x3ffffff;
          h4 = h4 + drop_bit 26 h3; h3 = h3 AND 0x3ffffff;
          h0 = h0 + 5 * drop_bit 26 h4; h4 = h4 AND 0x3ffffff;
          h1 = h1 + drop_bit 26 h0; h0 = h0 AND 0x3ffffff
      in (h0, h1, h2, h3, h4))"

definition poly_select :: "limbs \<Rightarrow> limbs" where
  "poly_select h =
     (case h of (h0, h1, h2, h3, h4) \<Rightarrow>
      let t0 = h0 + 5;
          t1 = h1 + drop_bit 26 t0;
          t2 = h2 + drop_bit 26 t1;
          t3 = h3 + drop_bit 26 t2;
          t4 = h4 + drop_bit 26 t3 - push_bit 26 1;
          t0 = t0 AND 0x3ffffff;
          t1 = t1 AND 0x3ffffff;
          t2 = t2 AND 0x3ffffff;
          t3 = t3 AND 0x3ffffff;
          t_mask = drop_bit 31 t4 - 1;
          h_mask = NOT t_mask
      in ((h0 AND h_mask) OR (t0 AND t_mask), (h1 AND h_mask) OR (t1 AND t_mask), (h2 AND h_mask) OR (t2 AND t_mask),
          (h3 AND h_mask) OR (t3 AND t_mask), (h4 AND h_mask) OR (t4 AND t_mask)))"

text \<open>\<open>h %= 2^128\<close>, the addition of the \<open>s\<close> part of the key and the output.\<close>

definition poly_tag :: "limbs \<Rightarrow> bytes \<Rightarrow> bytes" where
  "poly_tag h key =
     (case h of (h0, h1, h2, h3, h4) \<Rightarrow>
      let h0 = h0 OR push_bit 26 h1;
          h1 = drop_bit 6 h1 OR push_bit 20 h2;
          h2 = drop_bit 12 h2 OR push_bit 14 h3;
          h3 = drop_bit 18 h3 OR push_bit 8 h4;
          t = ucast h0 + ucast (le_u32 (drop 16 key)) :: u64;
          h0 = ucast t :: u32;
          t = ucast h1 + ucast (le_u32 (drop 20 key)) + drop_bit 32 t;
          h1 = ucast t :: u32;
          t = ucast h2 + ucast (le_u32 (drop 24 key)) + drop_bit 32 t;
          h2 = ucast t :: u32;
          t = ucast h3 + ucast (le_u32 (drop 28 key)) + drop_bit 32 t;
          h3 = ucast t :: u32
      in put_le32 h0 @ put_le32 h1 @ put_le32 h2 @ put_le32 h3)"

definition poly1305_Sum :: "bytes \<Rightarrow> bytes \<Rightarrow> bytes" where
  "poly1305_Sum msg key = poly_tag (poly_select (poly_carry (poly_blocks (poly_r key) (0, 0, 0, 0, 0) msg))) key"

definition poly1305_Verify :: "bytes \<Rightarrow> bytes \<Rightarrow> bytes \<Rightarrow> bool" where
  "poly1305_Verify mac m key = (ConstantTimeCompare (poly1305_Sum m key) mac = 1)"

lemma length_poly1305_Sum [simp]: "length (poly1305_Sum msg key) = 16"
  by (simp add: poly1305_Sum_def poly_tag_def Let_def split: prod.splits)

lemma poly1305_Verify_iff: "poly1305_Verify mac m key \<longleftrightarrow> mac = poly1305_Sum m key"
  by (auto simp: poly1305_Verify_def ConstantTimeCompare_iff)

end
