(* ===== verification/Aead.thy ===== *)
theory Aead
  imports ChaCha20 Poly1305
begin

unbundle bit_operations_syntax

text \<open>
  The authenticated encryption of the program: ChaCha20-Poly1305 of the vendored package
  \<^verbatim>\<open>golang.org/x/crypto/chacha20poly1305\<close> (the generic code) and XChaCha20-Poly1305 of
  \<^verbatim>\<open>xchacha20poly1305/xchacha20.go\<close>. Both satisfy the contract of an authenticated cipher, stated as a locale.
\<close>

section \<open>Model of ChaCha20-Poly1305\<close>

definition KeySize :: nat where
  "KeySize = 32"

definition NonceSize :: nat where
  "NonceSize = 12"

text \<open>A cipher is its key as eight words.\<close>

definition aead_New :: "bytes \<Rightarrow> u32 list option" where
  "aead_New key =
     (if length key \<noteq> KeySize then None
      else Some (map (\<lambda>i. le_u32 (drop (4 * i) key)) [0..<8]))"

definition roundTo16 :: "nat \<Rightarrow> nat" where
  "roundTo16 n = 16 * ((n + 15) div 16)"

definition nonce_words :: "bytes \<Rightarrow> u32 list" where
  "nonce_words nonce = [le_u32 nonce, le_u32 (drop 4 nonce), le_u32 (drop 8 nonce)]"

definition poly_input :: "bytes \<Rightarrow> bytes \<Rightarrow> bytes" where
  "poly_input additionalData ciphertext =
     additionalData @ replicate (roundTo16 (length additionalData) - length additionalData) 0 @
     ciphertext @ replicate (roundTo16 (length ciphertext) - length ciphertext) 0 @
     put_le64 (of_nat (length additionalData)) @ put_le64 (of_nat (length ciphertext))"

text \<open>The bytes that \<open>Seal\<close> appends to its destination.\<close>

definition sealGeneric :: "u32 list \<Rightarrow> bytes \<Rightarrow> bytes \<Rightarrow> bytes \<Rightarrow> bytes option" where
  "sealGeneric key nonce plaintext additionalData =
     do {
       let s = Cipher_New key (nonce_words nonce);
       (polyKey, s) \<leftarrow> XORKeyStream s (replicate 32 0);
       let s = Cipher_Advance s;
       (out, s) \<leftarrow> XORKeyStream s plaintext;
       let tag = poly1305_Sum (poly_input additionalData out) polyKey;
       Some (out @ tag)
     }"

definition Seal :: "u32 list \<Rightarrow> bytes \<Rightarrow> bytes \<Rightarrow> bytes \<Rightarrow> bytes option" where
  "Seal key nonce plaintext additionalData =
     (if length nonce \<noteq> NonceSize then None
      else if length plaintext > 2 ^ 38 - 64 then None
      else sealGeneric key nonce plaintext additionalData)"

datatype aead_error = ErrOpen

definition openGeneric :: "u32 list \<Rightarrow> bytes \<Rightarrow> bytes \<Rightarrow> bytes \<Rightarrow> (aead_error + bytes) option" where
  "openGeneric key nonce ciphertext additionalData =
     do {
       let tag = drop (length ciphertext - 16) ciphertext;
       let ciphertext = take (length ciphertext - 16) ciphertext;
       let s = Cipher_New key (nonce_words nonce);
       (polyKey, s) \<leftarrow> XORKeyStream s (replicate 32 0);
       let s = Cipher_Advance s;
       if \<not> poly1305_Verify tag (poly_input additionalData ciphertext) polyKey then Some (Inl ErrOpen)
       else do {
         (out, s) \<leftarrow> XORKeyStream s ciphertext;
         Some (Inr out)
       }
     }"

definition Open :: "u32 list \<Rightarrow> bytes \<Rightarrow> bytes \<Rightarrow> bytes \<Rightarrow> (aead_error + bytes) option" where
  "Open key nonce ciphertext additionalData =
     (if length nonce \<noteq> NonceSize then None
      else if length ciphertext < 16 then Some (Inl ErrOpen)
      else if length ciphertext > 2 ^ 38 - 48 then None
      else openGeneric key nonce ciphertext additionalData)"

section \<open>Model of XChaCha20-Poly1305\<close>

definition hChaCha20 :: "bytes \<Rightarrow> bytes \<Rightarrow> bytes" where
  "hChaCha20 nonce key =
     (let v = [0x61707865, 0x3320646e, 0x79622d32, 0x6b206574] @
            map (\<lambda>i. le_u32 (drop (4 * i) key)) [0..<8] @ map (\<lambda>i. le_u32 (drop (4 * i) nonce)) [0..<4];
          v = ((\<lambda>x. diagonal_round (column_round x)) ^^ 10) v
      in concat (map put_le32 (take 4 v @ drop 12 v)))"

definition XEncrypt :: "bytes \<Rightarrow> bytes \<Rightarrow> bytes \<Rightarrow> bytes \<Rightarrow> bytes option" where
  "XEncrypt nonceFull plaintext additionalData key =
     do {
       let derivedKey = hChaCha20 (take 16 nonceFull) key;
       aead \<leftarrow> aead_New derivedKey;
       let nonce = replicate 4 0 @ copy_into (replicate 8 0) (drop 16 nonceFull);
       Seal aead nonce plaintext additionalData
     }"

definition XDecrypt :: "bytes \<Rightarrow> bytes \<Rightarrow> bytes \<Rightarrow> bytes \<Rightarrow> (aead_error + bytes) option" where
  "XDecrypt nonceFull plaintext additionalData key =
     do {
       let derivedKey = hChaCha20 (take 16 nonceFull) key;
       aead \<leftarrow> aead_New derivedKey;
       let nonce = replicate 4 0 @ copy_into (replicate 8 0) (drop 16 nonceFull);
       Open aead nonce plaintext additionalData
     }"

section \<open>The contract of an authenticated cipher\<close>

text \<open>
  What the handshake, the transport and the cookies rely on. \<open>ok\<close> says which keys and nonces fit, and
  the length bound is the one of the buffers of the program.
\<close>

locale authenticated_cipher =
  fixes ok_key :: "'k \<Rightarrow> bool"
    and ok_nonce :: "bytes \<Rightarrow> bool"
    and seal :: "'k \<Rightarrow> bytes \<Rightarrow> bytes \<Rightarrow> bytes \<Rightarrow> bytes option"
    and unseal :: "'k \<Rightarrow> bytes \<Rightarrow> bytes \<Rightarrow> bytes \<Rightarrow> (aead_error + bytes) option"
  assumes seal_total: "ok_key k \<Longrightarrow> ok_nonce n \<Longrightarrow> length p < 2 ^ 30 \<Longrightarrow>
      \<exists>c. seal k n p ad = Some c \<and> length c = length p + 16"
    and unseal_total: "ok_key k \<Longrightarrow> ok_nonce n \<Longrightarrow> length c < 2 ^ 30 \<Longrightarrow> \<exists>r. unseal k n c ad = Some r"
    and unseal_sound: "ok_key k \<Longrightarrow> ok_nonce n \<Longrightarrow> length c < 2 ^ 30 \<Longrightarrow> unseal k n c ad = Some (Inr p) \<Longrightarrow>
      seal k n p ad = Some c \<and> length c = length p + 16"
    and unseal_seal: "ok_key k \<Longrightarrow> ok_nonce n \<Longrightarrow> length p + 16 < 2 ^ 30 \<Longrightarrow> seal k n p ad = Some c \<Longrightarrow>
      unseal k n c ad = Some (Inr p)"
begin

text \<open>Only one plaintext has a given sealed form, and only what was sealed opens.\<close>

lemma seal_inj:
  "ok_key k \<Longrightarrow> ok_nonce n \<Longrightarrow> length p + 16 < 2 ^ 30 \<Longrightarrow> length p' + 16 < 2 ^ 30 \<Longrightarrow>
     seal k n p ad = Some c \<Longrightarrow> seal k n p' ad = Some c \<Longrightarrow> p = p'"
  using unseal_seal [of k n p ad c] unseal_seal [of k n p' ad c] by simp

lemma unseal_iff:
  "ok_key k \<Longrightarrow> ok_nonce n \<Longrightarrow> length c < 2 ^ 30 \<Longrightarrow> length p + 16 < 2 ^ 30 \<Longrightarrow>
     unseal k n c ad = Some (Inr p) \<longleftrightarrow> seal k n p ad = Some c"
  using unseal_sound [of k n c ad p] unseal_seal [of k n p ad c] by blast

lemma seal_unseal:
  assumes "ok_key k" "ok_nonce n" "length p + 16 < 2 ^ 30"
  obtains c where "seal k n p ad = Some c" "length c = length p + 16" "unseal k n c ad = Some (Inr p)"
proof -
  have "length p < 2 ^ 30" using assms(3) by simp
  then obtain c where "seal k n p ad = Some c" "length c = length p + 16" using seal_total [OF assms(1,2)] by blast
  then show ?thesis using that unseal_seal [OF assms] by blast
qed

end

section \<open>ChaCha20-Poly1305 is an authenticated cipher\<close>

definition poly_key :: "u32 list \<Rightarrow> bytes \<Rightarrow> bytes" where
  "poly_key key nonce = xor_stream key (nonce_words nonce) 0 (replicate 32 0)"

lemma sealGeneric_stream:
  assumes "length key = 8" "length plaintext < 2 ^ 30"
  shows "sealGeneric key nonce plaintext ad =
    (let out = xor_stream key (nonce_words nonce) 64 plaintext
     in Some (out @ poly1305_Sum (poly_input ad out) (poly_key key nonce)))"
proof -
  let ?n = "nonce_words nonce"
  have "length ?n = 3" by (simp add: nonce_words_def)
  from XORKeyStream_stream [OF Cipher_New_at_pos [OF assms(1) this], of "replicate 32 0"]
  obtain s where s: "XORKeyStream (Cipher_New key ?n) (replicate 32 0) = Some (poly_key key nonce, s)" "at_pos key ?n 32 s"
    by (auto simp: poly_key_def)
  have "at_pos key ?n 64 (Cipher_Advance s)" using Cipher_Advance_at_pos [OF s(2)] by (simp add: blocks_for_def)
  from XORKeyStream_stream [OF this, of plaintext] assms(2)
  obtain s' where "XORKeyStream (Cipher_Advance s) plaintext = Some (xor_stream key ?n 64 plaintext, s')" by auto
  with s show ?thesis by (simp add: sealGeneric_def Let_def)
qed

lemma openGeneric_stream:
  assumes "length key = 8" "length ciphertext < 2 ^ 30"
  shows "openGeneric key nonce ciphertext ad =
    (let c = take (length ciphertext - 16) ciphertext; tag = drop (length ciphertext - 16) ciphertext
     in Some (if tag = poly1305_Sum (poly_input ad c) (poly_key key nonce)
              then Inr (xor_stream key (nonce_words nonce) 64 c) else Inl ErrOpen))"
proof -
  let ?n = "nonce_words nonce" and ?c = "take (length ciphertext - 16) ciphertext"
  have "length ?n = 3" by (simp add: nonce_words_def)
  from XORKeyStream_stream [OF Cipher_New_at_pos [OF assms(1) this], of "replicate 32 0"]
  obtain s where s: "XORKeyStream (Cipher_New key ?n) (replicate 32 0) = Some (poly_key key nonce, s)" "at_pos key ?n 32 s"
    by (auto simp: poly_key_def)
  have "at_pos key ?n 64 (Cipher_Advance s)" using Cipher_Advance_at_pos [OF s(2)] by (simp add: blocks_for_def)
  moreover have "64 + length ?c < 2 ^ 31" using assms(2) by simp
  ultimately obtain s' where "XORKeyStream (Cipher_Advance s) ?c = Some (xor_stream key ?n 64 ?c, s')"
    using XORKeyStream_stream by blast
  with s show ?thesis by (simp add: openGeneric_def Let_def poly1305_Verify_iff)
qed

definition ok_nonce :: "bytes \<Rightarrow> bool" where
  "ok_nonce nonce \<longleftrightarrow> length nonce = NonceSize"

lemma Seal_stream:
  assumes "length key = 8" "ok_nonce nonce" "length plaintext < 2 ^ 30"
  shows "Seal key nonce plaintext ad =
    (let out = xor_stream key (nonce_words nonce) 64 plaintext
     in Some (out @ poly1305_Sum (poly_input ad out) (poly_key key nonce)))"
  using assms by (simp add: Seal_def ok_nonce_def sealGeneric_stream)

lemma Open_stream:
  assumes "length key = 8" "ok_nonce nonce" "length ciphertext < 2 ^ 30"
  shows "Open key nonce ciphertext ad =
    (if length ciphertext < 16 then Some (Inl ErrOpen)
     else let c = take (length ciphertext - 16) ciphertext; tag = drop (length ciphertext - 16) ciphertext
     in Some (if tag = poly1305_Sum (poly_input ad c) (poly_key key nonce)
              then Inr (xor_stream key (nonce_words nonce) 64 c) else Inl ErrOpen))"
  using assms by (simp add: Open_def ok_nonce_def openGeneric_stream)

interpretation aead: authenticated_cipher "\<lambda>key. length key = 8" ok_nonce Seal Open
proof unfold_locales
  fix k :: "u32 list" and n p c ad :: bytes
  assume k: "length k = 8" "ok_nonce n"
  show "length p < 2 ^ 30 \<Longrightarrow> \<exists>c. Seal k n p ad = Some c \<and> length c = length p + 16"
    using k by (simp add: Seal_stream Let_def)
  show "length c < 2 ^ 30 \<Longrightarrow> \<exists>r. Open k n c ad = Some r"
    using k by (simp add: Open_stream Let_def)
  show "length c < 2 ^ 30 \<Longrightarrow> Open k n c ad = Some (Inr p) \<Longrightarrow> Seal k n p ad = Some c \<and> length c = length p + 16"
  proof -
    assume c: "length c < 2 ^ 30" "Open k n c ad = Some (Inr p)"
    let ?b = "take (length c - 16) c" and ?t = "drop (length c - 16) c"
    have d: "16 \<le> length c" "?t = poly1305_Sum (poly_input ad ?b) (poly_key k n)" "p = xor_stream k (nonce_words n) 64 ?b"
      using c(2) Open_stream [OF k c(1)] by (auto simp: Let_def split: if_splits)
    then have "xor_stream k (nonce_words n) 64 p = ?b" by (simp add: xor_stream_involution)
    moreover have "length p = length c - 16" using d by simp
    moreover have "?b @ ?t = c" by simp
    ultimately show ?thesis using Seal_stream [OF k, of p ad] d(1) c(1) d(2) [symmetric] by (simp add: Let_def)
  qed
  show "length p + 16 < 2 ^ 30 \<Longrightarrow> Seal k n p ad = Some c \<Longrightarrow> Open k n c ad = Some (Inr p)"
  proof -
    assume p: "length p + 16 < 2 ^ 30" "Seal k n p ad = Some c"
    let ?b = "xor_stream k (nonce_words n) 64 p"
    have c: "c = ?b @ poly1305_Sum (poly_input ad ?b) (poly_key k n)"
      using p Seal_stream [OF k, of p ad] by (simp add: Let_def)
    then have "length c < 2 ^ 30" using p(1) by simp
    with c show ?thesis using Open_stream [OF k, of c ad] by (simp add: Let_def xor_stream_involution)
  qed
qed

lemma aead_New_length: "aead_New key = Some ks \<Longrightarrow> length ks = 8"
  by (auto simp: aead_New_def split: if_splits)

lemma aead_New_total: "length key = 32 \<Longrightarrow> \<exists>ks. aead_New key = Some ks"
  by (simp add: aead_New_def KeySize_def)

section \<open>XChaCha20-Poly1305 is an authenticated cipher\<close>

lemma length_double_rounds: "length (((\<lambda>x. diagonal_round (column_round x)) ^^ n) x) = length x"
  by (induction n) simp_all

lemma length_hChaCha20 [simp]: "length (hChaCha20 nonce key) = 32"
  by (simp add: hChaCha20_def Let_def length_double_rounds del: concat_append map_append)

definition ok_xnonce :: "bytes \<Rightarrow> bool" where
  "ok_xnonce nonce \<longleftrightarrow> length nonce = 24"

definition x_key :: "bytes \<Rightarrow> bytes \<Rightarrow> u32 list" where
  "x_key nonceFull key = map (\<lambda>i. le_u32 (drop (4 * i) (hChaCha20 (take 16 nonceFull) key))) [0..<8]"

definition x_nonce :: "bytes \<Rightarrow> bytes" where
  "x_nonce nonceFull = replicate 4 0 @ copy_into (replicate 8 0) (drop 16 nonceFull)"

lemma XEncrypt_Seal: "XEncrypt nonceFull plaintext ad key = Seal (x_key nonceFull key) (x_nonce nonceFull) plaintext ad"
  by (simp add: XEncrypt_def Let_def aead_New_def KeySize_def x_key_def x_nonce_def)

lemma XDecrypt_Open: "XDecrypt nonceFull c ad key = Open (x_key nonceFull key) (x_nonce nonceFull) c ad"
  by (simp add: XDecrypt_def Let_def aead_New_def KeySize_def x_key_def x_nonce_def)

lemma x_ok [simp]: "length (x_key nonceFull key) = 8" "ok_nonce (x_nonce nonceFull)"
  by (simp_all add: x_key_def x_nonce_def ok_nonce_def NonceSize_def)

interpretation xaead: authenticated_cipher "\<lambda>key. length key = 32" ok_xnonce
  "\<lambda>key nonce p ad. XEncrypt nonce p ad key" "\<lambda>key nonce c ad. XDecrypt nonce c ad key"
  unfolding XEncrypt_Seal XDecrypt_Open
  by unfold_locales
    (erule aead.seal_total [OF x_ok] aead.unseal_total [OF x_ok] | erule (1) aead.unseal_sound [OF x_ok]
      | erule (1) aead.unseal_seal [OF x_ok])+

section \<open>Properties\<close>

text \<open>
  C12: sealing never panics for a key of 32 bytes, a nonce of 12 bytes and a message below one gigabyte, adds 16 bytes, and opening
  returns the message; and opening accepts a ciphertext only if it is the sealed form of what is returned, so a
  changed ciphertext, tag, nonce or additional data is accepted only where it is itself a sealed form.
\<close>

theorem aead_roundtrip:
  assumes "length key = KeySize" "length nonce = NonceSize" "length p + 16 < 2 ^ 30" "length c < 2 ^ 30"
  shows "\<exists>ks sealed. aead_New key = Some ks \<and> Seal ks nonce p ad = Some sealed \<and> length sealed = length p + 16 \<and>
    Open ks nonce sealed ad = Some (Inr p) \<and>
    (Open ks nonce c ad = Some (Inr p) \<longleftrightarrow> c = sealed) \<and> Open ks nonce c ad \<noteq> None"
proof -
  obtain ks where ks: "aead_New key = Some ks" using assms(1) aead_New_total by (auto simp: KeySize_def)
  have n: "ok_nonce nonce" using assms(2) by (simp add: ok_nonce_def)
  note ok = aead_New_length [OF ks] n
  obtain sealed where s: "Seal ks nonce p ad = Some sealed" "length sealed = length p + 16" "Open ks nonce sealed ad = Some (Inr p)"
    using aead.seal_unseal [OF ok assms(3)] by blast
  have "Open ks nonce c ad = Some (Inr p) \<longleftrightarrow> c = sealed"
    using aead.unseal_iff [OF ok assms(4,3), of ad] s(1) by auto
  moreover have "Open ks nonce c ad \<noteq> None" using aead.unseal_total [OF ok assms(4), of ad] by auto
  ultimately show ?thesis using ks s by blast
qed

text \<open>Witness of C12: a short message under a constant key.\<close>

theorem aead_roundtrip_witness:
  "\<exists>ks sealed. aead_New (replicate 32 1) = Some ks \<and> Seal ks (replicate 12 0) [1, 2, 3] [9] = Some sealed \<and>
    length sealed = 19 \<and> Open ks (replicate 12 0) sealed [9] = Some (Inr [1, 2, 3]) \<and>
    (Open ks (replicate 12 0) (replicate 19 0) [9] = Some (Inr [1, 2, 3]) \<longleftrightarrow> replicate 19 0 = sealed)"
  using aead_roundtrip [of "replicate 32 1" "replicate 12 0" "[1, 2, 3]" "replicate 19 0" "[9]"]
  by (auto simp: KeySize_def NonceSize_def)



end
