(* ===== verification/Messages.thy ===== *)
theory Messages
  imports NoiseTypes Blake2s Poly1305 Tai64n
begin

text \<open>
  The messages of \<^verbatim>\<open>noise-protocol.go\<close> and their wire format, which the program reads and writes with \<^verbatim>\<open>encoding/binary\<close>
  in little-endian order: integers, then the byte arrays as they are.
\<close>

section \<open>Model\<close>

definition MessageInitiationType :: u32 where "MessageInitiationType = 1"
definition MessageResponseType :: u32 where "MessageResponseType = 2"
definition MessageCookieReplyType :: u32 where "MessageCookieReplyType = 3"
definition MessageTransportType :: u32 where "MessageTransportType = 4"

definition MessageInitiationSize :: nat where "MessageInitiationSize = 148"
definition MessageResponseSize :: nat where "MessageResponseSize = 92"
definition MessageCookieReplySize :: nat where "MessageCookieReplySize = 64"
definition MessageTransportHeaderSize :: nat where "MessageTransportHeaderSize = 16"
definition MessageTransportSize :: nat where "MessageTransportSize = MessageTransportHeaderSize + TagSize"
definition MessageKeepaliveSize :: nat where "MessageKeepaliveSize = MessageTransportSize"
definition MessageHandshakeSize :: nat where "MessageHandshakeSize = MessageInitiationSize"

definition MessageTransportOffsetReceiver :: nat where "MessageTransportOffsetReceiver = 4"
definition MessageTransportOffsetCounter :: nat where "MessageTransportOffsetCounter = 8"
definition MessageTransportOffsetContent :: nat where "MessageTransportOffsetContent = 16"

record MessageInitiation =
  mi_Type :: u32
  mi_Sender :: u32
  mi_Ephemeral :: NoisePublicKey
  mi_Static :: bytes
  mi_Timestamp :: bytes
  mi_MAC1 :: bytes
  mi_MAC2 :: bytes

record MessageResponse =
  mr_Type :: u32
  mr_Sender :: u32
  mr_Receiver :: u32
  mr_Ephemeral :: NoisePublicKey
  mr_Empty :: bytes
  mr_MAC1 :: bytes
  mr_MAC2 :: bytes

record MessageCookieReply =
  mc_Type :: u32
  mc_Receiver :: u32
  mc_Nonce :: bytes
  mc_Cookie :: bytes

text \<open>\<^verbatim>\<open>binary.Write\<close> and \<^verbatim>\<open>binary.Read\<close>; a read of too few bytes is an error, here \<^const>\<open>None\<close>.\<close>

definition write_MessageInitiation :: "MessageInitiation \<Rightarrow> bytes" where
  "write_MessageInitiation msg =
     put_le32 (mi_Type msg) @ put_le32 (mi_Sender msg) @ mi_Ephemeral msg @ mi_Static msg @ mi_Timestamp msg @
     mi_MAC1 msg @ mi_MAC2 msg"

definition read_MessageInitiation :: "bytes \<Rightarrow> MessageInitiation option" where
  "read_MessageInitiation b =
     (if length b < 148 then None
      else Some \<lparr>mi_Type = le_u32 b, mi_Sender = le_u32 (drop 4 b), mi_Ephemeral = take 32 (drop 8 b),
        mi_Static = take 48 (drop 40 b), mi_Timestamp = take 28 (drop 88 b), mi_MAC1 = take 16 (drop 116 b),
        mi_MAC2 = take 16 (drop 132 b)\<rparr>)"

definition write_MessageResponse :: "MessageResponse \<Rightarrow> bytes" where
  "write_MessageResponse msg =
     put_le32 (mr_Type msg) @ put_le32 (mr_Sender msg) @ put_le32 (mr_Receiver msg) @ mr_Ephemeral msg @ mr_Empty msg @
     mr_MAC1 msg @ mr_MAC2 msg"

definition read_MessageResponse :: "bytes \<Rightarrow> MessageResponse option" where
  "read_MessageResponse b =
     (if length b < 92 then None
      else Some \<lparr>mr_Type = le_u32 b, mr_Sender = le_u32 (drop 4 b), mr_Receiver = le_u32 (drop 8 b),
        mr_Ephemeral = take 32 (drop 12 b), mr_Empty = take 16 (drop 44 b), mr_MAC1 = take 16 (drop 60 b),
        mr_MAC2 = take 16 (drop 76 b)\<rparr>)"

definition write_MessageCookieReply :: "MessageCookieReply \<Rightarrow> bytes" where
  "write_MessageCookieReply msg =
     put_le32 (mc_Type msg) @ put_le32 (mc_Receiver msg) @ mc_Nonce msg @ mc_Cookie msg"

definition read_MessageCookieReply :: "bytes \<Rightarrow> MessageCookieReply option" where
  "read_MessageCookieReply b =
     (if length b < 64 then None
      else Some \<lparr>mc_Type = le_u32 b, mc_Receiver = le_u32 (drop 4 b), mc_Nonce = take 24 (drop 8 b),
        mc_Cookie = take 32 (drop 32 b)\<rparr>)"

text \<open>The array lengths of the Go types.\<close>

definition wf_MessageInitiation :: "MessageInitiation \<Rightarrow> bool" where
  "wf_MessageInitiation msg \<longleftrightarrow> length (mi_Ephemeral msg) = 32 \<and> length (mi_Static msg) = 48 \<and>
     length (mi_Timestamp msg) = 28 \<and> length (mi_MAC1 msg) = 16 \<and> length (mi_MAC2 msg) = 16"

definition wf_MessageResponse :: "MessageResponse \<Rightarrow> bool" where
  "wf_MessageResponse msg \<longleftrightarrow> length (mr_Ephemeral msg) = 32 \<and> length (mr_Empty msg) = 16 \<and>
     length (mr_MAC1 msg) = 16 \<and> length (mr_MAC2 msg) = 16"

definition wf_MessageCookieReply :: "MessageCookieReply \<Rightarrow> bool" where
  "wf_MessageCookieReply msg \<longleftrightarrow> length (mc_Nonce msg) = 24 \<and> length (mc_Cookie msg) = 32"

section \<open>The contract of a wire format\<close>

locale wire_format =
  fixes size :: nat
    and wf :: "'m \<Rightarrow> bool"
    and marshal :: "'m \<Rightarrow> bytes"
    and unmarshal :: "bytes \<Rightarrow> 'm option"
  assumes length_write: "wf m \<Longrightarrow> length (marshal m) = size"
    and read_write: "wf m \<Longrightarrow> unmarshal (marshal m @ rest) = Some m"
    and read_wf: "unmarshal b = Some m \<Longrightarrow> wf m"
    and read_short: "unmarshal b = None \<longleftrightarrow> length b < size"
    and write_read: "unmarshal b = Some m \<Longrightarrow> marshal m = take size b"
begin

lemma read_iff:
  assumes "length b = size"
  shows "unmarshal b = Some m \<longleftrightarrow> wf m \<and> b = marshal m"
proof
  assume "unmarshal b = Some m"
  then show "wf m \<and> b = marshal m" using read_wf write_read assms by simp
next
  assume "wf m \<and> b = marshal m"
  then show "unmarshal b = Some m" using read_write [of m "[]"] by simp
qed

lemma write_inj: "wf m \<Longrightarrow> wf m' \<Longrightarrow> marshal m = marshal m' \<Longrightarrow> m = m'"
  using read_write [of m "[]"] read_write [of m' "[]"] by simp

end

lemma le_u32_split: "4 \<le> length b \<Longrightarrow> put_le32 (le_u32 b) = take 4 b"
  using put_le_u32 [of "take 4 b"] take_le_u32 [of b] by simp

interpretation initiation: wire_format 148 wf_MessageInitiation write_MessageInitiation read_MessageInitiation
proof unfold_locales
  fix b m
  show "wf_MessageInitiation m \<Longrightarrow> length (write_MessageInitiation m) = 148"
    by (simp add: wf_MessageInitiation_def write_MessageInitiation_def)
  show "wf_MessageInitiation m \<Longrightarrow> read_MessageInitiation (write_MessageInitiation m @ rest) = Some m" for rest
    by (cases m) (simp add: wf_MessageInitiation_def write_MessageInitiation_def read_MessageInitiation_def)
  show "read_MessageInitiation b = Some m \<Longrightarrow> wf_MessageInitiation m"
    by (auto simp: read_MessageInitiation_def wf_MessageInitiation_def split: if_splits)
  show "read_MessageInitiation b = None \<longleftrightarrow> length b < 148"
    by (simp add: read_MessageInitiation_def)
  show "read_MessageInitiation b = Some m \<Longrightarrow> write_MessageInitiation m = take 148 b"
    using take_add [of 4 4 b] take_add [of 8 32 b] take_add [of 40 48 b] take_add [of 88 28 b] take_add [of 116 16 b]
      take_add [of 132 16 b]
    by (auto simp: read_MessageInitiation_def write_MessageInitiation_def le_u32_split split: if_splits)
qed

interpretation response: wire_format 92 wf_MessageResponse write_MessageResponse read_MessageResponse
proof unfold_locales
  fix b m
  show "wf_MessageResponse m \<Longrightarrow> length (write_MessageResponse m) = 92"
    by (simp add: wf_MessageResponse_def write_MessageResponse_def)
  show "wf_MessageResponse m \<Longrightarrow> read_MessageResponse (write_MessageResponse m @ rest) = Some m" for rest
    by (cases m) (simp add: wf_MessageResponse_def write_MessageResponse_def read_MessageResponse_def)
  show "read_MessageResponse b = Some m \<Longrightarrow> wf_MessageResponse m"
    by (auto simp: read_MessageResponse_def wf_MessageResponse_def split: if_splits)
  show "read_MessageResponse b = None \<longleftrightarrow> length b < 92"
    by (simp add: read_MessageResponse_def)
  show "read_MessageResponse b = Some m \<Longrightarrow> write_MessageResponse m = take 92 b"
    using take_add [of 4 4 b] take_add [of 8 4 b] take_add [of 12 32 b] take_add [of 44 16 b] take_add [of 60 16 b]
      take_add [of 76 16 b]
    by (auto simp: read_MessageResponse_def write_MessageResponse_def le_u32_split split: if_splits)
qed

interpretation cookie_reply: wire_format 64 wf_MessageCookieReply write_MessageCookieReply read_MessageCookieReply
proof unfold_locales
  fix b m
  show "wf_MessageCookieReply m \<Longrightarrow> length (write_MessageCookieReply m) = 64"
    by (simp add: wf_MessageCookieReply_def write_MessageCookieReply_def)
  show "wf_MessageCookieReply m \<Longrightarrow> read_MessageCookieReply (write_MessageCookieReply m @ rest) = Some m" for rest
    by (cases m) (simp add: wf_MessageCookieReply_def write_MessageCookieReply_def read_MessageCookieReply_def)
  show "read_MessageCookieReply b = Some m \<Longrightarrow> wf_MessageCookieReply m"
    by (auto simp: read_MessageCookieReply_def wf_MessageCookieReply_def split: if_splits)
  show "read_MessageCookieReply b = None \<longleftrightarrow> length b < 64"
    by (simp add: read_MessageCookieReply_def)
  show "read_MessageCookieReply b = Some m \<Longrightarrow> write_MessageCookieReply m = take 64 b"
    using take_add [of 4 4 b] take_add [of 8 24 b] take_add [of 32 32 b]
    by (auto simp: read_MessageCookieReply_def write_MessageCookieReply_def le_u32_split split: if_splits)
qed

section \<open>Properties\<close>

text \<open>
  C31: a packet of the size of a handshake initiation, response or cookie reply is read to exactly the message that is written to that
  packet, and the messages of the program are written to packets of these sizes.
\<close>

theorem message_roundtrips:
  "(length b = MessageInitiationSize \<longrightarrow> (read_MessageInitiation b = Some i \<longleftrightarrow> wf_MessageInitiation i \<and> b = write_MessageInitiation i)) \<and>
   (length b = MessageResponseSize \<longrightarrow> (read_MessageResponse b = Some r \<longleftrightarrow> wf_MessageResponse r \<and> b = write_MessageResponse r)) \<and>
   (length b = MessageCookieReplySize \<longrightarrow> (read_MessageCookieReply b = Some c \<longleftrightarrow> wf_MessageCookieReply c \<and> b = write_MessageCookieReply c)) \<and>
   (wf_MessageInitiation i \<longrightarrow> length (write_MessageInitiation i) = MessageInitiationSize) \<and>
   (wf_MessageResponse r \<longrightarrow> length (write_MessageResponse r) = MessageResponseSize) \<and>
   (wf_MessageCookieReply c \<longrightarrow> length (write_MessageCookieReply c) = MessageCookieReplySize)"
  using initiation.read_iff [of b i] response.read_iff [of b r] cookie_reply.read_iff [of b c]
    initiation.length_write [of i] response.length_write [of r] cookie_reply.length_write [of c]
  by (simp add: MessageInitiationSize_def MessageResponseSize_def MessageCookieReplySize_def)

text \<open>Witness of C31: a cookie reply, and an initiation and a response of constant bytes.\<close>

theorem message_roundtrips_witness:
  "read_MessageCookieReply (put_le32 3 @ put_le32 77 @ replicate 24 1 @ replicate 32 2) =
     Some \<lparr>mc_Type = 3, mc_Receiver = 77, mc_Nonce = replicate 24 1, mc_Cookie = replicate 32 2\<rparr>"
  using message_roundtrips [of "put_le32 3 @ put_le32 77 @ replicate 24 1 @ replicate 32 2"
    "\<lparr>mi_Type = 1, mi_Sender = 5, mi_Ephemeral = replicate 32 1, mi_Static = replicate 48 2, mi_Timestamp = replicate 28 3,
      mi_MAC1 = replicate 16 4, mi_MAC2 = replicate 16 5\<rparr>"
    "\<lparr>mr_Type = 2, mr_Sender = 5, mr_Receiver = 6, mr_Ephemeral = replicate 32 1, mr_Empty = replicate 16 3,
      mr_MAC1 = replicate 16 4, mr_MAC2 = replicate 16 5\<rparr>"
    "\<lparr>mc_Type = 3, mc_Receiver = 77, mc_Nonce = replicate 24 1, mc_Cookie = replicate 32 2\<rparr>"]
  by (simp add: MessageCookieReplySize_def wf_MessageCookieReply_def write_MessageCookieReply_def)

end
