(* ===== verification/Constants.thy ===== *)
theory Constants
  imports Messages
begin

text \<open>The constants of \<^verbatim>\<open>constants.go\<close>, \<^verbatim>\<open>queueconstants.go\<close> and \<^verbatim>\<open>ip.go\<close>.\<close>

section \<open>Protocol\<close>

definition RekeyAfterMessages :: u64 where "RekeyAfterMessages = 2 ^ 64 - 2 ^ 16 - 1"
definition RejectAfterMessages :: u64 where "RejectAfterMessages = 2 ^ 64 - 2 ^ 4 - 1"
definition RekeyAfterTime :: duration where "RekeyAfterTime = Second * 1200"
definition RekeyAttemptTime :: duration where "RekeyAttemptTime = Second * 900"
definition RekeyTimeout :: duration where "RekeyTimeout = Second * 50"
definition MaxTimerHandshakes :: nat where "MaxTimerHandshakes = 900 div 50"
definition RekeyTimeoutJitterMaxMs :: int where "RekeyTimeoutJitterMaxMs = 334"
definition RejectAfterTime :: duration where "RejectAfterTime = Second * 180"
definition KeepaliveTimeout :: duration where "KeepaliveTimeout = Second * 100"
definition CookieRefreshTime :: duration where "CookieRefreshTime = Second * 120"
definition HandshakeInitationRate :: duration where "HandshakeInitationRate = Second div 20"
definition PaddingMultiple :: nat where "PaddingMultiple = 16"

section \<open>Implementation\<close>

definition QueueOutboundSize :: nat where "QueueOutboundSize = 1024"
definition QueueInboundSize :: nat where "QueueInboundSize = 1024"
definition QueueHandshakeSize :: nat where "QueueHandshakeSize = 1024"
definition MaxSegmentSize :: nat where "MaxSegmentSize = 2 ^ 16 - 1"

definition MinMessageSize :: nat where "MinMessageSize = MessageKeepaliveSize"
definition MaxMessageSize :: nat where "MaxMessageSize = MaxSegmentSize"
definition MaxContentSize :: nat where "MaxContentSize = MaxSegmentSize - MessageTransportSize"

definition UnderLoadQueueSize :: nat where "UnderLoadQueueSize = QueueHandshakeSize div 8"
definition UnderLoadAfterTime :: duration where "UnderLoadAfterTime = Second"
definition MaxPeers :: nat where "MaxPeers = 2 ^ 16"

section \<open>IP headers\<close>

definition IPv4offsetTotalLength :: nat where "IPv4offsetTotalLength = 2"
definition IPv4offsetSrc :: nat where "IPv4offsetSrc = 12"
definition IPv4offsetDst :: nat where "IPv4offsetDst = IPv4offsetSrc + 4"
definition IPv6offsetPayloadLength :: nat where "IPv6offsetPayloadLength = 4"
definition IPv6offsetSrc :: nat where "IPv6offsetSrc = 8"
definition IPv6offsetDst :: nat where "IPv6offsetDst = IPv6offsetSrc + 16"

lemmas time_consts = Second_def Millisecond_def RekeyAfterTime_def RekeyAttemptTime_def RekeyTimeout_def
  RekeyTimeoutJitterMaxMs_def RejectAfterTime_def KeepaliveTimeout_def CookieRefreshTime_def HandshakeInitationRate_def
  UnderLoadAfterTime_def

lemmas size_consts = MessageInitiationSize_def MessageResponseSize_def MessageCookieReplySize_def
  MessageTransportHeaderSize_def MessageTransportSize_def MessageKeepaliveSize_def MessageHandshakeSize_def TagSize_def
  MaxSegmentSize_def MinMessageSize_def MaxMessageSize_def MaxContentSize_def

end
