(* ===== verification/Cookie.thy ===== *)
theory Cookie
  imports Kdf Aead Constants
begin

unbundle bit_operations_syntax

text \<open>
  The cookies of \<^verbatim>\<open>cookie.go\<close>: the checker of the responder, the generator of the initiator, and the exchange between
  them. A message is the packet as bytes; its last 32 bytes are the two authenticators.
\<close>

section \<open>Model\<close>

definition WGLabelMAC1 :: string where "WGLabelMAC1 = ''mac1----''"
definition WGLabelCookie :: string where "WGLabelCookie = ''cookie--''"

record CookieChecker =
  cc_mac1_key :: bytes
  cc_secret :: bytes
  cc_secretSet :: time
  cc_encryptionKey :: bytes

record CookieGenerator =
  cg_mac1_key :: bytes
  cg_cookie :: bytes
  cg_cookieSet :: time
  cg_hasLastMAC1 :: bool
  cg_lastMAC1 :: bytes
  cg_encryptionKey :: bytes

definition new_CookieChecker :: CookieChecker where
  "new_CookieChecker = \<lparr>cc_mac1_key = replicate 32 0, cc_secret = replicate 32 0, cc_secretSet = zero_time,
     cc_encryptionKey = replicate 32 0\<rparr>"

definition new_CookieGenerator :: CookieGenerator where
  "new_CookieGenerator = \<lparr>cg_mac1_key = replicate 32 0, cg_cookie = replicate 16 0, cg_cookieSet = zero_time,
     cg_hasLastMAC1 = False, cg_lastMAC1 = replicate 16 0, cg_encryptionKey = replicate 32 0\<rparr>"

text \<open>A 256-bit hash of a label and a key, and a keyed 128-bit one; an unusable key is a nil hash and a panic.\<close>

definition label_hash :: "string \<Rightarrow> NoisePublicKey \<Rightarrow> bytes" where
  "label_hash label pk = digest_Sum (digest_Write (digest_Write new_hash (string_bytes label)) pk)"

definition mac128 :: "bytes \<Rightarrow> bytes \<Rightarrow> bytes option" where
  "mac128 key data = do { mac \<leftarrow> New128 key; Some (digest_Sum (digest_Write mac data)) }"

definition CookieChecker_Init :: "NoisePublicKey \<Rightarrow> CookieChecker \<Rightarrow> CookieChecker" where
  "CookieChecker_Init pk st =
     st\<lparr>cc_mac1_key := label_hash WGLabelMAC1 pk, cc_encryptionKey := label_hash WGLabelCookie pk,
        cc_secretSet := zero_time\<rparr>"

definition CheckMAC1 :: "CookieChecker \<Rightarrow> bytes \<Rightarrow> bool option" where
  "CheckMAC1 st msg =
     (let size = length msg in
      if size < 2 * Size128 then None
      else
        let smac2 = size - Size128; smac1 = smac2 - Size128 in
        do {
          prefix \<leftarrow> slice 0 smac1 msg;
          mac1 \<leftarrow> mac128 (cc_mac1_key st) prefix;
          sent \<leftarrow> slice smac1 smac2 msg;
          Some (ConstantTimeCompare mac1 sent = 1)
        })"

definition CheckMAC2 :: "time \<Rightarrow> CookieChecker \<Rightarrow> bytes \<Rightarrow> bytes \<Rightarrow> bool option" where
  "CheckMAC2 now st msg src =
     (if time_sub now (cc_secretSet st) > CookieRefreshTime then Some False
      else
        do {
          cookie \<leftarrow> mac128 (cc_secret st) src;
          if length msg < Size128 then None
          else
            let smac2 = length msg - Size128 in
            do {
              prefix \<leftarrow> slice 0 smac2 msg;
              mac2 \<leftarrow> mac128 cookie prefix;
              Some (ConstantTimeCompare mac2 (drop smac2 msg) = 1)
            }
        })"

text \<open>
  \<open>CreateReply\<close> reads the clock once to test the age of the secret and once more when it refreshes it, and draws the secret
  and the nonce. The result is the failure of the random source (\<^const>\<open>None\<close>) or the reply, and the new state.
\<close>

definition refresh_secret :: "time \<Rightarrow> time \<Rightarrow> bytes \<times> bool \<Rightarrow> CookieChecker \<Rightarrow> bool \<times> CookieChecker" where
  "refresh_secret now now' draw st =
     (if time_sub now (cc_secretSet st) > CookieRefreshTime then
        let st = st\<lparr>cc_secret := copy_into (cc_secret st) (fst draw)\<rparr> in
        if snd draw then (True, st) else (False, st\<lparr>cc_secretSet := now'\<rparr>)
      else (False, st))"

definition CreateReply :: "time \<Rightarrow> time \<Rightarrow> bytes \<times> bool \<Rightarrow> bytes \<times> bool \<Rightarrow> bytes \<Rightarrow> u32 \<Rightarrow> bytes \<Rightarrow> CookieChecker \<Rightarrow>
    (MessageCookieReply option \<times> CookieChecker) option" where
  "CreateReply now now' secret_draw nonce_draw msg recv src st =
     (let (err, st) = refresh_secret now now' secret_draw st in
      if err then Some (None, st)
      else do {
        cookie \<leftarrow> mac128 (cc_secret st) src;
        let size = length msg;
        let reply = \<lparr>mc_Type = MessageCookieReplyType, mc_Receiver = recv,
                     mc_Nonce = copy_into (replicate 24 0) (fst nonce_draw), mc_Cookie = replicate 32 0\<rparr>;
        if snd nonce_draw then Some (None, st)
        else if size < 2 * Size128 then None
        else
          let smac2 = size - Size128; smac1 = smac2 - Size128 in
          do {
            mac1 \<leftarrow> slice smac1 smac2 msg;
            c \<leftarrow> XEncrypt (mc_Nonce reply) cookie mac1 (cc_encryptionKey st);
            Some (Some (reply\<lparr>mc_Cookie := copy_into (mc_Cookie reply) c\<rparr>), st)
          }
      })"

definition CookieGenerator_Init :: "NoisePublicKey \<Rightarrow> CookieGenerator \<Rightarrow> CookieGenerator" where
  "CookieGenerator_Init pk st =
     st\<lparr>cg_mac1_key := label_hash WGLabelMAC1 pk, cg_encryptionKey := label_hash WGLabelCookie pk,
        cg_cookieSet := zero_time\<rparr>"

definition ConsumeReply :: "time \<Rightarrow> MessageCookieReply \<Rightarrow> CookieGenerator \<Rightarrow> (bool \<times> CookieGenerator) option" where
  "ConsumeReply now msg st =
     (if \<not> cg_hasLastMAC1 st then Some (False, st)
      else do {
        r \<leftarrow> XDecrypt (mc_Nonce msg) (mc_Cookie msg) (cg_lastMAC1 st) (cg_encryptionKey st);
        case r of
          Inl err \<Rightarrow> Some (False, st)
        | Inr cookie \<Rightarrow> Some (True, st\<lparr>cg_cookieSet := now, cg_cookie := copy_into (replicate 16 0) cookie\<rparr>)
      })"

definition AddMacs :: "time \<Rightarrow> bytes \<Rightarrow> CookieGenerator \<Rightarrow> (bytes \<times> CookieGenerator) option" where
  "AddMacs now msg st =
     (let size = length msg in
      if size < 2 * Size128 then None
      else
        let smac2 = size - Size128; smac1 = smac2 - Size128 in
        do {
          mac1 \<leftarrow> mac128 (cg_mac1_key st) (take smac1 msg);
          let msg = take smac1 msg @ mac1 @ drop smac2 msg;
          let st = st\<lparr>cg_lastMAC1 := mac1, cg_hasLastMAC1 := True\<rparr>;
          if time_sub now (cg_cookieSet st) > CookieRefreshTime then Some (msg, st)
          else do {
            mac2 \<leftarrow> mac128 (cg_cookie st) (take smac2 msg);
            Some (take smac2 msg @ mac2, st)
          }
        })"

section \<open>Well-formed states\<close>

definition wf_checker :: "CookieChecker \<Rightarrow> bool" where
  "wf_checker st \<longleftrightarrow> length (cc_mac1_key st) = 32 \<and> length (cc_secret st) = 32 \<and> length (cc_encryptionKey st) = 32"

definition wf_generator :: "CookieGenerator \<Rightarrow> bool" where
  "wf_generator st \<longleftrightarrow> length (cg_mac1_key st) = 32 \<and> length (cg_cookie st) = 16 \<and> length (cg_lastMAC1 st) = 16 \<and>
     length (cg_encryptionKey st) = 32"

lemma label_hash_Sum256: "label_hash label pk = Sum256 (string_bytes label @ pk)"
  using blake.stream [of "[string_bytes label, pk]"] by (simp add: label_hash_def)

lemma mac128_total: "key \<noteq> [] \<Longrightarrow> length key \<le> 32 \<Longrightarrow> \<exists>m. mac128 key data = Some m \<and> length m = 16"
proof -
  assume key: "key \<noteq> []" "length key \<le> 32"
  then obtain d where d: "newDigest Size128 key = Some d" by (simp add: newDigest_def Size_def)
  from digest_stream [OF d, of "[data]"] have "length (digest_Sum (digest_Write d data)) = 16"
    by (simp add: Size128_def hash_message_def)
  then show ?thesis using d key by (simp add: mac128_def New128_def)
qed

lemma mac128_key:
  assumes "length key = 32 \<or> length key = 16"
  obtains m where "mac128 key data = Some m" "length m = 16"
  using mac128_total [of key data] assms by (cases key) auto

lemma wf_checker_Init [intro]: "wf_checker st \<Longrightarrow> wf_checker (CookieChecker_Init pk st)"
  by (simp add: wf_checker_def CookieChecker_Init_def label_hash_Sum256)

lemma wf_generator_Init [intro]: "wf_generator st \<Longrightarrow> wf_generator (CookieGenerator_Init pk st)"
  by (simp add: wf_generator_def CookieGenerator_Init_def label_hash_Sum256)

lemma wf_new_cookies: "wf_checker new_CookieChecker" "wf_generator new_CookieGenerator"
  by (simp_all add: wf_checker_def wf_generator_def new_CookieChecker_def new_CookieGenerator_def)

section \<open>Adding and checking authenticators\<close>

lemma AddMacs_total:
  assumes "wf_generator st" "32 \<le> length msg"
  obtains mac1 mac2 where "mac128 (cg_mac1_key st) (take (length msg - 32) msg) = Some mac1" "length mac1 = 16" "length mac2 = 16"
    "AddMacs now msg st = Some (take (length msg - 32) msg @ mac1 @ mac2, st\<lparr>cg_lastMAC1 := mac1, cg_hasLastMAC1 := True\<rparr>)"
    "time_sub now (cg_cookieSet st) > CookieRefreshTime \<Longrightarrow> mac2 = drop (length msg - 16) msg"
    "time_sub now (cg_cookieSet st) \<le> CookieRefreshTime \<Longrightarrow>
       mac128 (cg_cookie st) (take (length msg - 32) msg @ mac1) = Some mac2"
proof -
  let ?p = "take (length msg - 32) msg"
  obtain mac1 where m1: "mac128 (cg_mac1_key st) ?p = Some mac1" "length mac1 = 16"
    using assms mac128_key [of "cg_mac1_key st"] by (auto simp: wf_generator_def)
  obtain mac2 where m2: "mac128 (cg_cookie st) (?p @ mac1) = Some mac2" "length mac2 = 16"
    using assms mac128_key [of "cg_cookie st"] by (auto simp: wf_generator_def)
  have len: "length (drop (length msg - 16) msg) = 16" using assms(2) by simp
  have t: "take (length msg - 16) (?p @ mac1 @ drop (length msg - 16) msg) = ?p @ mac1" using assms(2) m1(2) by simp
  show ?thesis
  proof (cases "time_sub now (cg_cookieSet st) > CookieRefreshTime")
    case True
    with that [of mac1 "drop (length msg - 16) msg"] show ?thesis
      using m1 len assms(2) by (simp add: AddMacs_def Let_def Size128_def)
  next
    case False
    with that [of mac1 mac2] show ?thesis
      using m1 m2 t assms(2) by (simp add: AddMacs_def Let_def Size128_def)
  qed
qed

lemma CheckMAC1_iff:
  assumes "wf_checker st" "32 \<le> length msg"
  shows "CheckMAC1 st msg = Some (mac128 (cc_mac1_key st) (take (length msg - 32) msg) = Some (take 16 (drop (length msg - 32) msg)))"
proof -
  obtain m where m: "mac128 (cc_mac1_key st) (take (length msg - 32) msg) = Some m"
    using assms mac128_key [of "cc_mac1_key st"] by (auto simp: wf_checker_def)
  have "length msg - 16 - (length msg - 32) = 16" using assms(2) by simp
  then have "CheckMAC1 st msg = Some (m = take 16 (drop (length msg - 32) msg))"
    unfolding CheckMAC1_def Let_def Size128_def slice_def using m assms(2)
    by (simp add: ConstantTimeCompare_iff cong: bind_weak_cong)
  then show ?thesis using m by simp
qed

lemma CheckMAC2_iff:
  assumes "wf_checker st" "16 \<le> length msg" "time_sub now (cc_secretSet st) \<le> CookieRefreshTime"
  shows "CheckMAC2 now st msg src = Some (\<exists>cookie. mac128 (cc_secret st) src = Some cookie \<and>
    mac128 cookie (take (length msg - 16) msg) = Some (drop (length msg - 16) msg))"
proof -
  obtain cookie where c: "mac128 (cc_secret st) src = Some cookie" "length cookie = 16"
    using assms mac128_key [of "cc_secret st"] by (auto simp: wf_checker_def)
  obtain m where m: "mac128 cookie (take (length msg - 16) msg) = Some m"
    using c(2) mac128_key [of cookie] by auto
  have "CheckMAC2 now st msg src = Some (m = drop (length msg - 16) msg)"
    unfolding CheckMAC2_def Let_def Size128_def slice_def c(1) using assms(2,3) m
    by (simp add: ConstantTimeCompare_iff cong: bind_weak_cong)
  then show ?thesis using c m by simp
qed

section \<open>The exchange of a cookie\<close>

lemma refresh_secret_ok:
  assumes "wf_checker st" "time_sub now (cc_secretSet st) > CookieRefreshTime \<Longrightarrow> \<not> snd draw"
  obtains st' where "refresh_secret now now' draw st = (False, st')" "wf_checker st'" "cc_mac1_key st' = cc_mac1_key st"
    "cc_encryptionKey st' = cc_encryptionKey st"
    "cc_secretSet st' = (if time_sub now (cc_secretSet st) > CookieRefreshTime then now' else cc_secretSet st)"
proof (cases "time_sub now (cc_secretSet st) > CookieRefreshTime")
  case True
  with that [of "st\<lparr>cc_secret := copy_into (cc_secret st) (fst draw), cc_secretSet := now'\<rparr>"] assms show ?thesis
    by (simp add: refresh_secret_def wf_checker_def)
next
  case False
  with that [of st] assms show ?thesis by (simp add: refresh_secret_def)
qed

lemma CreateReply_total:
  assumes "wf_checker st" "32 \<le> length msg" "\<not> snd nonce_draw"
    "time_sub now (cc_secretSet st) > CookieRefreshTime \<Longrightarrow> \<not> snd secret_draw"
  obtains reply st' cookie where "CreateReply now now' secret_draw nonce_draw msg recv src st = Some (Some reply, st')"
    "wf_MessageCookieReply reply" "mc_Type reply = MessageCookieReplyType" "mc_Receiver reply = recv"
    "wf_checker st'" "cc_mac1_key st' = cc_mac1_key st" "cc_encryptionKey st' = cc_encryptionKey st"
    "mac128 (cc_secret st') src = Some cookie" "length cookie = 16"
    "cc_secretSet st' = (if time_sub now (cc_secretSet st) > CookieRefreshTime then now' else cc_secretSet st)"
    "XDecrypt (mc_Nonce reply) (mc_Cookie reply) (take 16 (drop (length msg - 32) msg)) (cc_encryptionKey st) = Some (Inr cookie)"
proof -
  obtain st' where st': "refresh_secret now now' secret_draw st = (False, st')" "wf_checker st'" "cc_mac1_key st' = cc_mac1_key st"
    "cc_encryptionKey st' = cc_encryptionKey st"
    "cc_secretSet st' = (if time_sub now (cc_secretSet st) > CookieRefreshTime then now' else cc_secretSet st)"
    by (rule refresh_secret_ok [OF assms(1,4)])
  obtain cookie where c: "mac128 (cc_secret st') src = Some cookie" "length cookie = 16"
    using st'(2) mac128_key [of "cc_secret st'"] by (auto simp: wf_checker_def)
  let ?n = "copy_into (replicate 24 0) (fst nonce_draw)" and ?mac1 = "take 16 (drop (length msg - 32) msg)"
  have "length (cc_encryptionKey st') = 32" "ok_xnonce ?n" using st'(2) by (simp_all add: wf_checker_def ok_xnonce_def)
  from xaead.seal_unseal [OF this, of cookie ?mac1] c(2)
  obtain e where e: "XEncrypt ?n cookie ?mac1 (cc_encryptionKey st') = Some e" "length e = 32"
    "XDecrypt ?n e ?mac1 (cc_encryptionKey st') = Some (Inr cookie)" by auto
  let ?reply = "\<lparr>mc_Type = MessageCookieReplyType, mc_Receiver = recv, mc_Nonce = ?n, mc_Cookie = e\<rparr>"
  have "length msg - 16 - (length msg - 32) = 16" using assms(2) by simp
  then have "CreateReply now now' secret_draw nonce_draw msg recv src st = Some (Some ?reply, st')"
    unfolding CreateReply_def Let_def Size128_def slice_def st'(1) using c(1) e(1,2) assms(2,3)
    by (simp cong: bind_weak_cong)
  then show ?thesis
    using that [of ?reply st' cookie] st' c e by (simp add: wf_MessageCookieReply_def)
qed

lemma ConsumeReply_cookie:
  assumes "cg_hasLastMAC1 st" "XDecrypt (mc_Nonce reply) (mc_Cookie reply) (cg_lastMAC1 st) (cg_encryptionKey st) = Some (Inr cookie)"
    "length cookie = 16"
  shows "ConsumeReply now reply st = Some (True, st\<lparr>cg_cookieSet := now, cg_cookie := cookie\<rparr>)"
  using assms by (simp add: ConsumeReply_def)

section \<open>Properties\<close>

text \<open>The peer's generator and the device's checker derive the same keys from the public key of the responder.\<close>

definition same_keys :: "CookieChecker \<Rightarrow> CookieGenerator \<Rightarrow> bool" where
  "same_keys c g \<longleftrightarrow> cc_mac1_key c = cg_mac1_key g \<and> cc_encryptionKey c = cg_encryptionKey g"

lemma AddMacs_CheckMAC1:
  assumes "wf_checker c" "wf_generator g" "same_keys c g" "32 \<le> length msg"
  obtains p g' where "AddMacs now msg g = Some (p, g')" "length p = length msg"
    "take (length msg - 32) p = take (length msg - 32) msg" "CheckMAC1 c p = Some True" "wf_generator g'" "same_keys c g'"
    "cg_hasLastMAC1 g'" "cg_lastMAC1 g' = take 16 (drop (length msg - 32) p)"
    "cg_cookie g' = cg_cookie g" "cg_cookieSet g' = cg_cookieSet g"
    "time_sub now (cg_cookieSet g) \<le> CookieRefreshTime \<Longrightarrow>
       mac128 (cg_cookie g) (take (length msg - 16) p) = Some (drop (length msg - 16) p)"
proof -
  obtain mac1 mac2 where m: "mac128 (cg_mac1_key g) (take (length msg - 32) msg) = Some mac1" "length mac1 = 16" "length mac2 = 16"
    "AddMacs now msg g = Some (take (length msg - 32) msg @ mac1 @ mac2, g\<lparr>cg_lastMAC1 := mac1, cg_hasLastMAC1 := True\<rparr>)"
    "time_sub now (cg_cookieSet g) \<le> CookieRefreshTime \<Longrightarrow>
       mac128 (cg_cookie g) (take (length msg - 32) msg @ mac1) = Some mac2"
    using AddMacs_total [OF assms(2,4)] by metis
  let ?p = "take (length msg - 32) msg @ mac1 @ mac2"
  have l: "length ?p = length msg" "drop (length msg - 32) ?p = mac1 @ mac2" "take (length msg - 32) ?p = take (length msg - 32) msg"
    "take (length msg - 16) ?p = take (length msg - 32) msg @ mac1" "drop (length msg - 16) ?p = mac2"
    using assms(4) m(2,3) by simp_all
  have "32 \<le> length ?p" using l(1) assms(4) by simp
  then have "CheckMAC1 c ?p = Some True"
    unfolding CheckMAC1_iff [OF assms(1) \<open>32 \<le> length ?p\<close>] l using assms(3) m(1,2) by (simp add: same_keys_def)
  then show ?thesis
    using that [OF m(4)] l m assms(2,3) by (simp add: wf_generator_def same_keys_def)
qed

lemma same_keys_Init: "same_keys (CookieChecker_Init pk c) (CookieGenerator_Init pk g)"
  by (simp add: same_keys_def CookieChecker_Init_def CookieGenerator_Init_def)

text \<open>
  C13: a complete cookie exchange, from freshly initialised states for the same public key. The first message is sent with a valid first
  authenticator; the responder under load answers it with a cookie for the source address; the initiator accepts
  the reply; and its next message, sent within \<open>CookieRefreshTime\<close> of that and checked within
  \<open>CookieRefreshTime\<close> of the responder's choice of its secret, passes both checks. No step panics.
\<close>

theorem cookie_exchange:
  assumes "wf_checker c" "wf_generator g" "32 \<le> length msg1" "32 \<le> length msg2" "\<not> snd secret_draw" "\<not> snd nonce_draw"
    and times: "0 \<le> t" "t < 2 ^ 62" "time_sub t5 t4 \<le> CookieRefreshTime" "time_sub t6 t3 \<le> CookieRefreshTime"
  shows "\<exists>p1 g1 reply c1 g2 p2 g3.
    AddMacs t1 msg1 (CookieGenerator_Init pk g) = Some (p1, g1) \<and>
    length p1 = length msg1 \<and> take (length msg1 - 32) p1 = take (length msg1 - 32) msg1 \<and>
    CheckMAC1 (CookieChecker_Init pk c) p1 = Some True \<and>
    CreateReply t t3 secret_draw nonce_draw p1 recv src (CookieChecker_Init pk c) = Some (Some reply, c1) \<and>
    ConsumeReply t4 reply g1 = Some (True, g2) \<and>
    AddMacs t5 msg2 g2 = Some (p2, g3) \<and> CheckMAC1 c1 p2 = Some True \<and> CheckMAC2 t6 c1 p2 src = Some True"
proof -
  let ?c = "CookieChecker_Init pk c" and ?g = "CookieGenerator_Init pk g"
  have wf: "wf_checker ?c" "wf_generator ?g" using assms(1,2) by auto
  obtain p1 g1 where 1: "AddMacs t1 msg1 ?g = Some (p1, g1)" "length p1 = length msg1"
    "take (length msg1 - 32) p1 = take (length msg1 - 32) msg1" "CheckMAC1 ?c p1 = Some True" "wf_generator g1" "same_keys ?c g1"
    "cg_hasLastMAC1 g1" "cg_lastMAC1 g1 = take 16 (drop (length msg1 - 32) p1)"
    using AddMacs_CheckMAC1 [OF wf same_keys_Init assms(3)] by metis
  have old: "time_sub t (cc_secretSet ?c) > CookieRefreshTime"
    using times by (simp add: CookieChecker_Init_def zero_time_def time_sub_def time_consts)
  have "32 \<le> length p1" using 1(2) assms(3) by simp
  from CreateReply_total [OF wf(1) this assms(6), of t secret_draw t3 recv src] assms(5)
  obtain reply c1 cookie where 2: "CreateReply t t3 secret_draw nonce_draw p1 recv src ?c = Some (Some reply, c1)" "wf_checker c1"
    "cc_mac1_key c1 = cc_mac1_key ?c" "cc_encryptionKey c1 = cc_encryptionKey ?c" "mac128 (cc_secret c1) src = Some cookie"
    "length cookie = 16" "cc_secretSet c1 = t3"
    "XDecrypt (mc_Nonce reply) (mc_Cookie reply) (take 16 (drop (length p1 - 32) p1)) (cc_encryptionKey ?c) = Some (Inr cookie)"
    using old by metis
  let ?g2 = "g1\<lparr>cg_cookieSet := t4, cg_cookie := cookie\<rparr>"
  have 3: "ConsumeReply t4 reply g1 = Some (True, ?g2)"
    using 1 2 by (intro ConsumeReply_cookie) (simp_all add: same_keys_def)
  have g2: "wf_generator ?g2" "same_keys c1 ?g2" using 1 2 by (simp_all add: wf_generator_def same_keys_def)
  obtain p2 g3 where 4: "AddMacs t5 msg2 ?g2 = Some (p2, g3)" "length p2 = length msg2" "CheckMAC1 c1 p2 = Some True"
    "mac128 cookie (take (length msg2 - 16) p2) = Some (drop (length msg2 - 16) p2)"
    by (rule AddMacs_CheckMAC1 [OF 2(2) g2 assms(4), of t5]) (simp add: times(3))
  have "CheckMAC2 t6 c1 p2 src = Some True"
    using CheckMAC2_iff [OF 2(2), of p2 t6 src] assms(4) times(4) 2(5,7) 4(2,4) by simp
  with 1 2(1) 3 4 show ?thesis by blast
qed

text \<open>Witness of C13: an exchange over ten seconds between fresh states.\<close>

theorem cookie_exchange_witness:
  "\<exists>p1 g1 reply c1 g2 p2 g3.
    AddMacs 0 (replicate 148 1) (CookieGenerator_Init (replicate 32 9) new_CookieGenerator) = Some (p1, g1) \<and>
    CheckMAC1 (CookieChecker_Init (replicate 32 9) new_CookieChecker) p1 = Some True \<and>
    CreateReply 1000 1001 (replicate 32 3, False) (replicate 24 4, False) p1 77 [127, 0, 0, 1]
      (CookieChecker_Init (replicate 32 9) new_CookieChecker) = Some (Some reply, c1) \<and>
    ConsumeReply 2000 reply g1 = Some (True, g2) \<and>
    AddMacs (2000 + 10 * Second) (replicate 148 2) g2 = Some (p2, g3) \<and>
    CheckMAC1 c1 p2 = Some True \<and> CheckMAC2 (3000 + 10 * Second) c1 p2 [127, 0, 0, 1] = Some True"
  using cookie_exchange [OF wf_new_cookies, of "replicate 148 1" "replicate 148 2" "(replicate 32 3, False)" "(replicate 24 4, False)"
      1000 "2000 + 10 * Second" 2000 "3000 + 10 * Second" 1001 0 "replicate 32 9" 77 "[127, 0, 0, 1]"]
  by (simp add: time_consts time_sub_def) blast

end
