(* ===== verification/Wgtee.thy ===== *)
theory Wgtee
  imports NoiseTypes
begin

text \<open>
  The client of the trusted application in \<^verbatim>\<open>wgtee/wgtee.go\<close>, its C part included. The trusted application and the library
  that talks to it are not part of the program: a call is a parameter that maps the request and response buffers
  to a status and the new response buffer, and \<open>fresh\<close> is what \<^verbatim>\<open>malloc\<close> leaves in new memory. The two buffers are
  global variables of the C code and keep their content from call to call.
\<close>

section \<open>Model\<close>

definition GenerateKeyPair_CMD :: u32 where "GenerateKeyPair_CMD = 2"
definition GetPublickeyByID_CMD :: u32 where "GetPublickeyByID_CMD = 3"
definition CurveMul_CMD :: u32 where "CurveMul_CMD = 4"

definition SET_PIN_UI :: u32 where "SET_PIN_UI = 9"
definition INPUT_PIN_UI :: u32 where "INPUT_PIN_UI = 10"

definition SAR_OK :: u32 where "SAR_OK = 0"
definition SAR_TEECOMMERR :: u32 where "SAR_TEECOMMERR = 0x0A000034"

definition CUR25519_PUB_KEY_LENGTH :: nat where "CUR25519_PUB_KEY_LENGTH = 32"

record ts_buffers =
  mreq_cmd :: u32
  mreq_data :: bytes
  mrsp_ret :: u32
  mrsp_data :: bytes

text \<open>A call of \<^verbatim>\<open>ts_ca_ui\<close> (with its dialogue) or \<^verbatim>\<open>ts_ca_send\<close>: the status and the response part of the buffers.\<close>

type_synonym tee_call = "u32 option \<Rightarrow> u32 \<Rightarrow> bytes \<Rightarrow> u32 \<times> u32 \<times> bytes"

definition ts_call :: "tee_call \<Rightarrow> u32 option \<Rightarrow> ts_buffers \<Rightarrow> u32 \<times> ts_buffers" where
  "ts_call call ui m =
     (case call ui (mreq_cmd m) (mreq_data m) of
        (status, ret, data) \<Rightarrow>
          if status = 0 then (status, m\<lparr>mrsp_ret := ret, mrsp_data := data\<rparr>) else (status, m))"

text \<open>A C \<^verbatim>\<open>int\<close> is stored in little-endian order.\<close>

definition Core_GenerateKeyPair :: "tee_call \<Rightarrow> bytes \<Rightarrow> ts_buffers \<Rightarrow> u32 \<times> bytes \<times> u32 option \<times> ts_buffers" where
  "Core_GenerateKeyPair call fresh m =
     (let m = m\<lparr>mreq_cmd := GenerateKeyPair_CMD\<rparr>;
          pubkey = take CUR25519_PUB_KEY_LENGTH fresh;
          m = m\<lparr>mrsp_ret := SAR_TEECOMMERR\<rparr>;
          (status, m) = ts_call call (Some SET_PIN_UI) m
      in if status = 0 then
           if mrsp_ret m = SAR_OK
           then (SAR_OK, take CUR25519_PUB_KEY_LENGTH (drop 4 (mrsp_data m)), Some (le_u32 (mrsp_data m)), m)
           else (mrsp_ret m, pubkey, None, m)
         else (SAR_TEECOMMERR, pubkey, None, m))"

definition Core_GetPublickeyByID :: "tee_call \<Rightarrow> bytes \<Rightarrow> u32 \<Rightarrow> ts_buffers \<Rightarrow> u32 \<times> bytes \<times> ts_buffers" where
  "Core_GetPublickeyByID call fresh ID m =
     (let m = m\<lparr>mreq_cmd := GetPublickeyByID_CMD, mreq_data := put_le32 ID @ drop 4 (mreq_data m)\<rparr>;
          pubkey = take CUR25519_PUB_KEY_LENGTH fresh;
          m = m\<lparr>mrsp_ret := SAR_TEECOMMERR\<rparr>;
          (status, m) = ts_call call None m
      in if status = 0 then
           if mrsp_ret m = SAR_OK
           then (mrsp_ret m, take CUR25519_PUB_KEY_LENGTH (mrsp_data m), m)
           else (mrsp_ret m, pubkey, m)
         else (SAR_TEECOMMERR, pubkey, m))"

definition Core_CurveMul :: "tee_call \<Rightarrow> bytes \<Rightarrow> bytes \<Rightarrow> u32 \<Rightarrow> ts_buffers \<Rightarrow> u32 \<times> bytes \<times> ts_buffers" where
  "Core_CurveMul call fresh point ID m =
     (let m = m\<lparr>mreq_cmd := CurveMul_CMD,
            mreq_data := put_le32 ID @ take CUR25519_PUB_KEY_LENGTH point @ drop 36 (mreq_data m)\<rparr>;
          rst = take CUR25519_PUB_KEY_LENGTH fresh;
          m = m\<lparr>mrsp_ret := SAR_TEECOMMERR\<rparr>;
          (status, m) = ts_call call (Some INPUT_PIN_UI) m
      in if status = 0 then
           if mrsp_ret m = SAR_OK
           then (SAR_OK, take CUR25519_PUB_KEY_LENGTH (mrsp_data m), m)
           else (mrsp_ret m, rst, m)
         else (SAR_TEECOMMERR, rst, m))"

text \<open>The Go side copies C memory byte by byte in both directions.\<close>

definition cArrayToByteSlice :: "bytes \<Rightarrow> nat \<Rightarrow> bytes" where
  "cArrayToByteSlice array sz = map (\<lambda>i. array ! i) [0..<sz]"

definition byteSliceToCArray :: "bytes \<Rightarrow> bytes" where
  "byteSliceToCArray byteSlice = map (\<lambda>i. byteSlice ! i) [0..<length byteSlice]"

definition TeeGetPubKeyByID :: "tee_call \<Rightarrow> bytes \<Rightarrow> u32 \<Rightarrow> ts_buffers \<Rightarrow> bytes \<times> ts_buffers" where
  "TeeGetPubKeyByID call fresh i m =
     (case Core_GetPublickeyByID call fresh i m of (ret, pubkey, m) \<Rightarrow> (cArrayToByteSlice pubkey 32, m))"

text \<open>The Go variable for the identifier starts at zero.\<close>

definition TeeGenerateKeyPair :: "tee_call \<Rightarrow> bytes \<Rightarrow> ts_buffers \<Rightarrow> bytes \<times> u32 \<times> ts_buffers" where
  "TeeGenerateKeyPair call fresh m =
     (case Core_GenerateKeyPair call fresh m of
        (ret, pubkey, i, m) \<Rightarrow> (cArrayToByteSlice pubkey 32, (case i of Some i \<Rightarrow> i | None \<Rightarrow> 0), m))"

definition TeeCurveMul :: "tee_call \<Rightarrow> bytes \<Rightarrow> bytes \<Rightarrow> u32 \<Rightarrow> ts_buffers \<Rightarrow> bytes \<times> ts_buffers" where
  "TeeCurveMul call fresh point i m =
     (case Core_CurveMul call fresh (byteSliceToCArray point) i m of
        (ret, rst, m) \<Rightarrow> (cArrayToByteSlice rst 32, m))"

text \<open>The conversion \<^verbatim>\<open>int32(*rk)\<close> of the identifier of a root key.\<close>

definition tee_id :: "RootPrivateKey \<Rightarrow> u32" where
  "tee_id rk = word_of_int rk"

definition RootPrivateKey_publicKey :: "tee_call \<Rightarrow> bytes \<Rightarrow> RootPrivateKey \<Rightarrow> ts_buffers \<Rightarrow> NoisePublicKey \<times> ts_buffers" where
  "RootPrivateKey_publicKey call fresh rk m =
     (case TeeGetPubKeyByID call fresh (tee_id rk) m of (rst, m) \<Rightarrow> (copy_into (replicate 32 0) rst, m))"

definition RootPrivateKey_sharedSecret ::
    "tee_call \<Rightarrow> bytes \<Rightarrow> RootPrivateKey \<Rightarrow> NoisePublicKey \<Rightarrow> ts_buffers \<Rightarrow> bytes \<times> ts_buffers" where
  "RootPrivateKey_sharedSecret call fresh rk pk m =
     (case TeeCurveMul call fresh pk (tee_id rk) m of (rst, m) \<Rightarrow> (copy_into (replicate 32 0) rst, m))"

section \<open>Lemmas\<close>

lemma cArrayToByteSlice_take: "n \<le> length a \<Longrightarrow> cArrayToByteSlice a n = take n a"
  by (rule nth_equalityI) (simp_all add: cArrayToByteSlice_def)

lemma length_cArrayToByteSlice [simp]: "length (cArrayToByteSlice a n) = n"
  by (simp add: cArrayToByteSlice_def)

lemma byteSliceToCArray_id [simp]: "byteSliceToCArray b = b"
  by (simp add: byteSliceToCArray_def map_nth)

lemma TeeCurveMul_ok:
  assumes "call (Some INPUT_PIN_UI) CurveMul_CMD (put_le32 i @ take 32 point @ drop 36 (mreq_data m)) = (0, SAR_OK, data)"
    "32 \<le> length data"
  shows "fst (TeeCurveMul call fresh point i m) = take 32 data"
  using assms
  by (simp add: TeeCurveMul_def Core_CurveMul_def ts_call_def Let_def CUR25519_PUB_KEY_LENGTH_def cArrayToByteSlice_take)

lemma TeeCurveMul_failed:
  assumes "call (Some INPUT_PIN_UI) CurveMul_CMD (put_le32 i @ take 32 point @ drop 36 (mreq_data m)) = (status, ret, data)"
    "status \<noteq> 0 \<or> ret \<noteq> SAR_OK" "length fresh = 32"
  shows "fst (TeeCurveMul call fresh point i m) = fresh"
  using assms
  by (auto simp: TeeCurveMul_def Core_CurveMul_def ts_call_def Let_def CUR25519_PUB_KEY_LENGTH_def cArrayToByteSlice_take)

section \<open>Properties\<close>

text \<open>
  C32: a shared secret computed with a root key is the value the trusted application answers with when it succeeds; when the call
  fails, or the application refuses it (a wrong PIN, say), the failure is not reported and the secret is whatever
  the newly allocated memory held.
\<close>

theorem tee_shared_secret:
  assumes "call (Some INPUT_PIN_UI) CurveMul_CMD (put_le32 (tee_id rk) @ take 32 pk @ drop 36 (mreq_data m)) = (status, ret, data)"
    "32 \<le> length data" "length fresh = 32"
  shows "fst (RootPrivateKey_sharedSecret call fresh rk pk m) = (if status = 0 \<and> ret = SAR_OK then take 32 data else fresh)"
  using TeeCurveMul_ok [of call "tee_id rk" pk m data fresh] TeeCurveMul_failed [of call "tee_id rk" pk m status ret data fresh] assms
  by (auto simp: RootPrivateKey_sharedSecret_def split: prod.splits)

text \<open>Witness of C32: a call that cannot reach the application, with memory full of ones.\<close>

theorem tee_shared_secret_witness:
  "fst (RootPrivateKey_sharedSecret (\<lambda>ui cmd req. (1, 0, replicate 32 0)) (replicate 32 255) 5 (replicate 32 9)
     \<lparr>mreq_cmd = 0, mreq_data = replicate 64 0, mrsp_ret = 0, mrsp_data = replicate 64 0\<rparr>) = replicate 32 255"
  using tee_shared_secret [of "\<lambda>ui cmd req. (1, 0, replicate 32 0)" 5 "replicate 32 9"
    "\<lparr>mreq_cmd = 0, mreq_data = replicate 64 0, mrsp_ret = 0, mrsp_data = replicate 64 0\<rparr>" 1 0 "replicate 32 0" "replicate 32 255"]
  by simp

text \<open>
  C33: the device tells whether a root key is set by comparing the 64-bit identifier with zero, but the trusted application gets the
  lower 32 bits only: some identifiers that count as set name the same key as the identifier zero, and different
  identifiers name the same key.
\<close>

theorem root_key_id_truncated:
  "\<exists>rk. - (2 ^ 63) \<le> rk \<and> rk < 2 ^ 63 \<and> \<not> RootPrivateKey_IsZero rk \<and>
     (\<forall>call fresh pk m. RootPrivateKey_sharedSecret call fresh rk pk m = RootPrivateKey_sharedSecret call fresh 0 pk m)"
proof (intro exI conjI allI)
  show "- (2 ^ 63) \<le> (2 ^ 32 :: int)" "(2 ^ 32 :: int) < 2 ^ 63" by simp_all
  show "\<not> RootPrivateKey_IsZero (2 ^ 32)" by (simp add: RootPrivateKey_IsZero_def)
  have "tee_id (2 ^ 32) = tee_id 0" by (simp add: tee_id_def)
  then show "RootPrivateKey_sharedSecret call fresh (2 ^ 32) pk m = RootPrivateKey_sharedSecret call fresh 0 pk m" for call fresh pk m
    by (simp add: RootPrivateKey_sharedSecret_def)
qed

end
