(* ===== verification/State.thy ===== *)
theory State
  imports AllowedIPs Replay Ratelimiter IndexTable Tai64n Cookie Messages Wgtee
begin

text \<open>
  The state of a device: the structures of \<^verbatim>\<open>device.go\<close>, \<^verbatim>\<open>peer.go\<close>, \<^verbatim>\<open>keypair.go\<close>, \<^verbatim>\<open>timers.go\<close> and of the handshake in
  \<^verbatim>\<open>noise-protocol.go\<close>, and the work elements of \<^verbatim>\<open>send.go\<close> and \<^verbatim>\<open>receive.go\<close>. Objects that the code shares by pointer (peers,
  key pairs, work elements) live in heaps of the device and are referred to by address; a nil pointer is \<^const>\<open>None\<close>.
  An operation of the code is a function on the device. It yields \<^const>\<open>None\<close> where the code panics or never returns.
  Everything an operation takes from its surroundings (the clock, the random source, the
  trusted application, the sockets) is in the record \<open>World\<close>.
\<close>

section \<open>Channels\<close>

text \<open>A nil channel behaves in a \<^verbatim>\<open>select\<close> with a default branch like one without room and without content.\<close>

record 'a chan =
  ch_buf :: "'a list"
  ch_cap :: nat
  ch_closed :: bool

definition make_chan :: "nat \<Rightarrow> 'a chan" where
  "make_chan n = \<lparr>ch_buf = [], ch_cap = n, ch_closed = False\<rparr>"

definition nil_chan :: "'a chan" where
  "nil_chan = make_chan 0"

text \<open>
  \<open>try_send\<close> is \<^verbatim>\<open>select\<close> on one send with a default branch: whether the value went in. A send on a closed channel
  panics. \<open>try_recv\<close> is the receiving side.
\<close>

definition try_send :: "'a \<Rightarrow> 'a chan \<Rightarrow> (bool \<times> 'a chan) option" where
  "try_send x c =
     (if ch_closed c then None
      else if length (ch_buf c) < ch_cap c then Some (True, c\<lparr>ch_buf := ch_buf c @ [x]\<rparr>)
      else Some (False, c))"

definition try_recv :: "'a chan \<Rightarrow> 'a option \<times> 'a chan" where
  "try_recv c = (case ch_buf c of [] \<Rightarrow> (None, c) | x # xs \<Rightarrow> (Some x, c\<lparr>ch_buf := xs\<rparr>))"

definition close_chan_of :: "'a chan \<Rightarrow> 'a chan option" where
  "close_chan_of c = (if ch_closed c then None else Some (c\<lparr>ch_closed := True\<rparr>))"

section \<open>Endpoints and sockets\<close>

text \<open>\<^verbatim>\<open>NativeEndpoint\<close> is a UDP address; \<^verbatim>\<open>NativeBind\<close> is the pair of sockets, each of them possibly nil.\<close>

record Endpoint =
  ep_IP :: bytes
  ep_Port :: int
  ep_Zone :: string

record NativeBind =
  bind_ipv4 :: bool
  bind_ipv6 :: bool

section \<open>Handshakes and key pairs\<close>

datatype handshake_state =
  HandshakeZeroed | HandshakeInitiationCreated | HandshakeInitiationConsumed
| HandshakeResponseCreated | HandshakeResponseConsumed

record Handshake =
  h_state :: handshake_state
  h_hash :: bytes
  h_chainKey :: bytes
  h_presharedKey :: NoiseSymmetricKey
  h_localEphemeral :: NoisePrivateKey
  h_localIndex :: u32
  h_remoteIndex :: u32
  h_remoteStatic :: NoisePublicKey
  h_remoteEphemeral :: NoisePublicKey
  h_precomputedStaticStatic :: bytes
  h_lastTimestamp :: Timestamp
  h_lastInitiationConsumption :: time
  h_lastSentHandshake :: time

definition new_Handshake :: Handshake where
  "new_Handshake =
     \<lparr>h_state = HandshakeZeroed, h_hash = replicate 32 0, h_chainKey = replicate 32 0, h_presharedKey = replicate 32 0,
      h_localEphemeral = replicate 32 0, h_localIndex = 0, h_remoteIndex = 0, h_remoteStatic = replicate 32 0,
      h_remoteEphemeral = replicate 32 0, h_precomputedStaticStatic = replicate 32 0, h_lastTimestamp = replicate 12 0,
      h_lastInitiationConsumption = zero_time, h_lastSentHandshake = zero_time\<rparr>"

record Keypair =
  kp_sendNonce :: u64
  kp_send :: "u32 list"
  kp_receive :: "u32 list"
  kp_replayFilter :: ReplayFilter
  kp_isInitiator :: bool
  kp_created :: time
  kp_localIndex :: u32
  kp_remoteIndex :: u32

record Keypairs =
  ks_current :: "keypair_ref option"
  ks_previous :: "keypair_ref option"
  ks_next :: "keypair_ref option"

section \<open>Work elements\<close>

type_synonym out_ref = nat
type_synonym in_ref = nat

text \<open>The lock of an element is held from its creation until the worker has done the cryptography.\<close>

record QueueOutboundElement =
  oe_dropped :: bool
  oe_locked :: bool
  oe_packet :: bytes
  oe_nonce :: u64
  oe_keypair :: "keypair_ref option"
  oe_peer :: "peer_ref option"

record QueueInboundElement =
  ie_dropped :: bool
  ie_locked :: bool
  ie_packet :: bytes
  ie_counter :: u64
  ie_keypair_used :: "keypair_ref option"
  ie_endpoint :: Endpoint

record QueueHandshakeElement =
  he_msgType :: u32
  he_packet :: bytes
  he_endpoint :: Endpoint

section \<open>Peers\<close>

text \<open>A timer is whether it is pending, and the duration its Go timer was last reset to unless that was stopped.\<close>

record Timer =
  t_isPending :: bool
  t_armed :: "duration option"

record Timers =
  tm_retransmitHandshake :: Timer
  tm_sendKeepalive :: Timer
  tm_newHandshake :: Timer
  tm_zeroKeyMaterial :: Timer
  tm_persistentKeepalive :: Timer
  tm_handshakeAttempts :: u32
  tm_needAnotherKeepalive :: bool
  tm_sentLastMinuteHandshake :: bool

record PeerStats =
  st_txBytes :: u64
  st_rxBytes :: u64
  st_lastHandshakeNano :: int

record PeerSignals =
  sg_newKeypairArrived :: "unit chan"
  sg_flushNonceQueue :: "unit chan"

text \<open>\<open>pq_held\<close> is the packet that the nonce routine holds in its hands while it waits for a key pair.\<close>

record PeerQueue =
  pq_nonce :: "out_ref chan"
  pq_outbound :: "out_ref chan"
  pq_inbound :: "in_ref chan"
  pq_packetInNonceQueueIsAwaitingKey :: bool
  pq_held :: "out_ref option"

record Peer =
  p_isRunning :: bool
  p_keypairs :: Keypairs
  p_handshake :: Handshake
  p_endpoint :: "Endpoint option"
  p_persistentKeepaliveInterval :: u16
  p_stats :: PeerStats
  p_timers :: Timers
  p_signals :: PeerSignals
  p_queue :: PeerQueue
  p_stop :: channel
  p_cookieGenerator :: CookieGenerator

definition new_Timer :: Timer where
  "new_Timer = \<lparr>t_isPending = False, t_armed = None\<rparr>"

definition new_Peer :: Peer where
  "new_Peer =
     \<lparr>p_isRunning = False,
      p_keypairs = \<lparr>ks_current = None, ks_previous = None, ks_next = None\<rparr>,
      p_handshake = new_Handshake,
      p_endpoint = None,
      p_persistentKeepaliveInterval = 0,
      p_stats = \<lparr>st_txBytes = 0, st_rxBytes = 0, st_lastHandshakeNano = 0\<rparr>,
      p_timers = \<lparr>tm_retransmitHandshake = new_Timer, tm_sendKeepalive = new_Timer, tm_newHandshake = new_Timer,
        tm_zeroKeyMaterial = new_Timer, tm_persistentKeepalive = new_Timer, tm_handshakeAttempts = 0,
        tm_needAnotherKeepalive = False, tm_sentLastMinuteHandshake = False\<rparr>,
      p_signals = \<lparr>sg_newKeypairArrived = nil_chan, sg_flushNonceQueue = nil_chan\<rparr>,
      p_queue = \<lparr>pq_nonce = nil_chan, pq_outbound = nil_chan, pq_inbound = nil_chan,
        pq_packetInNonceQueueIsAwaitingKey = False, pq_held = None\<rparr>,
      p_stop = NilChan,
      p_cookieGenerator = new_CookieGenerator\<rparr>"

section \<open>Devices\<close>

record DeviceState =
  ds_changing :: bool
  ds_current :: bool

record DeviceNet =
  net_bind :: "NativeBind option"
  net_port :: u16
  net_fwmark :: u32

record StaticIdentity =
  si_privateKey :: RootPrivateKey
  si_publicKey :: NoisePublicKey

record DeviceRate =
  rate_underLoadUntil :: time
  rate_limiter :: Ratelimiter

record DeviceQueue =
  dq_encryption :: "out_ref chan"
  dq_decryption :: "in_ref chan"
  dq_handshake :: "QueueHandshakeElement chan"

text \<open>
  The heaps with the next free address of each, and the datagrams sent and the packets written to the TUN device so
  far, newest last.
\<close>

record Heap =
  hp_peer :: "peer_ref \<Rightarrow> Peer"
  hp_keypair :: "keypair_ref \<Rightarrow> Keypair"
  hp_out :: "out_ref \<Rightarrow> QueueOutboundElement"
  hp_in :: "in_ref \<Rightarrow> QueueInboundElement"
  hp_next_peer :: peer_ref
  hp_next_keypair :: keypair_ref
  hp_next_out :: out_ref
  hp_next_in :: in_ref

record Device =
  dev_isUp :: bool
  dev_isClosed :: bool
  dev_state :: DeviceState
  dev_net :: DeviceNet
  dev_staticIdentity :: StaticIdentity
  dev_keyMap :: "(NoisePublicKey \<times> peer_ref) list"
  dev_allowedips :: "peer_ref AllowedIPs"
  dev_indexTable :: IndexTable
  dev_cookieChecker :: CookieChecker
  dev_rate :: DeviceRate
  dev_queue :: DeviceQueue
  dev_stop :: channel
  dev_mtu :: int
  dev_heap :: Heap
  dev_sent :: "(bytes \<times> Endpoint) list"
  dev_written :: "bytes list"

text \<open>The zero values of the structures, as \<^verbatim>\<open>new\<close> makes them.\<close>

definition zero_Endpoint :: Endpoint where
  "zero_Endpoint = \<lparr>ep_IP = [], ep_Port = 0, ep_Zone = []\<rparr>"

definition zero_Keypair :: Keypair where
  "zero_Keypair = \<lparr>kp_sendNonce = 0, kp_send = [], kp_receive = [], kp_replayFilter = new_ReplayFilter,
     kp_isInitiator = False, kp_created = zero_time, kp_localIndex = 0, kp_remoteIndex = 0\<rparr>"

definition zero_OutboundElement :: QueueOutboundElement where
  "zero_OutboundElement = \<lparr>oe_dropped = False, oe_locked = False, oe_packet = [], oe_nonce = 0, oe_keypair = None, oe_peer = None\<rparr>"

definition zero_InboundElement :: QueueInboundElement where
  "zero_InboundElement = \<lparr>ie_dropped = False, ie_locked = False, ie_packet = [], ie_counter = 0, ie_keypair_used = None,
     ie_endpoint = zero_Endpoint\<rparr>"

definition zero_Device :: Device where
  "zero_Device =
     \<lparr>dev_isUp = False, dev_isClosed = False,
      dev_state = \<lparr>ds_changing = False, ds_current = False\<rparr>,
      dev_net = \<lparr>net_bind = None, net_port = 0, net_fwmark = 0\<rparr>,
      dev_staticIdentity = \<lparr>si_privateKey = 0, si_publicKey = replicate 32 0\<rparr>,
      dev_keyMap = [],
      dev_allowedips = \<lparr>IPv4 = NilEntry, IPv6 = NilEntry\<rparr>,
      dev_indexTable = IndexTable_Init,
      dev_cookieChecker = new_CookieChecker,
      dev_rate = \<lparr>rate_underLoadUntil = zero_time, rate_limiter = new_Ratelimiter\<rparr>,
      dev_queue = \<lparr>dq_encryption = nil_chan, dq_decryption = nil_chan, dq_handshake = nil_chan\<rparr>,
      dev_stop = NilChan,
      dev_mtu = 0,
      dev_heap = \<lparr>hp_peer = (\<lambda>_. new_Peer), hp_keypair = (\<lambda>_. zero_Keypair), hp_out = (\<lambda>_. zero_OutboundElement),
        hp_in = (\<lambda>_. zero_InboundElement), hp_next_peer = 0, hp_next_keypair = 0, hp_next_out = 0, hp_next_in = 0\<rparr>,
      dev_sent = [], dev_written = []\<rparr>"

section \<open>The surroundings\<close>

text \<open>One reading of the clock for each place in the code that reads it.\<close>

text \<open>\<open>w_roamingDisabled\<close> is the package variable that the Android interface sets when it is loaded.\<close>

datatype clock_site =
  At_tai64n | At_InitiationRate | At_InitiationConsumed | At_Session | At_AddMacs | At_CheckMAC2 | At_SecretAge
| At_SecretSet | At_CookieSet | At_RekeyTimeout | At_RekeyTimeout2 | At_SentHandshake | At_SentResponse | At_KeySending
| At_KeyReceiving | At_KeyAge | At_KeyExpiry | At_UnderLoad | At_Limiter | At_HandshakeComplete | At_Start

text \<open>
  The outcome of opening a UDP socket (for IPv6 or for IPv4) on a port: the port it got, an address family that the
  platform does not have, or another error. \<open>w_mtu\<close> is the MTU that the TUN device reports, if it does, and \<open>w_services\<close> the port numbers of service names.
\<close>

datatype listen_result = Listening int | Unsupported | ListenFailed

record World =
  w_now :: "clock_site \<Rightarrow> time"
  w_ephemeral :: rand_draw
  w_index :: "rand_draw list"
  w_jitter :: int
  w_cookie_secret :: rand_draw
  w_cookie_nonce :: rand_draw
  w_call :: tee_call
  w_fresh :: bytes
  w_buffers :: ts_buffers
  w_ScalarMult :: "bytes \<Rightarrow> bytes \<Rightarrow> bytes"
  w_ScalarBaseMult :: "bytes \<Rightarrow> bytes"
  w_send_err :: "bytes \<Rightarrow> Endpoint \<Rightarrow> bool"
  w_roamingDisabled :: bool
  w_listen :: "bool \<Rightarrow> int \<Rightarrow> listen_result"
  w_mark_err :: bool
  w_close_err :: bool
  w_mtu :: "int option"
  w_services :: "string \<Rightarrow> nat option"

definition NoisePrivateKey_publicKey :: "World \<Rightarrow> NoisePrivateKey \<Rightarrow> NoisePublicKey" where
  "NoisePrivateKey_publicKey w sk = w_ScalarBaseMult w sk"

definition NoisePrivateKey_sharedSecret :: "World \<Rightarrow> NoisePrivateKey \<Rightarrow> NoisePublicKey \<Rightarrow> bytes" where
  "NoisePrivateKey_sharedSecret w sk pk = w_ScalarMult w sk pk"

definition root_publicKey :: "World \<Rightarrow> RootPrivateKey \<Rightarrow> NoisePublicKey" where
  "root_publicKey w rk = fst (RootPrivateKey_publicKey (w_call w) (w_fresh w) rk (w_buffers w))"

definition root_sharedSecret :: "World \<Rightarrow> RootPrivateKey \<Rightarrow> NoisePublicKey \<Rightarrow> bytes" where
  "root_sharedSecret w rk pk = fst (RootPrivateKey_sharedSecret (w_call w) (w_fresh w) rk pk (w_buffers w))"

section \<open>Access to the heap\<close>

definition peer_at :: "Device \<Rightarrow> peer_ref \<Rightarrow> Peer" where
  "peer_at d p = hp_peer (dev_heap d) p"

definition keypair_at :: "Device \<Rightarrow> keypair_ref \<Rightarrow> Keypair" where
  "keypair_at d k = hp_keypair (dev_heap d) k"

definition out_at :: "Device \<Rightarrow> out_ref \<Rightarrow> QueueOutboundElement" where
  "out_at d e = hp_out (dev_heap d) e"

definition in_at :: "Device \<Rightarrow> in_ref \<Rightarrow> QueueInboundElement" where
  "in_at d e = hp_in (dev_heap d) e"

definition set_peer :: "peer_ref \<Rightarrow> Peer \<Rightarrow> Device \<Rightarrow> Device" where
  "set_peer p x d = d\<lparr>dev_heap := (dev_heap d)\<lparr>hp_peer := (hp_peer (dev_heap d))(p := x)\<rparr>\<rparr>"

definition set_keypair :: "keypair_ref \<Rightarrow> Keypair \<Rightarrow> Device \<Rightarrow> Device" where
  "set_keypair k x d = d\<lparr>dev_heap := (dev_heap d)\<lparr>hp_keypair := (hp_keypair (dev_heap d))(k := x)\<rparr>\<rparr>"

definition set_out :: "out_ref \<Rightarrow> QueueOutboundElement \<Rightarrow> Device \<Rightarrow> Device" where
  "set_out e x d = d\<lparr>dev_heap := (dev_heap d)\<lparr>hp_out := (hp_out (dev_heap d))(e := x)\<rparr>\<rparr>"

definition set_in :: "in_ref \<Rightarrow> QueueInboundElement \<Rightarrow> Device \<Rightarrow> Device" where
  "set_in e x d = d\<lparr>dev_heap := (dev_heap d)\<lparr>hp_in := (hp_in (dev_heap d))(e := x)\<rparr>\<rparr>"

definition handshake_at :: "Device \<Rightarrow> peer_ref \<Rightarrow> Handshake" where
  "handshake_at d p = p_handshake (peer_at d p)"

definition set_handshake :: "peer_ref \<Rightarrow> Handshake \<Rightarrow> Device \<Rightarrow> Device" where
  "set_handshake p h d = set_peer p ((peer_at d p)\<lparr>p_handshake := h\<rparr>) d"

definition set_timers :: "peer_ref \<Rightarrow> Timers \<Rightarrow> Device \<Rightarrow> Device" where
  "set_timers p t d = set_peer p ((peer_at d p)\<lparr>p_timers := t\<rparr>) d"

definition timers_at :: "Device \<Rightarrow> peer_ref \<Rightarrow> Timers" where
  "timers_at d p = p_timers (peer_at d p)"

text \<open>Allocation: the address the next object will have, and the heap with the object there.\<close>

definition add_peer :: "Peer \<Rightarrow> Device \<Rightarrow> Device" where
  "add_peer x d =
     (let i = hp_next_peer (dev_heap d); d = set_peer i x d
      in d\<lparr>dev_heap := (dev_heap d)\<lparr>hp_next_peer := Suc i\<rparr>\<rparr>)"

definition add_keypair :: "Keypair \<Rightarrow> Device \<Rightarrow> Device" where
  "add_keypair x d =
     (let i = hp_next_keypair (dev_heap d); d = set_keypair i x d
      in d\<lparr>dev_heap := (dev_heap d)\<lparr>hp_next_keypair := Suc i\<rparr>\<rparr>)"

definition add_out :: "QueueOutboundElement \<Rightarrow> Device \<Rightarrow> Device" where
  "add_out x d =
     (let i = hp_next_out (dev_heap d); d = set_out i x d
      in d\<lparr>dev_heap := (dev_heap d)\<lparr>hp_next_out := Suc i\<rparr>\<rparr>)"

definition add_in :: "QueueInboundElement \<Rightarrow> Device \<Rightarrow> Device" where
  "add_in x d =
     (let i = hp_next_in (dev_heap d); d = set_in i x d
      in d\<lparr>dev_heap := (dev_heap d)\<lparr>hp_next_in := Suc i\<rparr>\<rparr>)"

definition new_peer :: "Peer \<Rightarrow> Device \<Rightarrow> peer_ref \<times> Device" where
  "new_peer x d = (hp_next_peer (dev_heap d), add_peer x d)"

definition new_keypair :: "Keypair \<Rightarrow> Device \<Rightarrow> keypair_ref \<times> Device" where
  "new_keypair x d = (hp_next_keypair (dev_heap d), add_keypair x d)"

definition new_out :: "QueueOutboundElement \<Rightarrow> Device \<Rightarrow> out_ref \<times> Device" where
  "new_out x d = (hp_next_out (dev_heap d), add_out x d)"

definition new_in :: "QueueInboundElement \<Rightarrow> Device \<Rightarrow> in_ref \<times> Device" where
  "new_in x d = (hp_next_in (dev_heap d), add_in x d)"

section \<open>The algebra of the heap\<close>

lemmas heap_defs = peer_at_def keypair_at_def out_at_def in_at_def set_peer_def set_keypair_def set_out_def set_in_def
  add_peer_def add_keypair_def add_out_def add_in_def Let_def

lemma peer_at_simps [simp]:
  "peer_at (set_peer i x d) j = (if j = i then x else peer_at d j)"
  "peer_at (add_peer x d) j = (if j = hp_next_peer (dev_heap d) then x else peer_at d j)"
  "peer_at (set_keypair i xk d) j = peer_at d j"
  "peer_at (add_keypair xk d) j = peer_at d j"
  "peer_at (set_out i xo d) j = peer_at d j"
  "peer_at (add_out xo d) j = peer_at d j"
  "peer_at (set_in i xi d) j = peer_at d j"
  "peer_at (add_in xi d) j = peer_at d j"
  "peer_at (dev_isUp_update g0 d) j = peer_at d j"
  "peer_at (dev_isClosed_update g1 d) j = peer_at d j"
  "peer_at (dev_state_update g2 d) j = peer_at d j"
  "peer_at (dev_net_update g3 d) j = peer_at d j"
  "peer_at (dev_staticIdentity_update g4 d) j = peer_at d j"
  "peer_at (dev_keyMap_update g5 d) j = peer_at d j"
  "peer_at (dev_allowedips_update g6 d) j = peer_at d j"
  "peer_at (dev_indexTable_update g7 d) j = peer_at d j"
  "peer_at (dev_cookieChecker_update g8 d) j = peer_at d j"
  "peer_at (dev_rate_update g9 d) j = peer_at d j"
  "peer_at (dev_queue_update g10 d) j = peer_at d j"
  "peer_at (dev_stop_update g11 d) j = peer_at d j"
  "peer_at (dev_mtu_update g12 d) j = peer_at d j"
  "peer_at (dev_sent_update g13 d) j = peer_at d j"
  "peer_at (dev_written_update g14 d) j = peer_at d j"
  by (simp_all add: heap_defs)

lemma keypair_at_simps [simp]:
  "keypair_at (set_peer i xp d) j = keypair_at d j"
  "keypair_at (add_peer xp d) j = keypair_at d j"
  "keypair_at (set_keypair i x d) j = (if j = i then x else keypair_at d j)"
  "keypair_at (add_keypair x d) j = (if j = hp_next_keypair (dev_heap d) then x else keypair_at d j)"
  "keypair_at (set_out i xo d) j = keypair_at d j"
  "keypair_at (add_out xo d) j = keypair_at d j"
  "keypair_at (set_in i xi d) j = keypair_at d j"
  "keypair_at (add_in xi d) j = keypair_at d j"
  "keypair_at (dev_isUp_update g0 d) j = keypair_at d j"
  "keypair_at (dev_isClosed_update g1 d) j = keypair_at d j"
  "keypair_at (dev_state_update g2 d) j = keypair_at d j"
  "keypair_at (dev_net_update g3 d) j = keypair_at d j"
  "keypair_at (dev_staticIdentity_update g4 d) j = keypair_at d j"
  "keypair_at (dev_keyMap_update g5 d) j = keypair_at d j"
  "keypair_at (dev_allowedips_update g6 d) j = keypair_at d j"
  "keypair_at (dev_indexTable_update g7 d) j = keypair_at d j"
  "keypair_at (dev_cookieChecker_update g8 d) j = keypair_at d j"
  "keypair_at (dev_rate_update g9 d) j = keypair_at d j"
  "keypair_at (dev_queue_update g10 d) j = keypair_at d j"
  "keypair_at (dev_stop_update g11 d) j = keypair_at d j"
  "keypair_at (dev_mtu_update g12 d) j = keypair_at d j"
  "keypair_at (dev_sent_update g13 d) j = keypair_at d j"
  "keypair_at (dev_written_update g14 d) j = keypair_at d j"
  by (simp_all add: heap_defs)

lemma out_at_simps [simp]:
  "out_at (set_peer i xp d) j = out_at d j"
  "out_at (add_peer xp d) j = out_at d j"
  "out_at (set_keypair i xk d) j = out_at d j"
  "out_at (add_keypair xk d) j = out_at d j"
  "out_at (set_out i x d) j = (if j = i then x else out_at d j)"
  "out_at (add_out x d) j = (if j = hp_next_out (dev_heap d) then x else out_at d j)"
  "out_at (set_in i xi d) j = out_at d j"
  "out_at (add_in xi d) j = out_at d j"
  "out_at (dev_isUp_update g0 d) j = out_at d j"
  "out_at (dev_isClosed_update g1 d) j = out_at d j"
  "out_at (dev_state_update g2 d) j = out_at d j"
  "out_at (dev_net_update g3 d) j = out_at d j"
  "out_at (dev_staticIdentity_update g4 d) j = out_at d j"
  "out_at (dev_keyMap_update g5 d) j = out_at d j"
  "out_at (dev_allowedips_update g6 d) j = out_at d j"
  "out_at (dev_indexTable_update g7 d) j = out_at d j"
  "out_at (dev_cookieChecker_update g8 d) j = out_at d j"
  "out_at (dev_rate_update g9 d) j = out_at d j"
  "out_at (dev_queue_update g10 d) j = out_at d j"
  "out_at (dev_stop_update g11 d) j = out_at d j"
  "out_at (dev_mtu_update g12 d) j = out_at d j"
  "out_at (dev_sent_update g13 d) j = out_at d j"
  "out_at (dev_written_update g14 d) j = out_at d j"
  by (simp_all add: heap_defs)

lemma in_at_simps [simp]:
  "in_at (set_peer i xp d) j = in_at d j"
  "in_at (add_peer xp d) j = in_at d j"
  "in_at (set_keypair i xk d) j = in_at d j"
  "in_at (add_keypair xk d) j = in_at d j"
  "in_at (set_out i xo d) j = in_at d j"
  "in_at (add_out xo d) j = in_at d j"
  "in_at (set_in i x d) j = (if j = i then x else in_at d j)"
  "in_at (add_in x d) j = (if j = hp_next_in (dev_heap d) then x else in_at d j)"
  "in_at (dev_isUp_update g0 d) j = in_at d j"
  "in_at (dev_isClosed_update g1 d) j = in_at d j"
  "in_at (dev_state_update g2 d) j = in_at d j"
  "in_at (dev_net_update g3 d) j = in_at d j"
  "in_at (dev_staticIdentity_update g4 d) j = in_at d j"
  "in_at (dev_keyMap_update g5 d) j = in_at d j"
  "in_at (dev_allowedips_update g6 d) j = in_at d j"
  "in_at (dev_indexTable_update g7 d) j = in_at d j"
  "in_at (dev_cookieChecker_update g8 d) j = in_at d j"
  "in_at (dev_rate_update g9 d) j = in_at d j"
  "in_at (dev_queue_update g10 d) j = in_at d j"
  "in_at (dev_stop_update g11 d) j = in_at d j"
  "in_at (dev_mtu_update g12 d) j = in_at d j"
  "in_at (dev_sent_update g13 d) j = in_at d j"
  "in_at (dev_written_update g14 d) j = in_at d j"
  by (simp_all add: heap_defs)

lemma peer_frame [simp]:
  "dev_isUp (set_peer i x d) = dev_isUp d"
  "dev_isClosed (set_peer i x d) = dev_isClosed d"
  "dev_state (set_peer i x d) = dev_state d"
  "dev_net (set_peer i x d) = dev_net d"
  "dev_staticIdentity (set_peer i x d) = dev_staticIdentity d"
  "dev_keyMap (set_peer i x d) = dev_keyMap d"
  "dev_allowedips (set_peer i x d) = dev_allowedips d"
  "dev_indexTable (set_peer i x d) = dev_indexTable d"
  "dev_cookieChecker (set_peer i x d) = dev_cookieChecker d"
  "dev_rate (set_peer i x d) = dev_rate d"
  "dev_queue (set_peer i x d) = dev_queue d"
  "dev_stop (set_peer i x d) = dev_stop d"
  "dev_mtu (set_peer i x d) = dev_mtu d"
  "dev_sent (set_peer i x d) = dev_sent d"
  "dev_written (set_peer i x d) = dev_written d"
  "hp_next_peer (dev_heap (set_peer i x d)) = hp_next_peer (dev_heap d)"
  "hp_next_keypair (dev_heap (set_peer i x d)) = hp_next_keypair (dev_heap d)"
  "hp_next_out (dev_heap (set_peer i x d)) = hp_next_out (dev_heap d)"
  "hp_next_in (dev_heap (set_peer i x d)) = hp_next_in (dev_heap d)"
  "dev_isUp (add_peer x d) = dev_isUp d"
  "dev_isClosed (add_peer x d) = dev_isClosed d"
  "dev_state (add_peer x d) = dev_state d"
  "dev_net (add_peer x d) = dev_net d"
  "dev_staticIdentity (add_peer x d) = dev_staticIdentity d"
  "dev_keyMap (add_peer x d) = dev_keyMap d"
  "dev_allowedips (add_peer x d) = dev_allowedips d"
  "dev_indexTable (add_peer x d) = dev_indexTable d"
  "dev_cookieChecker (add_peer x d) = dev_cookieChecker d"
  "dev_rate (add_peer x d) = dev_rate d"
  "dev_queue (add_peer x d) = dev_queue d"
  "dev_stop (add_peer x d) = dev_stop d"
  "dev_mtu (add_peer x d) = dev_mtu d"
  "dev_sent (add_peer x d) = dev_sent d"
  "dev_written (add_peer x d) = dev_written d"
  "hp_next_peer (dev_heap (add_peer x d)) = Suc (hp_next_peer (dev_heap d))"
  "hp_next_keypair (dev_heap (add_peer x d)) = hp_next_keypair (dev_heap d)"
  "hp_next_out (dev_heap (add_peer x d)) = hp_next_out (dev_heap d)"
  "hp_next_in (dev_heap (add_peer x d)) = hp_next_in (dev_heap d)"
  by (simp_all add: heap_defs)

lemma keypair_frame [simp]:
  "dev_isUp (set_keypair i x d) = dev_isUp d"
  "dev_isClosed (set_keypair i x d) = dev_isClosed d"
  "dev_state (set_keypair i x d) = dev_state d"
  "dev_net (set_keypair i x d) = dev_net d"
  "dev_staticIdentity (set_keypair i x d) = dev_staticIdentity d"
  "dev_keyMap (set_keypair i x d) = dev_keyMap d"
  "dev_allowedips (set_keypair i x d) = dev_allowedips d"
  "dev_indexTable (set_keypair i x d) = dev_indexTable d"
  "dev_cookieChecker (set_keypair i x d) = dev_cookieChecker d"
  "dev_rate (set_keypair i x d) = dev_rate d"
  "dev_queue (set_keypair i x d) = dev_queue d"
  "dev_stop (set_keypair i x d) = dev_stop d"
  "dev_mtu (set_keypair i x d) = dev_mtu d"
  "dev_sent (set_keypair i x d) = dev_sent d"
  "dev_written (set_keypair i x d) = dev_written d"
  "hp_next_peer (dev_heap (set_keypair i x d)) = hp_next_peer (dev_heap d)"
  "hp_next_keypair (dev_heap (set_keypair i x d)) = hp_next_keypair (dev_heap d)"
  "hp_next_out (dev_heap (set_keypair i x d)) = hp_next_out (dev_heap d)"
  "hp_next_in (dev_heap (set_keypair i x d)) = hp_next_in (dev_heap d)"
  "dev_isUp (add_keypair x d) = dev_isUp d"
  "dev_isClosed (add_keypair x d) = dev_isClosed d"
  "dev_state (add_keypair x d) = dev_state d"
  "dev_net (add_keypair x d) = dev_net d"
  "dev_staticIdentity (add_keypair x d) = dev_staticIdentity d"
  "dev_keyMap (add_keypair x d) = dev_keyMap d"
  "dev_allowedips (add_keypair x d) = dev_allowedips d"
  "dev_indexTable (add_keypair x d) = dev_indexTable d"
  "dev_cookieChecker (add_keypair x d) = dev_cookieChecker d"
  "dev_rate (add_keypair x d) = dev_rate d"
  "dev_queue (add_keypair x d) = dev_queue d"
  "dev_stop (add_keypair x d) = dev_stop d"
  "dev_mtu (add_keypair x d) = dev_mtu d"
  "dev_sent (add_keypair x d) = dev_sent d"
  "dev_written (add_keypair x d) = dev_written d"
  "hp_next_peer (dev_heap (add_keypair x d)) = hp_next_peer (dev_heap d)"
  "hp_next_keypair (dev_heap (add_keypair x d)) = Suc (hp_next_keypair (dev_heap d))"
  "hp_next_out (dev_heap (add_keypair x d)) = hp_next_out (dev_heap d)"
  "hp_next_in (dev_heap (add_keypair x d)) = hp_next_in (dev_heap d)"
  by (simp_all add: heap_defs)

lemma out_frame [simp]:
  "dev_isUp (set_out i x d) = dev_isUp d"
  "dev_isClosed (set_out i x d) = dev_isClosed d"
  "dev_state (set_out i x d) = dev_state d"
  "dev_net (set_out i x d) = dev_net d"
  "dev_staticIdentity (set_out i x d) = dev_staticIdentity d"
  "dev_keyMap (set_out i x d) = dev_keyMap d"
  "dev_allowedips (set_out i x d) = dev_allowedips d"
  "dev_indexTable (set_out i x d) = dev_indexTable d"
  "dev_cookieChecker (set_out i x d) = dev_cookieChecker d"
  "dev_rate (set_out i x d) = dev_rate d"
  "dev_queue (set_out i x d) = dev_queue d"
  "dev_stop (set_out i x d) = dev_stop d"
  "dev_mtu (set_out i x d) = dev_mtu d"
  "dev_sent (set_out i x d) = dev_sent d"
  "dev_written (set_out i x d) = dev_written d"
  "hp_next_peer (dev_heap (set_out i x d)) = hp_next_peer (dev_heap d)"
  "hp_next_keypair (dev_heap (set_out i x d)) = hp_next_keypair (dev_heap d)"
  "hp_next_out (dev_heap (set_out i x d)) = hp_next_out (dev_heap d)"
  "hp_next_in (dev_heap (set_out i x d)) = hp_next_in (dev_heap d)"
  "dev_isUp (add_out x d) = dev_isUp d"
  "dev_isClosed (add_out x d) = dev_isClosed d"
  "dev_state (add_out x d) = dev_state d"
  "dev_net (add_out x d) = dev_net d"
  "dev_staticIdentity (add_out x d) = dev_staticIdentity d"
  "dev_keyMap (add_out x d) = dev_keyMap d"
  "dev_allowedips (add_out x d) = dev_allowedips d"
  "dev_indexTable (add_out x d) = dev_indexTable d"
  "dev_cookieChecker (add_out x d) = dev_cookieChecker d"
  "dev_rate (add_out x d) = dev_rate d"
  "dev_queue (add_out x d) = dev_queue d"
  "dev_stop (add_out x d) = dev_stop d"
  "dev_mtu (add_out x d) = dev_mtu d"
  "dev_sent (add_out x d) = dev_sent d"
  "dev_written (add_out x d) = dev_written d"
  "hp_next_peer (dev_heap (add_out x d)) = hp_next_peer (dev_heap d)"
  "hp_next_keypair (dev_heap (add_out x d)) = hp_next_keypair (dev_heap d)"
  "hp_next_out (dev_heap (add_out x d)) = Suc (hp_next_out (dev_heap d))"
  "hp_next_in (dev_heap (add_out x d)) = hp_next_in (dev_heap d)"
  by (simp_all add: heap_defs)

lemma in_frame [simp]:
  "dev_isUp (set_in i x d) = dev_isUp d"
  "dev_isClosed (set_in i x d) = dev_isClosed d"
  "dev_state (set_in i x d) = dev_state d"
  "dev_net (set_in i x d) = dev_net d"
  "dev_staticIdentity (set_in i x d) = dev_staticIdentity d"
  "dev_keyMap (set_in i x d) = dev_keyMap d"
  "dev_allowedips (set_in i x d) = dev_allowedips d"
  "dev_indexTable (set_in i x d) = dev_indexTable d"
  "dev_cookieChecker (set_in i x d) = dev_cookieChecker d"
  "dev_rate (set_in i x d) = dev_rate d"
  "dev_queue (set_in i x d) = dev_queue d"
  "dev_stop (set_in i x d) = dev_stop d"
  "dev_mtu (set_in i x d) = dev_mtu d"
  "dev_sent (set_in i x d) = dev_sent d"
  "dev_written (set_in i x d) = dev_written d"
  "hp_next_peer (dev_heap (set_in i x d)) = hp_next_peer (dev_heap d)"
  "hp_next_keypair (dev_heap (set_in i x d)) = hp_next_keypair (dev_heap d)"
  "hp_next_out (dev_heap (set_in i x d)) = hp_next_out (dev_heap d)"
  "hp_next_in (dev_heap (set_in i x d)) = hp_next_in (dev_heap d)"
  "dev_isUp (add_in x d) = dev_isUp d"
  "dev_isClosed (add_in x d) = dev_isClosed d"
  "dev_state (add_in x d) = dev_state d"
  "dev_net (add_in x d) = dev_net d"
  "dev_staticIdentity (add_in x d) = dev_staticIdentity d"
  "dev_keyMap (add_in x d) = dev_keyMap d"
  "dev_allowedips (add_in x d) = dev_allowedips d"
  "dev_indexTable (add_in x d) = dev_indexTable d"
  "dev_cookieChecker (add_in x d) = dev_cookieChecker d"
  "dev_rate (add_in x d) = dev_rate d"
  "dev_queue (add_in x d) = dev_queue d"
  "dev_stop (add_in x d) = dev_stop d"
  "dev_mtu (add_in x d) = dev_mtu d"
  "dev_sent (add_in x d) = dev_sent d"
  "dev_written (add_in x d) = dev_written d"
  "hp_next_peer (dev_heap (add_in x d)) = hp_next_peer (dev_heap d)"
  "hp_next_keypair (dev_heap (add_in x d)) = hp_next_keypair (dev_heap d)"
  "hp_next_out (dev_heap (add_in x d)) = hp_next_out (dev_heap d)"
  "hp_next_in (dev_heap (add_in x d)) = Suc (hp_next_in (dev_heap d))"
  by (simp_all add: heap_defs)

lemma handshake_frame [simp]:
  "handshake_at (set_handshake i x d) j = (if j = i then x else handshake_at d j)"
  "p_isRunning (peer_at (set_handshake i x d) j) = p_isRunning (peer_at d j)"
  "p_keypairs (peer_at (set_handshake i x d) j) = p_keypairs (peer_at d j)"
  "p_endpoint (peer_at (set_handshake i x d) j) = p_endpoint (peer_at d j)"
  "p_persistentKeepaliveInterval (peer_at (set_handshake i x d) j) = p_persistentKeepaliveInterval (peer_at d j)"
  "p_stats (peer_at (set_handshake i x d) j) = p_stats (peer_at d j)"
  "p_timers (peer_at (set_handshake i x d) j) = p_timers (peer_at d j)"
  "p_signals (peer_at (set_handshake i x d) j) = p_signals (peer_at d j)"
  "p_queue (peer_at (set_handshake i x d) j) = p_queue (peer_at d j)"
  "p_stop (peer_at (set_handshake i x d) j) = p_stop (peer_at d j)"
  "p_cookieGenerator (peer_at (set_handshake i x d) j) = p_cookieGenerator (peer_at d j)"
  "keypair_at (set_handshake i x d) = keypair_at d"
  "out_at (set_handshake i x d) = out_at d"
  "in_at (set_handshake i x d) = in_at d"
  "dev_isUp (set_handshake i x d) = dev_isUp d"
  "dev_isClosed (set_handshake i x d) = dev_isClosed d"
  "dev_state (set_handshake i x d) = dev_state d"
  "dev_net (set_handshake i x d) = dev_net d"
  "dev_staticIdentity (set_handshake i x d) = dev_staticIdentity d"
  "dev_keyMap (set_handshake i x d) = dev_keyMap d"
  "dev_allowedips (set_handshake i x d) = dev_allowedips d"
  "dev_indexTable (set_handshake i x d) = dev_indexTable d"
  "dev_cookieChecker (set_handshake i x d) = dev_cookieChecker d"
  "dev_rate (set_handshake i x d) = dev_rate d"
  "dev_queue (set_handshake i x d) = dev_queue d"
  "dev_stop (set_handshake i x d) = dev_stop d"
  "dev_mtu (set_handshake i x d) = dev_mtu d"
  "dev_sent (set_handshake i x d) = dev_sent d"
  "dev_written (set_handshake i x d) = dev_written d"
  "hp_next_peer (dev_heap (set_handshake i x d)) = hp_next_peer (dev_heap d)"
  "hp_next_keypair (dev_heap (set_handshake i x d)) = hp_next_keypair (dev_heap d)"
  "hp_next_out (dev_heap (set_handshake i x d)) = hp_next_out (dev_heap d)"
  "hp_next_in (dev_heap (set_handshake i x d)) = hp_next_in (dev_heap d)"
  "handshake_at (dev_isUp_update g0 d) j = handshake_at d j"
  "handshake_at (dev_isClosed_update g1 d) j = handshake_at d j"
  "handshake_at (dev_state_update g2 d) j = handshake_at d j"
  "handshake_at (dev_net_update g3 d) j = handshake_at d j"
  "handshake_at (dev_staticIdentity_update g4 d) j = handshake_at d j"
  "handshake_at (dev_keyMap_update g5 d) j = handshake_at d j"
  "handshake_at (dev_allowedips_update g6 d) j = handshake_at d j"
  "handshake_at (dev_indexTable_update g7 d) j = handshake_at d j"
  "handshake_at (dev_cookieChecker_update g8 d) j = handshake_at d j"
  "handshake_at (dev_rate_update g9 d) j = handshake_at d j"
  "handshake_at (dev_queue_update g10 d) j = handshake_at d j"
  "handshake_at (dev_stop_update g11 d) j = handshake_at d j"
  "handshake_at (dev_mtu_update g12 d) j = handshake_at d j"
  "handshake_at (dev_sent_update g13 d) j = handshake_at d j"
  "handshake_at (dev_written_update g14 d) j = handshake_at d j"
  by (simp_all add: set_handshake_def handshake_at_def fun_eq_iff)

lemma timers_frame [simp]:
  "timers_at (set_timers i x d) j = (if j = i then x else timers_at d j)"
  "p_isRunning (peer_at (set_timers i x d) j) = p_isRunning (peer_at d j)"
  "p_keypairs (peer_at (set_timers i x d) j) = p_keypairs (peer_at d j)"
  "p_handshake (peer_at (set_timers i x d) j) = p_handshake (peer_at d j)"
  "p_endpoint (peer_at (set_timers i x d) j) = p_endpoint (peer_at d j)"
  "p_persistentKeepaliveInterval (peer_at (set_timers i x d) j) = p_persistentKeepaliveInterval (peer_at d j)"
  "p_stats (peer_at (set_timers i x d) j) = p_stats (peer_at d j)"
  "p_signals (peer_at (set_timers i x d) j) = p_signals (peer_at d j)"
  "p_queue (peer_at (set_timers i x d) j) = p_queue (peer_at d j)"
  "p_stop (peer_at (set_timers i x d) j) = p_stop (peer_at d j)"
  "p_cookieGenerator (peer_at (set_timers i x d) j) = p_cookieGenerator (peer_at d j)"
  "keypair_at (set_timers i x d) = keypair_at d"
  "out_at (set_timers i x d) = out_at d"
  "in_at (set_timers i x d) = in_at d"
  "dev_isUp (set_timers i x d) = dev_isUp d"
  "dev_isClosed (set_timers i x d) = dev_isClosed d"
  "dev_state (set_timers i x d) = dev_state d"
  "dev_net (set_timers i x d) = dev_net d"
  "dev_staticIdentity (set_timers i x d) = dev_staticIdentity d"
  "dev_keyMap (set_timers i x d) = dev_keyMap d"
  "dev_allowedips (set_timers i x d) = dev_allowedips d"
  "dev_indexTable (set_timers i x d) = dev_indexTable d"
  "dev_cookieChecker (set_timers i x d) = dev_cookieChecker d"
  "dev_rate (set_timers i x d) = dev_rate d"
  "dev_queue (set_timers i x d) = dev_queue d"
  "dev_stop (set_timers i x d) = dev_stop d"
  "dev_mtu (set_timers i x d) = dev_mtu d"
  "dev_sent (set_timers i x d) = dev_sent d"
  "dev_written (set_timers i x d) = dev_written d"
  "hp_next_peer (dev_heap (set_timers i x d)) = hp_next_peer (dev_heap d)"
  "hp_next_keypair (dev_heap (set_timers i x d)) = hp_next_keypair (dev_heap d)"
  "hp_next_out (dev_heap (set_timers i x d)) = hp_next_out (dev_heap d)"
  "hp_next_in (dev_heap (set_timers i x d)) = hp_next_in (dev_heap d)"
  "timers_at (dev_isUp_update g0 d) j = timers_at d j"
  "timers_at (dev_isClosed_update g1 d) j = timers_at d j"
  "timers_at (dev_state_update g2 d) j = timers_at d j"
  "timers_at (dev_net_update g3 d) j = timers_at d j"
  "timers_at (dev_staticIdentity_update g4 d) j = timers_at d j"
  "timers_at (dev_keyMap_update g5 d) j = timers_at d j"
  "timers_at (dev_allowedips_update g6 d) j = timers_at d j"
  "timers_at (dev_indexTable_update g7 d) j = timers_at d j"
  "timers_at (dev_cookieChecker_update g8 d) j = timers_at d j"
  "timers_at (dev_rate_update g9 d) j = timers_at d j"
  "timers_at (dev_queue_update g10 d) j = timers_at d j"
  "timers_at (dev_stop_update g11 d) j = timers_at d j"
  "timers_at (dev_mtu_update g12 d) j = timers_at d j"
  "timers_at (dev_sent_update g13 d) j = timers_at d j"
  "timers_at (dev_written_update g14 d) j = timers_at d j"
  by (simp_all add: set_timers_def timers_at_def fun_eq_iff)

end
