(* ===== verification/NoiseProtocol.thy ===== *)
theory NoiseProtocol
  imports State
begin

text \<open>
  The handshake of \<^verbatim>\<open>noise-protocol.go\<close> and the life of key pairs in \<^verbatim>\<open>keypair.go\<close>: creating and consuming the two
  messages, deriving a key pair, and rotating the three key pairs of a peer.
\<close>

section \<open>Model\<close>

definition NoiseConstruction :: string where
  "NoiseConstruction = ''Noise_IKpsk2_25519_ChaChaPoly_BLAKE2s''"

definition WGIdentifier :: string where
  "WGIdentifier = ''WireGuard v1 zx2c4 Jason@zx2c4.com''"

definition ZeroNonce :: bytes where
  "ZeroNonce = replicate NonceSize 0"

definition mixKey :: "bytes \<Rightarrow> bytes \<Rightarrow> bytes" where
  "mixKey c data = KDF1 c data"

definition mixHash :: "bytes \<Rightarrow> bytes \<Rightarrow> bytes" where
  "mixHash h data = digest_Sum (digest_Write (digest_Write new_hash h) data)"

definition InitialChainKey :: bytes where
  "InitialChainKey = Sum256 (string_bytes NoiseConstruction)"

definition InitialHash :: bytes where
  "InitialHash = mixHash InitialChainKey (string_bytes WGIdentifier)"

definition Handshake_Clear :: "Handshake \<Rightarrow> Handshake" where
  "Handshake_Clear h =
     h\<lparr>h_localEphemeral := setZero (h_localEphemeral h), h_remoteEphemeral := setZero (h_remoteEphemeral h),
       h_chainKey := setZero (h_chainKey h), h_hash := setZero (h_hash h), h_localIndex := 0, h_state := HandshakeZeroed\<rparr>"

definition Handshake_mixHash :: "bytes \<Rightarrow> Handshake \<Rightarrow> Handshake" where
  "Handshake_mixHash data h = h\<lparr>h_hash := mixHash (h_hash h) data\<rparr>"

definition Handshake_mixKey :: "bytes \<Rightarrow> Handshake \<Rightarrow> Handshake" where
  "Handshake_mixKey data h = h\<lparr>h_chainKey := mixKey (h_chainKey h) data\<rparr>"

datatype handshake_error =
  StaticSharedSecretZero | RandFailed | InitiationNotConsumed | InvalidStateForKeypair

text \<open>Encryption and decryption of one field under a key used once.\<close>

definition seal_field :: "bytes \<Rightarrow> bytes \<Rightarrow> bytes \<Rightarrow> bytes option" where
  "seal_field key plaintext hash = do { aead \<leftarrow> aead_New key; Seal aead ZeroNonce plaintext hash }"

definition open_field :: "bytes \<Rightarrow> bytes \<Rightarrow> bytes \<Rightarrow> (aead_error + bytes) option" where
  "open_field key ciphertext hash = do { aead \<leftarrow> aead_New key; Open aead ZeroNonce ciphertext hash }"

text \<open>
  The cryptographic part of \<open>CreateMessageInitiation\<close>, on the handshake with its new ephemeral key and index.
\<close>

definition write_initiation :: "World \<Rightarrow> NoisePublicKey \<Rightarrow> Handshake \<Rightarrow> (MessageInitiation \<times> Handshake) option" where
  "write_initiation w publicKey h =
     do {
       let h = Handshake_mixHash (h_remoteStatic h) h;
       let ephemeral = NoisePrivateKey_publicKey w (h_localEphemeral h);
       let h = Handshake_mixKey ephemeral h;
       let h = Handshake_mixHash ephemeral h;
       let ss = NoisePrivateKey_sharedSecret w (h_localEphemeral h) (h_remoteStatic h);
       let (ck, key) = KDF2 (h_chainKey h) ss;
       let h = h\<lparr>h_chainKey := ck\<rparr>;
       static \<leftarrow> seal_field key publicKey (h_hash h);
       let h = Handshake_mixHash static h;
       let timestamp = tai64n_Now (w_now w At_tai64n);
       let (ck, key) = KDF2 (h_chainKey h) (h_precomputedStaticStatic h);
       let h = h\<lparr>h_chainKey := ck\<rparr>;
       sealed \<leftarrow> seal_field key timestamp (h_hash h);
       let h = Handshake_mixHash sealed h;
       Some (\<lparr>mi_Type = MessageInitiationType, mi_Sender = h_localIndex h, mi_Ephemeral = ephemeral,
              mi_Static = static, mi_Timestamp = sealed, mi_MAC1 = replicate 16 0, mi_MAC2 = replicate 16 0\<rparr>,
             h\<lparr>h_state := HandshakeInitiationCreated\<rparr>)
     }"

definition CreateMessageInitiation :: "World \<Rightarrow> peer_ref \<Rightarrow> Device \<Rightarrow>
    ((handshake_error + MessageInitiation) \<times> Device) option" where
  "CreateMessageInitiation w p d =
     (if isZero (h_precomputedStaticStatic (handshake_at d p)) then Some (Inl StaticSharedSecretZero, d)
      else
        let (sk, err) = newPrivateKey (w_ephemeral w);
            h = (handshake_at d p)\<lparr>h_hash := InitialHash, h_chainKey := InitialChainKey, h_localEphemeral := sk\<rparr>
        in if err then Some (Inl RandFailed, set_handshake p h d)
           else do {
             let table = IndexTable_Delete (h_localIndex h) (dev_indexTable d);
             (index, err, table) \<leftarrow> NewIndexForHandshake (w_index w) p p table;
             let d = d\<lparr>dev_indexTable := table\<rparr>;
             let h = h\<lparr>h_localIndex := index\<rparr>;
             if err then Some (Inl RandFailed, set_handshake p h d)
             else do {
               (msg, h) \<leftarrow> write_initiation w (si_publicKey (dev_staticIdentity d)) h;
               Some (Inr msg, set_handshake p h d)
             }
           })"

definition LookupPeer :: "NoisePublicKey \<Rightarrow> Device \<Rightarrow> peer_ref option" where
  "LookupPeer pk d = map_of (dev_keyMap d) pk"

text \<open>
  The part of \<open>ConsumeMessageInitiation\<close> up to the static key of the sender: that key, the hash and the chaining key.
  \<^const>\<open>Inl\<close> is a message that does not decrypt.
\<close>

definition read_static :: "World \<Rightarrow> StaticIdentity \<Rightarrow> MessageInitiation \<Rightarrow>
    (aead_error + NoisePublicKey \<times> bytes \<times> bytes) option" where
  "read_static w identity msg =
     do {
       let hash = mixHash InitialHash (si_publicKey identity);
       let hash = mixHash hash (mi_Ephemeral msg);
       let chainKey = mixKey InitialChainKey (mi_Ephemeral msg);
       let ss = root_sharedSecret w (si_privateKey identity) (mi_Ephemeral msg);
       let (chainKey, key) = KDF2 chainKey ss;
       r \<leftarrow> open_field key (mi_Static msg) hash;
       case r of
         Inl err \<Rightarrow> Some (Inl err)
       | Inr peerPK \<Rightarrow> Some (Inr (peerPK, mixHash hash (mi_Static msg), chainKey))
     }"

text \<open>The part that verifies the identity: the timestamp, the hash and the chaining key.\<close>

definition read_timestamp :: "bytes \<Rightarrow> MessageInitiation \<Rightarrow> bytes \<Rightarrow> bytes \<Rightarrow>
    (aead_error + Timestamp \<times> bytes \<times> bytes) option" where
  "read_timestamp staticStatic msg hash chainKey =
     do {
       let (chainKey, key) = KDF2 chainKey staticStatic;
       r \<leftarrow> open_field key (mi_Timestamp msg) hash;
       case r of
         Inl err \<Rightarrow> Some (Inl err)
       | Inr timestamp \<Rightarrow> Some (Inr (timestamp, mixHash hash (mi_Timestamp msg), chainKey))
     }"

definition ConsumeMessageInitiation :: "World \<Rightarrow> MessageInitiation \<Rightarrow> Device \<Rightarrow> (peer_ref option \<times> Device) option" where
  "ConsumeMessageInitiation w msg d =
     (if mi_Type msg \<noteq> MessageInitiationType then Some (None, d)
      else do {
        r \<leftarrow> read_static w (dev_staticIdentity d) msg;
        case r of
          Inl err \<Rightarrow> Some (None, d)
        | Inr (peerPK, hash, chainKey) \<Rightarrow>
            case LookupPeer peerPK d of
              None \<Rightarrow> Some (None, d)
            | Some p \<Rightarrow>
                let h = handshake_at d p in
                if isZero (h_precomputedStaticStatic h) then Some (None, d)
                else do {
                  r \<leftarrow> read_timestamp (h_precomputedStaticStatic h) msg hash chainKey;
                  case r of
                    Inl err \<Rightarrow> Some (None, d)
                  | Inr (timestamp, hash, chainKey) \<Rightarrow>
                      if Timestamp_After timestamp (h_lastTimestamp h) \<and>
                         time_sub (w_now w At_InitiationRate) (h_lastInitiationConsumption h) > HandshakeInitationRate
                      then Some (Some p, set_handshake p (h\<lparr>h_hash := hash, h_chainKey := chainKey,
                             h_remoteIndex := mi_Sender msg, h_remoteEphemeral := mi_Ephemeral msg,
                             h_lastTimestamp := timestamp, h_lastInitiationConsumption := w_now w At_InitiationConsumed,
                             h_state := HandshakeInitiationConsumed\<rparr>) d)
                      else Some (None, d)
                }
      })"

text \<open>The cryptographic part of \<open>CreateMessageResponse\<close>, on the handshake with its new ephemeral key and index.\<close>

definition write_response :: "World \<Rightarrow> Handshake \<Rightarrow> (MessageResponse \<times> Handshake) option" where
  "write_response w h =
     do {
       let ephemeral = NoisePrivateKey_publicKey w (h_localEphemeral h);
       let h = Handshake_mixHash ephemeral h;
       let h = Handshake_mixKey ephemeral h;
       let h = Handshake_mixKey (NoisePrivateKey_sharedSecret w (h_localEphemeral h) (h_remoteEphemeral h)) h;
       let h = Handshake_mixKey (NoisePrivateKey_sharedSecret w (h_localEphemeral h) (h_remoteStatic h)) h;
       let (ck, tau, key) = KDF3 (h_chainKey h) (h_presharedKey h);
       let h = h\<lparr>h_chainKey := ck\<rparr>;
       let h = Handshake_mixHash tau h;
       empty \<leftarrow> seal_field key [] (h_hash h);
       let h = Handshake_mixHash empty h;
       Some (\<lparr>mr_Type = MessageResponseType, mr_Sender = h_localIndex h, mr_Receiver = h_remoteIndex h,
              mr_Ephemeral = ephemeral, mr_Empty = empty, mr_MAC1 = replicate 16 0, mr_MAC2 = replicate 16 0\<rparr>,
             h\<lparr>h_state := HandshakeResponseCreated\<rparr>)
     }"

definition CreateMessageResponse :: "World \<Rightarrow> peer_ref \<Rightarrow> Device \<Rightarrow>
    ((handshake_error + MessageResponse) \<times> Device) option" where
  "CreateMessageResponse w p d =
     (let h = handshake_at d p in
      if h_state h \<noteq> HandshakeInitiationConsumed then Some (Inl InitiationNotConsumed, d)
      else do {
        let table = IndexTable_Delete (h_localIndex h) (dev_indexTable d);
        (index, err, table) \<leftarrow> NewIndexForHandshake (w_index w) p p table;
        let d = d\<lparr>dev_indexTable := table\<rparr>;
        let h = h\<lparr>h_localIndex := index\<rparr>;
        if err then Some (Inl RandFailed, set_handshake p h d)
        else
          let (sk, err) = newPrivateKey (w_ephemeral w);
              h = h\<lparr>h_localEphemeral := sk\<rparr>
          in if err then Some (Inl RandFailed, set_handshake p h d)
             else do {
               (msg, h) \<leftarrow> write_response w h;
               Some (Inr msg, set_handshake p h d)
             }
      })"

text \<open>
  The cryptographic part of \<open>ConsumeMessageResponse\<close>: the hash and the chaining key, or a message that is not authentic.
\<close>

definition read_response :: "World \<Rightarrow> RootPrivateKey \<Rightarrow> MessageResponse \<Rightarrow> Handshake \<Rightarrow>
    (aead_error + bytes \<times> bytes) option" where
  "read_response w privateKey msg h =
     do {
       let hash = mixHash (h_hash h) (mr_Ephemeral msg);
       let chainKey = mixKey (h_chainKey h) (mr_Ephemeral msg);
       let chainKey = mixKey chainKey (NoisePrivateKey_sharedSecret w (h_localEphemeral h) (mr_Ephemeral msg));
       let chainKey = mixKey chainKey (root_sharedSecret w privateKey (mr_Ephemeral msg));
       let (chainKey, tau, key) = KDF3 chainKey (h_presharedKey h);
       let hash = mixHash hash tau;
       r \<leftarrow> open_field key (mr_Empty msg) hash;
       case r of
         Inl err \<Rightarrow> Some (Inl err)
       | Inr _ \<Rightarrow> Some (Inr (mixHash hash (mr_Empty msg), chainKey))
     }"

definition ConsumeMessageResponse :: "World \<Rightarrow> MessageResponse \<Rightarrow> Device \<Rightarrow> (peer_ref option \<times> Device) option" where
  "ConsumeMessageResponse w msg d =
     (if mr_Type msg \<noteq> MessageResponseType then Some (None, d)
      else
        let lookup = IndexTable_Lookup (mr_Receiver msg) (dev_indexTable d) in
        case ie_handshake lookup of
          None \<Rightarrow> Some (None, d)
        | Some hs \<Rightarrow>
            let h = handshake_at d hs in
            if h_state h \<noteq> HandshakeInitiationCreated then Some (None, d)
            else do {
              r \<leftarrow> read_response w (si_privateKey (dev_staticIdentity d)) msg h;
              case r of
                Inl err \<Rightarrow> Some (None, d)
              | Inr (hash, chainKey) \<Rightarrow>
                  Some (ie_peer lookup, set_handshake hs (h\<lparr>h_hash := hash, h_chainKey := chainKey,
                          h_remoteIndex := mr_Sender msg, h_state := HandshakeResponseConsumed\<rparr>) d)
            })"

definition DeleteKeypair :: "keypair_ref option \<Rightarrow> Device \<Rightarrow> Device" where
  "DeleteKeypair key d =
     (case key of
        None \<Rightarrow> d
      | Some k \<Rightarrow> d\<lparr>dev_indexTable := IndexTable_Delete (kp_localIndex (keypair_at d k)) (dev_indexTable d)\<rparr>)"

text \<open>The keys of a session, from the state of the handshake: send key, receive key, initiator.\<close>

definition session_keys :: "Handshake \<Rightarrow> (bytes \<times> bytes \<times> bool) option" where
  "session_keys h =
     (case h_state h of
        HandshakeResponseConsumed \<Rightarrow> (case KDF2 (h_chainKey h) [] of (sendKey, recvKey) \<Rightarrow> Some (sendKey, recvKey, True))
      | HandshakeResponseCreated \<Rightarrow> (case KDF2 (h_chainKey h) [] of (recvKey, sendKey) \<Rightarrow> Some (sendKey, recvKey, False))
      | _ \<Rightarrow> None)"

definition rotate_keypairs :: "bool \<Rightarrow> keypair_ref \<Rightarrow> peer_ref \<Rightarrow> Device \<Rightarrow> Device" where
  "rotate_keypairs isInitiator keypair p d =
     (let keypairs = p_keypairs (peer_at d p);
          previous = ks_previous keypairs; next = ks_next keypairs; current = ks_current keypairs
      in if isInitiator then
           let (keypairs, d) =
                 (if next \<noteq> None then (keypairs\<lparr>ks_next := None, ks_previous := next\<rparr>, DeleteKeypair current d)
                  else (keypairs\<lparr>ks_previous := current\<rparr>, d));
               d = DeleteKeypair previous d
           in set_peer p ((peer_at d p)\<lparr>p_keypairs := keypairs\<lparr>ks_current := Some keypair\<rparr>\<rparr>) d
         else
           let d = DeleteKeypair next d;
               d = DeleteKeypair previous d
           in set_peer p ((peer_at d p)\<lparr>p_keypairs := keypairs\<lparr>ks_next := Some keypair, ks_previous := None\<rparr>\<rparr>) d)"

definition BeginSymmetricSession :: "World \<Rightarrow> peer_ref \<Rightarrow> Device \<Rightarrow> (handshake_error option \<times> Device) option" where
  "BeginSymmetricSession w p d =
     (let h = handshake_at d p in
      case session_keys h of
        None \<Rightarrow> Some (Some InvalidStateForKeypair, d)
      | Some (sendKey, recvKey, isInitiator) \<Rightarrow>
          do {
            let h = h\<lparr>h_chainKey := setZero (h_chainKey h), h_hash := setZero (h_hash h),
                      h_localEphemeral := setZero (h_localEphemeral h), h_state := HandshakeZeroed\<rparr>;
            send \<leftarrow> aead_New sendKey;
            receive \<leftarrow> aead_New recvKey;
            let (k, d) = new_keypair \<lparr>kp_sendNonce = 0, kp_send = send, kp_receive = receive,
                           kp_replayFilter = ReplayFilter_Init new_ReplayFilter, kp_isInitiator = isInitiator,
                           kp_created = w_now w At_Session, kp_localIndex = h_localIndex h,
                           kp_remoteIndex = h_remoteIndex h\<rparr> d;
            let d = d\<lparr>dev_indexTable := SwapIndexForKeypair (h_localIndex h) k (dev_indexTable d)\<rparr>;
            let d = set_handshake p (h\<lparr>h_localIndex := 0\<rparr>) d;
            Some (None, rotate_keypairs isInitiator k p d)
          })"

definition ReceivedWithKeypair :: "keypair_ref \<Rightarrow> peer_ref \<Rightarrow> Device \<Rightarrow> bool \<times> Device" where
  "ReceivedWithKeypair receivedKeypair p d =
     (let keypairs = p_keypairs (peer_at d p) in
      if ks_next keypairs \<noteq> Some receivedKeypair then (False, d)
      else
        let old = ks_previous keypairs;
            keypairs = keypairs\<lparr>ks_previous := ks_current keypairs\<rparr>;
            d = DeleteKeypair old d;
            keypairs = keypairs\<lparr>ks_current := ks_next keypairs, ks_next := None\<rparr>
        in (True, set_peer p ((peer_at d p)\<lparr>p_keypairs := keypairs\<rparr>) d))"

definition Keypairs_Current :: "peer_ref \<Rightarrow> Device \<Rightarrow> keypair_ref option" where
  "Keypairs_Current p d = ks_current (p_keypairs (peer_at d p))"

section \<open>The cryptography of the handshake\<close>

lemma mixHash_Sum256: "mixHash h data = Sum256 (h @ data)"
  using blake.stream [of "[h, data]"] by (simp add: mixHash_def)

lemma length_mix [simp]: "length (mixHash h data) = 32" "length (mixKey c data) = 32"
  by (simp_all add: mixHash_Sum256 mixKey_def)

lemma length_tai64n_Now [simp]: "length (tai64n_Now t) = 12"
  by (simp add: tai64n_Now_def Let_def)

lemma length_initial [simp]: "length InitialHash = 32" "length InitialChainKey = 32"
  by (simp_all add: InitialHash_def InitialChainKey_def)

lemma ok_ZeroNonce [simp]: "ok_nonce ZeroNonce"
  by (simp add: ok_nonce_def ZeroNonce_def)

lemma seal_open_field:
  assumes "length key = 32" "length plaintext < 1000"
  obtains c where "seal_field key plaintext hash = Some c" "length c = length plaintext + 16"
    "open_field key c hash = Some (Inr plaintext)"
proof -
  obtain a where a: "aead_New key = Some a" using aead_New_total [OF assms(1)] by blast
  have "length plaintext + 16 < 2 ^ 30" using assms(2) by simp
  then obtain c where "Seal a ZeroNonce plaintext hash = Some c" "length c = length plaintext + 16"
    "Open a ZeroNonce c hash = Some (Inr plaintext)"
    by (rule aead.seal_unseal [OF aead_New_length [OF a] ok_ZeroNonce])
  then show ?thesis by (intro that [of c]) (simp_all add: seal_field_def open_field_def a)
qed

lemma open_field_total: "length key = 32 \<Longrightarrow> length c < 1000 \<Longrightarrow> \<exists>r. open_field key c hash = Some r"
  using aead_New_total [of key] aead.unseal_total [OF aead_New_length ok_ZeroNonce, of key _ c]
  by (auto simp: open_field_def)

lemma open_field_length:
  assumes "open_field key c hash = Some (Inr p)" "length c < 1000"
  shows "length p + 16 = length c"
proof -
  obtain a where a: "aead_New key = Some a" "Open a ZeroNonce c hash = Some (Inr p)"
    using assms(1) by (auto simp: open_field_def bind_eq_Some_conv)
  then show ?thesis using aead.unseal_sound [OF aead_New_length [OF a(1)] ok_ZeroNonce, of c hash p] assms(2) by simp
qed

lemma KDF2_obtain:
  obtains a b where "KDF2 key input = (a, b)" "length a = 32" "length b = 32"
  using that [of "fst (KDF2 key input)" "snd (KDF2 key input)"] by simp

lemma KDF3_obtain:
  obtains a b c where "KDF3 key input = (a, b, c)" "length a = 32" "length b = 32" "length c = 32"
  using that [of "fst (KDF3 key input)" "fst (snd (KDF3 key input))" "snd (snd (KDF3 key input))"] by simp

lemmas handshake_updates = Handshake_mixHash_def Handshake_mixKey_def

text \<open>What the writer of an initiation produces, and that a reader with the same secrets recovers all of it.\<close>

lemma initiation_agreement:
  assumes pk: "length publicKey = 32"
    and start: "h_hash h = InitialHash" "h_chainKey h = InitialChainKey"
    and target: "si_publicKey identity = h_remoteStatic h"
    and es: "root_sharedSecret w' (si_privateKey identity) (NoisePrivateKey_publicKey w (h_localEphemeral h)) =
      NoisePrivateKey_sharedSecret w (h_localEphemeral h) (h_remoteStatic h)"
  obtains msg hash ck hash' ck' where
    "write_initiation w publicKey h =
       Some (msg, h\<lparr>h_hash := hash', h_chainKey := ck', h_state := HandshakeInitiationCreated\<rparr>)"
    "read_static w' identity msg = Some (Inr (publicKey, hash, ck))"
    "read_timestamp (h_precomputedStaticStatic h) msg hash ck =
       Some (Inr (tai64n_Now (w_now w At_tai64n), hash', ck'))"
    "mi_Type msg = MessageInitiationType" "mi_Sender msg = h_localIndex h"
    "mi_Ephemeral msg = NoisePrivateKey_publicKey w (h_localEphemeral h)"
    "length (mi_Static msg) = 48" "length (mi_Timestamp msg) = 28"
    "length (mi_MAC1 msg) = 16" "length (mi_MAC2 msg) = 16" "length hash' = 32" "length ck' = 32"
proof -
  let ?E = "NoisePrivateKey_publicKey w (h_localEphemeral h)"
  let ?ss = "NoisePrivateKey_sharedSecret w (h_localEphemeral h) (h_remoteStatic h)"
  let ?h1 = "mixHash (mixHash InitialHash (h_remoteStatic h)) ?E"
  obtain ck1 key1 where k1: "KDF2 (mixKey InitialChainKey ?E) ?ss = (ck1, key1)" "length ck1 = 32" "length key1 = 32"
    by (rule KDF2_obtain)
  obtain static where s: "seal_field key1 publicKey ?h1 = Some static" "length static = 48"
    "open_field key1 static ?h1 = Some (Inr publicKey)"
    using seal_open_field [OF k1(3), of publicKey ?h1] pk by auto
  let ?h2 = "mixHash ?h1 static"
  obtain ck2 key2 where k2: "KDF2 ck1 (h_precomputedStaticStatic h) = (ck2, key2)" "length ck2 = 32" "length key2 = 32"
    by (rule KDF2_obtain)
  obtain ts where t: "seal_field key2 (tai64n_Now (w_now w At_tai64n)) ?h2 = Some ts" "length ts = 28"
    "open_field key2 ts ?h2 = Some (Inr (tai64n_Now (w_now w At_tai64n)))"
    using seal_open_field [OF k2(3), of "tai64n_Now (w_now w At_tai64n)" ?h2] by auto
  let ?msg = "\<lparr>mi_Type = MessageInitiationType, mi_Sender = h_localIndex h, mi_Ephemeral = ?E, mi_Static = static,
    mi_Timestamp = ts, mi_MAC1 = replicate 16 0, mi_MAC2 = replicate 16 0\<rparr>"
  have "write_initiation w publicKey h =
      Some (?msg, h\<lparr>h_hash := mixHash ?h2 ts, h_chainKey := ck2, h_state := HandshakeInitiationCreated\<rparr>)"
    by (simp add: write_initiation_def handshake_updates Let_def start k1 s k2 t cong: bind_weak_cong)
  moreover have "read_static w' identity ?msg = Some (Inr (publicKey, ?h2, ck1))"
    by (simp add: read_static_def Let_def target es k1 s cong: bind_weak_cong)
  moreover have "read_timestamp (h_precomputedStaticStatic h) ?msg ?h2 ck1 =
      Some (Inr (tai64n_Now (w_now w At_tai64n), mixHash ?h2 ts, ck2))"
    by (simp add: read_timestamp_def Let_def k2 t cong: bind_weak_cong)
  ultimately show ?thesis by (rule that) (simp_all add: s t k2)
qed

text \<open>The same for the response.\<close>

lemma response_agreement:
  assumes same: "h_hash hr = h_hash hi" "h_chainKey hr = h_chainKey hi" "h_presharedKey hr = h_presharedKey hi"
    and ee: "NoisePrivateKey_sharedSecret w' (h_localEphemeral hi) (NoisePrivateKey_publicKey w (h_localEphemeral hr)) =
      NoisePrivateKey_sharedSecret w (h_localEphemeral hr) (h_remoteEphemeral hr)"
    and se: "root_sharedSecret w' privateKey (NoisePrivateKey_publicKey w (h_localEphemeral hr)) =
      NoisePrivateKey_sharedSecret w (h_localEphemeral hr) (h_remoteStatic hr)"
  obtains msg hash ck where
    "write_response w hr = Some (msg, hr\<lparr>h_hash := hash, h_chainKey := ck, h_state := HandshakeResponseCreated\<rparr>)"
    "read_response w' privateKey msg hi = Some (Inr (hash, ck))"
    "mr_Type msg = MessageResponseType" "mr_Sender msg = h_localIndex hr" "mr_Receiver msg = h_remoteIndex hr"
    "mr_Ephemeral msg = NoisePrivateKey_publicKey w (h_localEphemeral hr)"
    "length (mr_Empty msg) = 16" "length (mr_MAC1 msg) = 16" "length (mr_MAC2 msg) = 16" "length hash = 32" "length ck = 32"
proof -
  let ?E = "NoisePrivateKey_publicKey w (h_localEphemeral hr)"
  let ?ee = "NoisePrivateKey_sharedSecret w (h_localEphemeral hr) (h_remoteEphemeral hr)"
  let ?se = "NoisePrivateKey_sharedSecret w (h_localEphemeral hr) (h_remoteStatic hr)"
  let ?c = "mixKey (mixKey (mixKey (h_chainKey hi) ?E) ?ee) ?se"
  obtain ck tau key where k: "KDF3 ?c (h_presharedKey hi) = (ck, tau, key)" "length ck = 32" "length tau = 32" "length key = 32"
    by (rule KDF3_obtain)
  let ?h = "mixHash (mixHash (h_hash hi) ?E) tau"
  obtain e where e: "seal_field key [] ?h = Some e" "length e = 16" "open_field key e ?h = Some (Inr [])"
    using seal_open_field [OF k(4), of "[]" ?h] by auto
  let ?msg = "\<lparr>mr_Type = MessageResponseType, mr_Sender = h_localIndex hr, mr_Receiver = h_remoteIndex hr,
    mr_Ephemeral = ?E, mr_Empty = e, mr_MAC1 = replicate 16 0, mr_MAC2 = replicate 16 0\<rparr>"
  have "write_response w hr =
      Some (?msg, hr\<lparr>h_hash := mixHash ?h e, h_chainKey := ck, h_state := HandshakeResponseCreated\<rparr>)"
    by (simp add: write_response_def handshake_updates Let_def same k e cong: bind_weak_cong)
  moreover have "read_response w' privateKey ?msg hi = Some (Inr (mixHash ?h e, ck))"
    by (simp add: read_response_def Let_def ee se k e cong: bind_weak_cong)
  ultimately show ?thesis by (rule that) (simp_all add: e k)
qed

section \<open>The operations on the device\<close>

lemma DeleteKeypair_frame [simp]:
  "peer_at (DeleteKeypair k d) = peer_at d" "keypair_at (DeleteKeypair k d) = keypair_at d"
  "out_at (DeleteKeypair k d) = out_at d" "in_at (DeleteKeypair k d) = in_at d"
  "handshake_at (DeleteKeypair k d) = handshake_at d" "dev_heap (DeleteKeypair k d) = dev_heap d"
  "dev_staticIdentity (DeleteKeypair k d) = dev_staticIdentity d" "dev_keyMap (DeleteKeypair k d) = dev_keyMap d"
  "dev_queue (DeleteKeypair k d) = dev_queue d" "dev_isUp (DeleteKeypair k d) = dev_isUp d"
  "dev_isClosed (DeleteKeypair k d) = dev_isClosed d" "dev_allowedips (DeleteKeypair k d) = dev_allowedips d"
  "dev_cookieChecker (DeleteKeypair k d) = dev_cookieChecker d" "dev_rate (DeleteKeypair k d) = dev_rate d"
  "dev_net (DeleteKeypair k d) = dev_net d" "dev_mtu (DeleteKeypair k d) = dev_mtu d"
  "dev_state (DeleteKeypair k d) = dev_state d" "dev_stop (DeleteKeypair k d) = dev_stop d"
  "dev_sent (DeleteKeypair k d) = dev_sent d" "dev_written (DeleteKeypair k d) = dev_written d"
  by (simp_all add: DeleteKeypair_def handshake_at_def fun_eq_iff heap_defs split: option.splits)

text \<open>The new peer table of a rotation.\<close>

definition rotated :: "bool \<Rightarrow> keypair_ref \<Rightarrow> Keypairs \<Rightarrow> Keypairs" where
  "rotated isInitiator k ks =
     (if isInitiator
      then \<lparr>ks_current = Some k, ks_previous = (if ks_next ks = None then ks_current ks else ks_next ks), ks_next = None\<rparr>
      else \<lparr>ks_current = ks_current ks, ks_previous = None, ks_next = Some k\<rparr>)"

lemma rotate_keypairs_frame [simp]:
  "peer_at (rotate_keypairs i k p d) q =
     (if q = p then (peer_at d p)\<lparr>p_keypairs := rotated i k (p_keypairs (peer_at d p))\<rparr> else peer_at d q)"
  "keypair_at (rotate_keypairs i k p d) = keypair_at d"
  "out_at (rotate_keypairs i k p d) = out_at d" "in_at (rotate_keypairs i k p d) = in_at d"
  by (auto simp: rotate_keypairs_def Let_def rotated_def fun_eq_iff split: prod.splits)

lemma CreateMessageInitiation_ok:
  assumes rand: "\<not> snd (w_ephemeral w)"
    and index: "NewIndexForHandshake (w_index w) p p (IndexTable_Delete (h_localIndex (handshake_at d p)) (dev_indexTable d)) =
      Some (index, False, table)"
    and nz: "\<not> isZero (h_precomputedStaticStatic (handshake_at d p))"
    and msg: "write_initiation w (si_publicKey (dev_staticIdentity d))
      ((handshake_at d p)\<lparr>h_hash := InitialHash, h_chainKey := InitialChainKey,
         h_localEphemeral := fst (newPrivateKey (w_ephemeral w)), h_localIndex := index\<rparr>) = Some (msg, h)"
  shows "CreateMessageInitiation w p d = Some (Inr msg, set_handshake p h (d\<lparr>dev_indexTable := table\<rparr>))"
proof -
  obtain sk where sk: "newPrivateKey (w_ephemeral w) = (sk, False)"
    using rand by (simp add: newPrivateKey_def Let_def)
  then show ?thesis
    using index nz msg by (simp add: CreateMessageInitiation_def Let_def cong: bind_weak_cong)
qed

lemma ConsumeMessageInitiation_ok:
  assumes "mi_Type msg = MessageInitiationType"
    "read_static w (dev_staticIdentity d) msg = Some (Inr (pk, hash, ck))"
    "LookupPeer pk d = Some p"
    "\<not> isZero (h_precomputedStaticStatic (handshake_at d p))"
    "read_timestamp (h_precomputedStaticStatic (handshake_at d p)) msg hash ck = Some (Inr (ts, hash', ck'))"
    "Timestamp_After ts (h_lastTimestamp (handshake_at d p))"
    "time_sub (w_now w At_InitiationRate) (h_lastInitiationConsumption (handshake_at d p)) > HandshakeInitationRate"
  shows "ConsumeMessageInitiation w msg d =
    Some (Some p, set_handshake p ((handshake_at d p)\<lparr>h_hash := hash', h_chainKey := ck',
      h_remoteIndex := mi_Sender msg, h_remoteEphemeral := mi_Ephemeral msg, h_lastTimestamp := ts,
      h_lastInitiationConsumption := w_now w At_InitiationConsumed, h_state := HandshakeInitiationConsumed\<rparr>) d)"
  using assms by (simp add: ConsumeMessageInitiation_def Let_def cong: bind_weak_cong)

lemma CreateMessageResponse_ok:
  assumes rand: "\<not> snd (w_ephemeral w)"
    and index: "NewIndexForHandshake (w_index w) p p (IndexTable_Delete (h_localIndex (handshake_at d p)) (dev_indexTable d)) =
      Some (index, False, table)"
    and state: "h_state (handshake_at d p) = HandshakeInitiationConsumed"
    and msg: "write_response w ((handshake_at d p)\<lparr>h_localIndex := index,
         h_localEphemeral := fst (newPrivateKey (w_ephemeral w))\<rparr>) = Some (msg, h)"
  shows "CreateMessageResponse w p d = Some (Inr msg, set_handshake p h (d\<lparr>dev_indexTable := table\<rparr>))"
proof -
  obtain sk where sk: "newPrivateKey (w_ephemeral w) = (sk, False)"
    using rand by (simp add: newPrivateKey_def Let_def)
  then show ?thesis
    using index state msg by (simp add: CreateMessageResponse_def Let_def cong: bind_weak_cong)
qed

lemma ConsumeMessageResponse_ok:
  assumes "mr_Type msg = MessageResponseType"
    "dev_indexTable d (mr_Receiver msg) = Some \<lparr>ie_peer = Some p, ie_handshake = Some p, ie_keypair = None\<rparr>"
    "h_state (handshake_at d p) = HandshakeInitiationCreated"
    "read_response w (si_privateKey (dev_staticIdentity d)) msg (handshake_at d p) = Some (Inr (hash, ck))"
  shows "ConsumeMessageResponse w msg d =
    Some (Some p, set_handshake p ((handshake_at d p)\<lparr>h_hash := hash, h_chainKey := ck,
      h_remoteIndex := mr_Sender msg, h_state := HandshakeResponseConsumed\<rparr>) d)"
  using assms by (simp add: ConsumeMessageResponse_def IndexTable_Lookup_def Let_def cong: bind_weak_cong)

text \<open>The key pair of a session.\<close>

definition session_keypair :: "World \<Rightarrow> u32 list \<Rightarrow> u32 list \<Rightarrow> bool \<Rightarrow> Handshake \<Rightarrow> Keypair" where
  "session_keypair w send receive isInitiator h =
     \<lparr>kp_sendNonce = 0, kp_send = send, kp_receive = receive, kp_replayFilter = ReplayFilter_Init new_ReplayFilter,
      kp_isInitiator = isInitiator, kp_created = w_now w At_Session, kp_localIndex = h_localIndex h,
      kp_remoteIndex = h_remoteIndex h\<rparr>"

text \<open>The handshake after a session was derived from it.\<close>

definition zeroed :: "Handshake \<Rightarrow> Handshake" where
  "zeroed h = h\<lparr>h_chainKey := setZero (h_chainKey h), h_hash := setZero (h_hash h),
     h_localEphemeral := setZero (h_localEphemeral h), h_state := HandshakeZeroed, h_localIndex := 0\<rparr>"

lemma BeginSymmetricSession_ok:
  assumes "session_keys (handshake_at d p) = Some (sendKey, recvKey, i)"
    "aead_New sendKey = Some send" "aead_New recvKey = Some receive"
  shows "BeginSymmetricSession w p d =
    Some (None, rotate_keypairs i (hp_next_keypair (dev_heap d)) p
      (set_handshake p (zeroed (handshake_at d p))
        ((add_keypair (session_keypair w send receive i (handshake_at d p)) d)
          \<lparr>dev_indexTable := SwapIndexForKeypair (h_localIndex (handshake_at d p)) (hp_next_keypair (dev_heap d)) (dev_indexTable d)\<rparr>)))"
  using assms
  by (simp add: BeginSymmetricSession_def Let_def new_keypair_def session_keypair_def zeroed_def cong: bind_weak_cong)

lemma session_keys_obtain:
  obtains k1 k2 a1 a2 where "aead_New k1 = Some a1" "aead_New k2 = Some a2"
    "\<And>h. h_chainKey h = ck \<Longrightarrow> h_state h = HandshakeResponseConsumed \<Longrightarrow> session_keys h = Some (k1, k2, True)"
    "\<And>h. h_chainKey h = ck \<Longrightarrow> h_state h = HandshakeResponseCreated \<Longrightarrow> session_keys h = Some (k2, k1, False)"
proof -
  obtain k1 k2 where k: "KDF2 ck [] = (k1, k2)" "length k1 = 32" "length k2 = 32" by (rule KDF2_obtain)
  obtain a1 a2 where "aead_New k1 = Some a1" "aead_New k2 = Some a2" using aead_New_total k(2,3) by metis
  then show ?thesis by (rule that) (simp_all add: session_keys_def k)
qed

section \<open>Properties\<close>

text \<open>
  What the handshake relies on outside the program: both orders of a Diffie-Hellman exchange give the same secret, and
  the trusted application multiplies with the private key it keeps for an identifier.
\<close>

definition curve_ok :: "World \<Rightarrow> bool" where
  "curve_ok w \<longleftrightarrow> (\<forall>a b. length a = 32 \<longrightarrow> length b = 32 \<longrightarrow>
     w_ScalarMult w a (w_ScalarBaseMult w b) = w_ScalarMult w b (w_ScalarBaseMult w a) \<and> length (w_ScalarBaseMult w a) = 32)"

definition same_curve :: "World \<Rightarrow> World \<Rightarrow> bool" where
  "same_curve w w' \<longleftrightarrow> w_ScalarMult w = w_ScalarMult w' \<and> w_ScalarBaseMult w = w_ScalarBaseMult w'"

definition tee_holds :: "World \<Rightarrow> RootPrivateKey \<Rightarrow> NoisePrivateKey \<Rightarrow> bool" where
  "tee_holds w rk sk \<longleftrightarrow> length sk = 32 \<and>
     (\<forall>pk. length pk = 32 \<longrightarrow> root_sharedSecret w rk pk = w_ScalarMult w sk pk)"

text \<open>The device has the static key \<open>sk\<close>, and its peer \<open>p\<close> stands for the static key \<open>remote\<close>.\<close>

definition configured :: "World \<Rightarrow> NoisePrivateKey \<Rightarrow> NoisePrivateKey \<Rightarrow> peer_ref \<Rightarrow> Device \<Rightarrow> bool" where
  "configured w sk remote p d \<longleftrightarrow>
     si_publicKey (dev_staticIdentity d) = w_ScalarBaseMult w sk \<and>
     h_remoteStatic (handshake_at d p) = w_ScalarBaseMult w remote \<and>
     h_precomputedStaticStatic (handshake_at d p) = w_ScalarMult w sk (w_ScalarBaseMult w remote) \<and>
     \<not> isZero (h_precomputedStaticStatic (handshake_at d p))"

text \<open>The random source works and finds an index for a handshake of the peer.\<close>

definition can_start :: "World \<Rightarrow> peer_ref \<Rightarrow> Device \<Rightarrow> bool" where
  "can_start w p d \<longleftrightarrow> \<not> snd (w_ephemeral w) \<and>
     (\<exists>draw \<in> set (w_index w). IndexTable_Delete (h_localIndex (handshake_at d p)) (dev_indexTable d) (fst (randUint32 draw)) = None) \<and>
     (\<forall>draw \<in> set (w_index w). \<not> snd draw)"

text \<open>Two key pairs that belong to the two ends of a session.\<close>

definition paired :: "Keypair \<Rightarrow> Keypair \<Rightarrow> bool" where
  "paired a b \<longleftrightarrow> kp_send a = kp_receive b \<and> kp_receive a = kp_send b \<and>
     kp_remoteIndex a = kp_localIndex b \<and> kp_remoteIndex b = kp_localIndex a"

lemma can_start_index:
  assumes "can_start w p d"
  obtains index table where
    "NewIndexForHandshake (w_index w) p p (IndexTable_Delete (h_localIndex (handshake_at d p)) (dev_indexTable d)) =
       Some (index, False, table)"
    "table index = Some \<lparr>ie_peer = Some p, ie_handshake = Some p, ie_keypair = None\<rparr>"
proof -
  let ?t = "IndexTable_Delete (h_localIndex (handshake_at d p)) (dev_indexTable d)"
  have no_err: "\<forall>draw \<in> set draws. \<not> snd draw \<Longrightarrow> NewIndexForHandshake draws p p t = Some (i, err, t') \<Longrightarrow> \<not> err"
    for draws t i err t'
    by (induction draws) (auto simp: randUint32_def split: if_splits)
  obtain r where r: "NewIndexForHandshake (w_index w) p p ?t = Some r"
    using assms NewIndex_ends_iff [of "w_index w" p p ?t] unfolding can_start_def by blast
  obtain index err table where "r = (index, err, table)" by (rule prod_cases3)
  then have "NewIndexForHandshake (w_index w) p p ?t = Some (index, False, table)"
    using r no_err [of "w_index w" ?t index err table] assms by (simp add: can_start_def)
  with that show ?thesis using NewIndex_fresh by fastforce
qed

lemma curve_comm:
  assumes "curve_ok w" "length a = 32" "length b = 32"
  shows "w_ScalarMult w a (w_ScalarBaseMult w b) = w_ScalarMult w b (w_ScalarBaseMult w a)" "length (w_ScalarBaseMult w a) = 32"
  using assms by (simp_all add: curve_ok_def)

lemmas dh_defs = NoisePrivateKey_publicKey_def NoisePrivateKey_sharedSecret_def

text \<open>The two ends between the initiation and the response.\<close>

definition midway :: "World \<Rightarrow> Device \<Rightarrow> peer_ref \<Rightarrow> Device \<Rightarrow> peer_ref \<Rightarrow> bool" where
  "midway w di pi dr pr \<longleftrightarrow>
     (let hi = handshake_at di pi; hr = handshake_at dr pr in
      h_hash hr = h_hash hi \<and> h_chainKey hr = h_chainKey hi \<and> h_presharedKey hr = h_presharedKey hi \<and>
      h_remoteEphemeral hr = w_ScalarBaseMult w (h_localEphemeral hi) \<and> length (h_localEphemeral hi) = 32 \<and>
      h_remoteIndex hr = h_localIndex hi \<and>
      h_state hi = HandshakeInitiationCreated \<and> h_state hr = HandshakeInitiationConsumed \<and>
      dev_indexTable di (h_localIndex hi) = Some \<lparr>ie_peer = Some pi, ie_handshake = Some pi, ie_keypair = None\<rparr>)"

lemma initiation_exchange:
  assumes curve: "curve_ok wi" "same_curve wi wr"
    and tee: "tee_holds wr (si_privateKey (dev_staticIdentity dr)) sr" "length si = 32"
    and conf: "configured wi si sr pi di" "configured wi sr si pr dr"
    and lookup: "LookupPeer (w_ScalarBaseMult wi si) dr = Some pr"
    and psk: "h_presharedKey (handshake_at di pi) = h_presharedKey (handshake_at dr pr)"
    and rand: "can_start wi pi di"
    and fresh: "Timestamp_After (tai64n_Now (w_now wi At_tai64n)) (h_lastTimestamp (handshake_at dr pr))"
      "time_sub (w_now wr At_InitiationRate) (h_lastInitiationConsumption (handshake_at dr pr)) > HandshakeInitationRate"
  obtains m1 di1 h where
    "CreateMessageInitiation wi pi di = Some (Inr m1, di1)" "dev_staticIdentity di1 = dev_staticIdentity di"
    "ConsumeMessageInitiation wr m1 dr = Some (Some pr, set_handshake pr h dr)"
    "h_remoteStatic h = h_remoteStatic (handshake_at dr pr)" "h_localIndex h = h_localIndex (handshake_at dr pr)"
    "midway wi di1 pi (set_handshake pr h dr) pr"
proof -
  have len: "length sr = 32" using tee by (simp add: tee_holds_def)
  let ?e = "fst (newPrivateKey (w_ephemeral wi))" and ?ts = "tai64n_Now (w_now wi At_tai64n)"
  obtain x t where x: "NewIndexForHandshake (w_index wi) pi pi
      (IndexTable_Delete (h_localIndex (handshake_at di pi)) (dev_indexTable di)) = Some (x, False, t)"
    "t x = Some \<lparr>ie_peer = Some pi, ie_handshake = Some pi, ie_keypair = None\<rparr>"
    by (rule can_start_index [OF rand])
  define hi where "hi = (handshake_at di pi)\<lparr>h_hash := InitialHash, h_chainKey := InitialChainKey,
    h_localEphemeral := ?e, h_localIndex := x\<rparr>"
  have es: "root_sharedSecret wr (si_privateKey (dev_staticIdentity dr)) (NoisePrivateKey_publicKey wi (h_localEphemeral hi)) =
      NoisePrivateKey_sharedSecret wi (h_localEphemeral hi) (h_remoteStatic hi)"
    using tee conf(1) curve(2) len curve_comm [OF curve(1), of ?e sr]
    by (simp add: tee_holds_def configured_def same_curve_def hi_def dh_defs)
  obtain m1 hash ck hash' ck' where m1: "write_initiation wi (si_publicKey (dev_staticIdentity di)) hi =
      Some (m1, hi\<lparr>h_hash := hash', h_chainKey := ck', h_state := HandshakeInitiationCreated\<rparr>)"
    "read_static wr (dev_staticIdentity dr) m1 = Some (Inr (si_publicKey (dev_staticIdentity di), hash, ck))"
    "read_timestamp (h_precomputedStaticStatic hi) m1 hash ck = Some (Inr (?ts, hash', ck'))"
    "mi_Type m1 = MessageInitiationType" "mi_Sender m1 = h_localIndex hi"
    "mi_Ephemeral m1 = NoisePrivateKey_publicKey wi (h_localEphemeral hi)"
    by (rule initiation_agreement [OF _ _ _ _ es])
      (use conf curve_comm(2) [OF curve(1) tee(2) tee(2)] in \<open>simp_all add: hi_def configured_def\<close>)
  let ?h = "(handshake_at dr pr)\<lparr>h_hash := hash', h_chainKey := ck', h_remoteIndex := x,
    h_remoteEphemeral := w_ScalarBaseMult wi ?e, h_lastTimestamp := ?ts,
    h_lastInitiationConsumption := w_now wr At_InitiationConsumed, h_state := HandshakeInitiationConsumed\<rparr>"
  let ?di1 = "set_handshake pi (hi\<lparr>h_hash := hash', h_chainKey := ck', h_state := HandshakeInitiationCreated\<rparr>)
    (di\<lparr>dev_indexTable := t\<rparr>)"
  have nz: "\<not> isZero (h_precomputedStaticStatic (handshake_at di pi))" "\<not> isZero (h_precomputedStaticStatic (handshake_at dr pr))"
    and pk: "si_publicKey (dev_staticIdentity di) = w_ScalarBaseMult wi si"
    using conf by (auto simp: configured_def)
  have rt: "read_timestamp (h_precomputedStaticStatic (handshake_at dr pr)) m1 hash ck = Some (Inr (?ts, hash', ck'))"
    using conf m1(3) curve_comm(1) [OF curve(1) tee(2) len] by (simp add: configured_def hi_def)
  have "CreateMessageInitiation wi pi di = Some (Inr m1, ?di1)"
    by (rule CreateMessageInitiation_ok [OF _ x(1) nz(1) m1(1) [unfolded hi_def], folded hi_def])
      (use rand in \<open>simp add: can_start_def\<close>)
  moreover have "ConsumeMessageInitiation wr m1 dr = Some (Some pr, set_handshake pr ?h dr)"
    using ConsumeMessageInitiation_ok [OF m1(4,2) _ nz(2) rt fresh] lookup m1(5,6) pk
    by (simp add: hi_def dh_defs)
  moreover have "midway wi ?di1 pi (set_handshake pr ?h dr) pr"
    using psk x(2) by (simp add: midway_def Let_def hi_def)
  ultimately show ?thesis by (intro that [of m1 ?di1 ?h]) simp_all
qed

lemma response_exchange:
  assumes curve: "curve_ok wi" "same_curve wi wr" "same_curve wi wi'"
    and tee: "tee_holds wi' (si_privateKey (dev_staticIdentity di)) si"
    and mid: "midway wi di pi dr pr" and remote: "h_remoteStatic (handshake_at dr pr) = w_ScalarBaseMult wi si"
    and rand: "can_start wr pr dr"
  obtains m2 dr2 dr3 di2 di3 ki kr where
    "CreateMessageResponse wr pr dr = Some (Inr m2, dr2)"
    "BeginSymmetricSession wr pr dr2 = Some (None, dr3)"
    "ConsumeMessageResponse wi' m2 di = Some (Some pi, di2)"
    "BeginSymmetricSession wi' pi di2 = Some (None, di3)"
    "ks_current (p_keypairs (peer_at di3 pi)) = Some ki"
    "ks_next (p_keypairs (peer_at dr3 pr)) = Some kr"
    "paired (keypair_at di3 ki) (keypair_at dr3 kr)"
proof -
  let ?e = "fst (newPrivateKey (w_ephemeral wr))" and ?hi = "handshake_at di pi"
  have m: "h_hash (handshake_at dr pr) = h_hash ?hi" "h_chainKey (handshake_at dr pr) = h_chainKey ?hi"
    "h_presharedKey (handshake_at dr pr) = h_presharedKey ?hi"
    "h_remoteEphemeral (handshake_at dr pr) = w_ScalarBaseMult wi (h_localEphemeral ?hi)" "length (h_localEphemeral ?hi) = 32"
    "h_remoteIndex (handshake_at dr pr) = h_localIndex ?hi" "h_state ?hi = HandshakeInitiationCreated"
    "h_state (handshake_at dr pr) = HandshakeInitiationConsumed"
    "dev_indexTable di (h_localIndex ?hi) = Some \<lparr>ie_peer = Some pi, ie_handshake = Some pi, ie_keypair = None\<rparr>"
    using mid unfolding midway_def Let_def by blast+
  obtain x t where x: "NewIndexForHandshake (w_index wr) pr pr
      (IndexTable_Delete (h_localIndex (handshake_at dr pr)) (dev_indexTable dr)) = Some (x, False, t)"
    by (rule can_start_index [OF rand])
  define hr where "hr = (handshake_at dr pr)\<lparr>h_localIndex := x, h_localEphemeral := ?e\<rparr>"
  have cr: "w_ScalarMult wr = w_ScalarMult wi" "w_ScalarBaseMult wr = w_ScalarBaseMult wi"
    "w_ScalarMult wi' = w_ScalarMult wi" "w_ScalarBaseMult wi' = w_ScalarBaseMult wi" "length si = 32"
    using curve tee by (simp_all add: same_curve_def tee_holds_def)
  have ee: "NoisePrivateKey_sharedSecret wi' (h_localEphemeral ?hi) (NoisePrivateKey_publicKey wr (h_localEphemeral hr)) =
      NoisePrivateKey_sharedSecret wr (h_localEphemeral hr) (h_remoteEphemeral hr)"
    using curve_comm(1) [OF curve(1) m(5), of ?e] m(4) by (simp add: dh_defs hr_def cr)
  have se: "root_sharedSecret wi' (si_privateKey (dev_staticIdentity di)) (NoisePrivateKey_publicKey wr (h_localEphemeral hr)) =
      NoisePrivateKey_sharedSecret wr (h_localEphemeral hr) (h_remoteStatic hr)"
    using tee remote curve_comm [OF curve(1), of si ?e] curve_comm(2) [OF curve(1), of ?e si]
    by (simp add: tee_holds_def hr_def dh_defs cr)
  obtain m2 hash ck where m2: "write_response wr hr =
      Some (m2, hr\<lparr>h_hash := hash, h_chainKey := ck, h_state := HandshakeResponseCreated\<rparr>)"
    "read_response wi' (si_privateKey (dev_staticIdentity di)) m2 ?hi = Some (Inr (hash, ck))"
    "mr_Type m2 = MessageResponseType" "mr_Sender m2 = h_localIndex hr" "mr_Receiver m2 = h_remoteIndex hr"
    by (rule response_agreement [OF _ _ _ ee se]) (use m in \<open>simp_all add: hr_def\<close>)
  let ?hr = "hr\<lparr>h_hash := hash, h_chainKey := ck, h_state := HandshakeResponseCreated\<rparr>"
  let ?hi = "?hi\<lparr>h_hash := hash, h_chainKey := ck, h_remoteIndex := x, h_state := HandshakeResponseConsumed\<rparr>"
  let ?dr = "set_handshake pr ?hr (dr\<lparr>dev_indexTable := t\<rparr>)" and ?di = "set_handshake pi ?hi di"
  let ?ki = "hp_next_keypair (dev_heap di)" and ?kr = "hp_next_keypair (dev_heap dr)"
  have s: "CreateMessageResponse wr pr dr = Some (Inr m2, ?dr)"
    by (rule CreateMessageResponse_ok [OF _ x m(8) m2(1) [unfolded hr_def], folded hr_def])
      (use rand in \<open>simp add: can_start_def\<close>)
  have c: "ConsumeMessageResponse wi' m2 di = Some (Some pi, ?di)"
    using ConsumeMessageResponse_ok [OF m2(3) _ m(7) m2(2)] m(6,9) m2(4,5) by (simp add: hr_def)
  obtain k1 k2 a1 a2 where k: "aead_New k1 = Some a1" "aead_New k2 = Some a2"
    "session_keys ?hr = Some (k2, k1, False)" "session_keys ?hi = Some (k1, k2, True)"
    by (rule session_keys_obtain [of ck]) simp_all
  obtain dr3 where r: "BeginSymmetricSession wr pr ?dr = Some (None, dr3)"
    "ks_next (p_keypairs (peer_at dr3 pr)) = Some ?kr" "keypair_at dr3 ?kr = session_keypair wr a2 a1 False ?hr"
    using BeginSymmetricSession_ok [of ?dr pr k2 k1 False a2 a1 wr] k by (simp add: rotated_def)
  obtain di3 where i: "BeginSymmetricSession wi' pi ?di = Some (None, di3)"
    "ks_current (p_keypairs (peer_at di3 pi)) = Some ?ki" "keypair_at di3 ?ki = session_keypair wi' a1 a2 True ?hi"
    using BeginSymmetricSession_ok [of ?di pi k1 k2 True a1 a2 wi'] k by (simp add: rotated_def)
  have "paired (keypair_at di3 ?ki) (keypair_at dr3 ?kr)"
    using m(6) unfolding r(3) i(3) by (simp add: paired_def session_keypair_def hr_def)
  then show ?thesis by (rule that [OF s r(1) c i(1,2) r(2)])
qed

text \<open>
  C3: two devices that know each other's static keys and share the preshared key complete a handshake: the responder accepts the
  initiation of the initiator as coming from the peer with its static key, the initiator accepts the response, both
  derive a session, and the two key pairs belong together, each end sending with the key and to the index that the
  other receives with.
\<close>

theorem handshake_agreement:
  assumes curve: "curve_ok wi" "same_curve wi wr" "same_curve wi wi'"
    and tee: "tee_holds wr (si_privateKey (dev_staticIdentity dr)) sr" "tee_holds wi' (si_privateKey (dev_staticIdentity di)) si"
    and conf: "configured wi si sr pi di" "configured wi sr si pr dr"
    and lookup: "LookupPeer (w_ScalarBaseMult wi si) dr = Some pr"
    and psk: "h_presharedKey (handshake_at di pi) = h_presharedKey (handshake_at dr pr)"
    and rand: "can_start wi pi di" "can_start wr pr dr"
    and fresh: "Timestamp_After (tai64n_Now (w_now wi At_tai64n)) (h_lastTimestamp (handshake_at dr pr))"
      "time_sub (w_now wr At_InitiationRate) (h_lastInitiationConsumption (handshake_at dr pr)) > HandshakeInitationRate"
  shows "\<exists>m1 di1 dr1 m2 dr2 dr3 di2 di3 ki kr.
    CreateMessageInitiation wi pi di = Some (Inr m1, di1) \<and>
    ConsumeMessageInitiation wr m1 dr = Some (Some pr, dr1) \<and>
    CreateMessageResponse wr pr dr1 = Some (Inr m2, dr2) \<and>
    BeginSymmetricSession wr pr dr2 = Some (None, dr3) \<and>
    ConsumeMessageResponse wi' m2 di1 = Some (Some pi, di2) \<and>
    BeginSymmetricSession wi' pi di2 = Some (None, di3) \<and>
    ks_current (p_keypairs (peer_at di3 pi)) = Some ki \<and>
    ks_next (p_keypairs (peer_at dr3 pr)) = Some kr \<and>
    paired (keypair_at di3 ki) (keypair_at dr3 kr)"
proof -
  have len: "length si = 32" using tee(2) by (simp add: tee_holds_def)
  obtain m1 di1 h where 1: "CreateMessageInitiation wi pi di = Some (Inr m1, di1)"
    "dev_staticIdentity di1 = dev_staticIdentity di"
    "ConsumeMessageInitiation wr m1 dr = Some (Some pr, set_handshake pr h dr)"
    "h_remoteStatic h = h_remoteStatic (handshake_at dr pr)" "h_localIndex h = h_localIndex (handshake_at dr pr)"
    "midway wi di1 pi (set_handshake pr h dr) pr"
    by (rule initiation_exchange [OF curve(1,2) tee(1) len conf lookup psk rand(1) fresh])
  have "can_start wr pr (set_handshake pr h dr)" using rand(2) 1(5) by (simp add: can_start_def)
  moreover have "h_remoteStatic (handshake_at (set_handshake pr h dr) pr) = w_ScalarBaseMult wi si"
    using conf(2) 1(4) by (simp add: configured_def)
  ultimately show ?thesis
    using response_exchange [OF curve tee(2) [folded 1(2)] 1(6)] 1(1,3) by metis
qed

text \<open>
  A toy curve on which multiplying adds byte by byte, and a trusted application that keeps as key of an identifier the
  lowest byte of the identifier 32 times.
\<close>

definition toy_call :: tee_call where
  "toy_call ui cmd req = (0, SAR_OK, map2 (+) (replicate 32 (req ! 0)) (take 32 (drop 4 req)))"

definition toy_World :: World where
  "toy_World = \<lparr>w_now = (\<lambda>_. 1500000000000000000), w_ephemeral = (replicate 32 77, False), w_index = [([1, 2, 3, 4], False)],
     w_jitter = 0, w_cookie_secret = (replicate 32 5, False), w_cookie_nonce = (replicate 24 6, False), w_call = toy_call,
     w_fresh = replicate 32 0,
     w_buffers = \<lparr>mreq_cmd = 0, mreq_data = replicate 64 0, mrsp_ret = 0, mrsp_data = replicate 64 0\<rparr>,
     w_ScalarMult = map2 (+), w_ScalarBaseMult = id, w_send_err = (\<lambda>_ _. False), w_roamingDisabled = False,
     w_listen = (\<lambda>_ port. Listening port), w_mark_err = False, w_close_err = False, w_mtu = Some 1420, w_services = (\<lambda>_. None)\<rparr>"

definition toy_device :: "int \<Rightarrow> byte \<Rightarrow> byte \<Rightarrow> Device" where
  "toy_device rk own remote =
     set_handshake 0 (new_Handshake\<lparr>h_remoteStatic := replicate 32 remote, h_precomputedStaticStatic := replicate 32 (own + remote)\<rparr>)
       (zero_Device\<lparr>dev_staticIdentity := \<lparr>si_privateKey = rk, si_publicKey = replicate 32 own\<rparr>,
          dev_keyMap := [(replicate 32 remote, 0)]\<rparr>)"

lemma toy_curve: "curve_ok toy_World" "same_curve toy_World toy_World"
proof -
  have "map2 (+) a b = map2 (+) b a" if "length a = length b" for a b :: bytes
    using that by (induction a b rule: list_induct2) (simp_all add: add.commute)
  then show "curve_ok toy_World" by (simp add: curve_ok_def toy_World_def)
qed (simp add: same_curve_def)

lemma toy_tee: "tee_holds toy_World 1 (replicate 32 1)" "tee_holds toy_World 2 (replicate 32 2)"
proof -
  have "put_le32 1 ! 0 = 1" "put_le32 2 ! 0 = 2" by code_simp+
  then show "tee_holds toy_World 1 (replicate 32 1)" "tee_holds toy_World 2 (replicate 32 2)"
    by (auto simp: tee_holds_def root_sharedSecret_def RootPrivateKey_sharedSecret_def TeeCurveMul_def Core_CurveMul_def ts_call_def
      toy_World_def toy_call_def tee_id_def CUR25519_PUB_KEY_LENGTH_def cArrayToByteSlice_take nth_append Let_def)
qed

lemma toy_configured: "configured toy_World (replicate 32 1) (replicate 32 2) 0 (toy_device 1 1 2)"
  "configured toy_World (replicate 32 2) (replicate 32 1) 0 (toy_device 2 2 1)"
  by (simp_all add: configured_def toy_device_def toy_World_def isZero_iff zip_replicate map_replicate)

lemma toy_can_start: "can_start toy_World 0 (toy_device rk own remote)"
  by (simp add: can_start_def toy_World_def toy_device_def zero_Device_def IndexTable_Init_def IndexTable_Delete_def)

lemma toy_fresh:
  "Timestamp_After (tai64n_Now (w_now toy_World At_tai64n)) (h_lastTimestamp (handshake_at (toy_device rk own remote) 0))"
  "time_sub (w_now toy_World At_InitiationRate) (h_lastInitiationConsumption (handshake_at (toy_device rk own remote) 0)) > HandshakeInitationRate"
proof -
  have "be_nat (replicate 12 0) = 0" by (simp add: be_nat_def eval_nat_numeral)
  moreover have "0 < be_nat (tai64n_Now 1500000000000000000)"
    by (simp add: tai64n_Now_def Let_def be_nat_append be_nat_put Unix_def Second_def tai64n_base_def)
  ultimately have "Timestamp_After (tai64n_Now 1500000000000000000) (replicate 12 0)"
    by (simp add: Timestamp_After_def bytes_Compare_be_nat)
  moreover have "time_sub 1500000000000000000 zero_time > HandshakeInitationRate"
    by (simp add: time_sub_def zero_time_def HandshakeInitationRate_def Second_def)
  ultimately show "Timestamp_After (tai64n_Now (w_now toy_World At_tai64n)) (h_lastTimestamp (handshake_at (toy_device rk own remote) 0))"
    "time_sub (w_now toy_World At_InitiationRate) (h_lastInitiationConsumption (handshake_at (toy_device rk own remote) 0)) > HandshakeInitationRate"
    by (simp_all add: toy_World_def toy_device_def new_Handshake_def)
qed

text \<open>Witness of C3: two new devices with root keys 1 and 2.\<close>

theorem handshake_agreement_witness:
  "\<exists>m1 di1 dr1 m2 dr2 dr3 di2 di3 ki kr.
    CreateMessageInitiation toy_World 0 (toy_device 1 1 2) = Some (Inr m1, di1) \<and>
    ConsumeMessageInitiation toy_World m1 (toy_device 2 2 1) = Some (Some 0, dr1) \<and>
    CreateMessageResponse toy_World 0 dr1 = Some (Inr m2, dr2) \<and>
    BeginSymmetricSession toy_World 0 dr2 = Some (None, dr3) \<and>
    ConsumeMessageResponse toy_World m2 di1 = Some (Some 0, di2) \<and>
    BeginSymmetricSession toy_World 0 di2 = Some (None, di3) \<and>
    ks_current (p_keypairs (peer_at di3 0)) = Some ki \<and>
    ks_next (p_keypairs (peer_at dr3 0)) = Some kr \<and>
    paired (keypair_at di3 ki) (keypair_at dr3 kr)"
  by (rule handshake_agreement [OF toy_curve toy_curve(2) _ _ toy_configured _ _ toy_can_start toy_can_start toy_fresh])
    (use toy_tee in \<open>simp_all add: toy_device_def LookupPeer_def toy_World_def [THEN arg_cong, of w_ScalarBaseMult]\<close>)

end
