(* ===== verification/Timers.thy ===== *)
theory Timers
  imports NoiseProtocol
begin

text \<open>
  The timers of a peer in \<^verbatim>\<open>timers.go\<close>: the timer itself and what the events of a peer do to its timers. The functions
  that run when a timer expires are in \<open>Expiry\<close>, after the sending operations that they call.
\<close>

section \<open>Model\<close>

text \<open>\<^verbatim>\<open>Mod\<close>, \<^verbatim>\<open>Del\<close> and \<^verbatim>\<open>DelSync\<close> of one timer; \<open>timer_expires\<close> is the wrapper around the function of a timer when its Go timer
  fires: whether the function is called.\<close>

definition Timer_Mod :: "duration \<Rightarrow> Timer \<Rightarrow> Timer" where
  "Timer_Mod d timer = timer\<lparr>t_isPending := True, t_armed := Some d\<rparr>"

definition Timer_Del :: "Timer \<Rightarrow> Timer" where
  "Timer_Del timer = timer\<lparr>t_isPending := False, t_armed := None\<rparr>"

definition Timer_DelSync :: "Timer \<Rightarrow> Timer" where
  "Timer_DelSync timer = Timer_Del (Timer_Del timer)"

definition Timer_IsPending :: "Timer \<Rightarrow> bool" where
  "Timer_IsPending timer = t_isPending timer"

definition timer_expires :: "Timer \<Rightarrow> bool \<times> Timer" where
  "timer_expires timer =
     (let timer = timer\<lparr>t_armed := None\<rparr> in
      if \<not> t_isPending timer then (False, timer) else (True, timer\<lparr>t_isPending := False\<rparr>))"

definition NewTimer :: Timer where
  "NewTimer = new_Timer"

definition timersActive :: "peer_ref \<Rightarrow> Device \<Rightarrow> bool" where
  "timersActive p d \<longleftrightarrow> p_isRunning (peer_at d p) \<and> dev_isUp d \<and> 0 < length (dev_keyMap d)"

definition timersDataSent :: "peer_ref \<Rightarrow> Device \<Rightarrow> Device" where
  "timersDataSent p d =
     (let t = timers_at d p in
      if timersActive p d \<and> \<not> Timer_IsPending (tm_newHandshake t)
      then set_timers p (t\<lparr>tm_newHandshake := Timer_Mod (KeepaliveTimeout + RekeyTimeout) (tm_newHandshake t)\<rparr>) d
      else d)"

definition timersDataReceived :: "peer_ref \<Rightarrow> Device \<Rightarrow> Device" where
  "timersDataReceived p d =
     (let t = timers_at d p in
      if timersActive p d then
        if \<not> Timer_IsPending (tm_sendKeepalive t)
        then set_timers p (t\<lparr>tm_sendKeepalive := Timer_Mod KeepaliveTimeout (tm_sendKeepalive t)\<rparr>) d
        else set_timers p (t\<lparr>tm_needAnotherKeepalive := True\<rparr>) d
      else d)"

definition timersAnyAuthenticatedPacketSent :: "peer_ref \<Rightarrow> Device \<Rightarrow> Device" where
  "timersAnyAuthenticatedPacketSent p d =
     (let t = timers_at d p in
      if timersActive p d then set_timers p (t\<lparr>tm_sendKeepalive := Timer_Del (tm_sendKeepalive t)\<rparr>) d else d)"

definition timersAnyAuthenticatedPacketReceived :: "peer_ref \<Rightarrow> Device \<Rightarrow> Device" where
  "timersAnyAuthenticatedPacketReceived p d =
     (let t = timers_at d p in
      if timersActive p d then set_timers p (t\<lparr>tm_newHandshake := Timer_Del (tm_newHandshake t)\<rparr>) d else d)"

text \<open>\<open>w_jitter\<close> is the value of \<^verbatim>\<open>rand.Int31n(RekeyTimeoutJitterMaxMs)\<close>.\<close>

definition timersHandshakeInitiated :: "World \<Rightarrow> peer_ref \<Rightarrow> Device \<Rightarrow> Device" where
  "timersHandshakeInitiated w p d =
     (let t = timers_at d p in
      if timersActive p d
      then set_timers p (t\<lparr>tm_retransmitHandshake :=
             Timer_Mod (RekeyTimeout + Millisecond * w_jitter w) (tm_retransmitHandshake t)\<rparr>) d
      else d)"

definition timersHandshakeComplete :: "World \<Rightarrow> peer_ref \<Rightarrow> Device \<Rightarrow> Device" where
  "timersHandshakeComplete w p d =
     (let t = timers_at d p;
          t = (if timersActive p d then t\<lparr>tm_retransmitHandshake := Timer_Del (tm_retransmitHandshake t)\<rparr> else t);
          d = set_timers p (t\<lparr>tm_handshakeAttempts := 0, tm_sentLastMinuteHandshake := False\<rparr>) d;
          x = peer_at d p
      in set_peer p (x\<lparr>p_stats := (p_stats x)\<lparr>st_lastHandshakeNano := UnixNano (w_now w At_HandshakeComplete)\<rparr>\<rparr>) d)"

definition timersSessionDerived :: "peer_ref \<Rightarrow> Device \<Rightarrow> Device" where
  "timersSessionDerived p d =
     (let t = timers_at d p in
      if timersActive p d
      then set_timers p (t\<lparr>tm_zeroKeyMaterial := Timer_Mod (RejectAfterTime * 3) (tm_zeroKeyMaterial t)\<rparr>) d
      else d)"

definition timersAnyAuthenticatedPacketTraversal :: "peer_ref \<Rightarrow> Device \<Rightarrow> Device" where
  "timersAnyAuthenticatedPacketTraversal p d =
     (let t = timers_at d p; interval = p_persistentKeepaliveInterval (peer_at d p) in
      if interval > 0 \<and> timersActive p d
      then set_timers p (t\<lparr>tm_persistentKeepalive := Timer_Mod (uint interval * Second) (tm_persistentKeepalive t)\<rparr>) d
      else d)"

definition timersInit :: "peer_ref \<Rightarrow> Device \<Rightarrow> Device" where
  "timersInit p d =
     set_timers p \<lparr>tm_retransmitHandshake = NewTimer, tm_sendKeepalive = NewTimer, tm_newHandshake = NewTimer,
       tm_zeroKeyMaterial = NewTimer, tm_persistentKeepalive = NewTimer, tm_handshakeAttempts = 0,
       tm_needAnotherKeepalive = False, tm_sentLastMinuteHandshake = False\<rparr> d"

definition timersStop :: "peer_ref \<Rightarrow> Device \<Rightarrow> Device" where
  "timersStop p d =
     (let t = timers_at d p in
      set_timers p (t\<lparr>tm_retransmitHandshake := Timer_DelSync (tm_retransmitHandshake t),
        tm_sendKeepalive := Timer_DelSync (tm_sendKeepalive t), tm_newHandshake := Timer_DelSync (tm_newHandshake t),
        tm_zeroKeyMaterial := Timer_DelSync (tm_zeroKeyMaterial t),
        tm_persistentKeepalive := Timer_DelSync (tm_persistentKeepalive t)\<rparr>) d)"

end
