(* ===== verification/Send.thy ===== *)
theory Send
  imports Timers
begin

unbundle bit_operations_syntax

text \<open>
  The outbound path of \<^verbatim>\<open>send.go\<close>. A routine of the code is a loop over a \<^verbatim>\<open>select\<close>; each branch of the \<^verbatim>\<open>select\<close> together
  with the code up to the next one is an operation here, named after the routine. The buffers of the elements are
  not shared between elements, so an element carries the content of its packet.
\<close>

section \<open>Model\<close>

definition Drop :: "out_ref \<Rightarrow> Device \<Rightarrow> Device" where
  "Drop e d = set_out e ((out_at d e)\<lparr>oe_dropped := True\<rparr>) d"

definition IsDropped :: "out_ref \<Rightarrow> Device \<Rightarrow> bool" where
  "IsDropped e d = oe_dropped (out_at d e)"

text \<open>
  An element comes from a pool or is new; in both cases these are its fields.
\<close>

definition NewOutboundElement :: "Device \<Rightarrow> out_ref \<times> Device" where
  "NewOutboundElement d =
     new_out \<lparr>oe_dropped = False, oe_locked = False, oe_packet = [], oe_nonce = 0, oe_keypair = None, oe_peer = None\<rparr> d"

definition set_queue :: "peer_ref \<Rightarrow> PeerQueue \<Rightarrow> Device \<Rightarrow> Device" where
  "set_queue p q d = set_peer p ((peer_at d p)\<lparr>p_queue := q\<rparr>) d"

definition set_signals :: "peer_ref \<Rightarrow> PeerSignals \<Rightarrow> Device \<Rightarrow> Device" where
  "set_signals p s d = set_peer p ((peer_at d p)\<lparr>p_signals := s\<rparr>) d"

text \<open>
  The loop of \<open>addToNonceQueue\<close> makes room by taking out the oldest element until the new one fits. It runs forever on a
  channel without capacity and panics on a closed one.
\<close>

fun nonce_loop :: "nat \<Rightarrow> out_ref \<Rightarrow> out_ref list \<Rightarrow> out_ref list option" where
  "nonce_loop cap element queue =
     (if length queue < cap then Some (queue @ [element])
      else case queue of [] \<Rightarrow> None | old # queue \<Rightarrow> nonce_loop cap element queue)"

declare nonce_loop.simps [simp del]

definition addToNonceQueue :: "out_ref \<Rightarrow> out_ref chan \<Rightarrow> out_ref chan option" where
  "addToNonceQueue element queue =
     (if ch_closed queue then None
      else do {
        buf \<leftarrow> nonce_loop (ch_cap queue) element (ch_buf queue);
        Some (queue\<lparr>ch_buf := buf\<rparr>)
      })"

definition addToOutboundAndEncryptionQueues :: "peer_ref \<Rightarrow> out_ref \<Rightarrow> Device \<Rightarrow> Device option" where
  "addToOutboundAndEncryptionQueues p element d =
     do {
       let q = p_queue (peer_at d p);
       (sent, outbound) \<leftarrow> try_send element (pq_outbound q);
       if sent then do {
         let d = set_queue p (q\<lparr>pq_outbound := outbound\<rparr>) d;
         (sent, encryption) \<leftarrow> try_send element (dq_encryption (dev_queue d));
         if sent then Some (d\<lparr>dev_queue := (dev_queue d)\<lparr>dq_encryption := encryption\<rparr>\<rparr>)
         else
           let d = Drop element d
           in Some (set_out element ((out_at d element)\<lparr>oe_locked := False\<rparr>) d)
       }
       else Some d
     }"

definition SendKeepalive :: "peer_ref \<Rightarrow> Device \<Rightarrow> (bool \<times> Device) option" where
  "SendKeepalive p d =
     (let q = p_queue (peer_at d p) in
      if length (ch_buf (pq_nonce q)) \<noteq> 0 \<or> pq_packetInNonceQueueIsAwaitingKey q \<or> \<not> p_isRunning (peer_at d p)
      then Some (False, d)
      else do {
        let (e, d) = NewOutboundElement d;
        (sent, nonce) \<leftarrow> try_send e (pq_nonce q);
        Some (sent, set_queue p (q\<lparr>pq_nonce := nonce\<rparr>) d)
      })"

text \<open>
  \<open>Bind.Send\<close> on the sockets, and \<open>SendBuffer\<close>: whether the datagram could not be sent. A datagram that the operating
  system accepted is added to \<open>dev_sent\<close>.
\<close>

datatype send_error = NoBind | NoEndpoint | EAFNOSUPPORT | SocketError

definition Bind_Send :: "World \<Rightarrow> NativeBind \<Rightarrow> bytes \<Rightarrow> Endpoint \<Rightarrow> Device \<Rightarrow> send_error option \<times> Device" where
  "Bind_Send w b buff endpoint d =
     (if (if To4 (ep_IP endpoint) \<noteq> None then \<not> bind_ipv4 b else \<not> bind_ipv6 b) then (Some EAFNOSUPPORT, d)
      else if w_send_err w buff endpoint then (Some SocketError, d)
      else (None, d\<lparr>dev_sent := dev_sent d @ [(buff, endpoint)]\<rparr>))"

definition SendBuffer :: "World \<Rightarrow> peer_ref \<Rightarrow> bytes \<Rightarrow> Device \<Rightarrow> send_error option \<times> Device" where
  "SendBuffer w p buffer d =
     (case net_bind (dev_net d) of
        None \<Rightarrow> (Some NoBind, d)
      | Some b \<Rightarrow>
          (case p_endpoint (peer_at d p) of
             None \<Rightarrow> (Some NoEndpoint, d)
           | Some endpoint \<Rightarrow> Bind_Send w b buffer endpoint d))"

text \<open>The cookie generator of a peer adds its authenticators to a packet.\<close>

definition peer_AddMacs :: "World \<Rightarrow> peer_ref \<Rightarrow> bytes \<Rightarrow> Device \<Rightarrow> (bytes \<times> Device) option" where
  "peer_AddMacs w p packet d =
     do {
       (packet, g) \<leftarrow> AddMacs (w_now w At_AddMacs) packet (p_cookieGenerator (peer_at d p));
       Some (packet, set_peer p ((peer_at d p)\<lparr>p_cookieGenerator := g\<rparr>) d)
     }"

datatype handshake_send_error = CreateError handshake_error | SendError send_error

definition SendHandshakeInitiation :: "World \<Rightarrow> bool \<Rightarrow> peer_ref \<Rightarrow> Device \<Rightarrow> (handshake_send_error option \<times> Device) option" where
  "SendHandshakeInitiation w isRetry p d =
     (let d = (if \<not> isRetry then set_timers p ((timers_at d p)\<lparr>tm_handshakeAttempts := 0\<rparr>) d else d) in
      if time_sub (w_now w At_RekeyTimeout) (h_lastSentHandshake (handshake_at d p)) < RekeyTimeout then Some (None, d)
      else if time_sub (w_now w At_RekeyTimeout2) (h_lastSentHandshake (handshake_at d p)) < RekeyTimeout then Some (None, d)
      else do {
        let d = set_handshake p ((handshake_at d p)\<lparr>h_lastSentHandshake := w_now w At_SentHandshake\<rparr>) d;
        (r, d) \<leftarrow> CreateMessageInitiation w p d;
        case r of
          Inl err \<Rightarrow> Some (Some (CreateError err), d)
        | Inr msg \<Rightarrow>
            do {
              (packet, d) \<leftarrow> peer_AddMacs w p (write_MessageInitiation msg) d;
              let d = timersAnyAuthenticatedPacketTraversal p d;
              let d = timersAnyAuthenticatedPacketSent p d;
              let (err, d) = SendBuffer w p packet d;
              let d = timersHandshakeInitiated w p d;
              Some (map_option SendError err, d)
            }
      })"

definition SendHandshakeResponse :: "World \<Rightarrow> peer_ref \<Rightarrow> Device \<Rightarrow> (handshake_send_error option \<times> Device) option" where
  "SendHandshakeResponse w p d =
     do {
       let d = set_handshake p ((handshake_at d p)\<lparr>h_lastSentHandshake := w_now w At_SentResponse\<rparr>) d;
       (r, d) \<leftarrow> CreateMessageResponse w p d;
       case r of
         Inl err \<Rightarrow> Some (Some (CreateError err), d)
       | Inr response \<Rightarrow>
           do {
             (packet, d) \<leftarrow> peer_AddMacs w p (write_MessageResponse response) d;
             (err, d) \<leftarrow> BeginSymmetricSession w p d;
             case err of
               Some err \<Rightarrow> Some (Some (CreateError err), d)
             | None \<Rightarrow>
                 let d = timersSessionDerived p d;
                     d = timersAnyAuthenticatedPacketTraversal p d;
                     d = timersAnyAuthenticatedPacketSent p d;
                     (err, d) = SendBuffer w p packet d
                 in Some (map_option SendError err, d)
           }
     }"

text \<open>\<open>DstToBytes\<close> of an endpoint: the address and the port, lowest byte first.\<close>

definition DstToBytes :: "Endpoint \<Rightarrow> bytes" where
  "DstToBytes e =
     (let out = (case To4 (ep_IP e) of Some ip \<Rightarrow> ip | None \<Rightarrow> ep_IP e)
      in out @ [word_of_int (ep_Port e), word_of_int (ep_Port e div 256)])"

text \<open>
  \<open>SendHandshakeCookie\<close> calls the socket without looking at its result, and panics when the device has no sockets. The
  result is whether the reply could not be created.
\<close>

definition SendHandshakeCookie :: "World \<Rightarrow> QueueHandshakeElement \<Rightarrow> Device \<Rightarrow> (bool \<times> Device) option" where
  "SendHandshakeCookie w elem d =
     do {
       sender \<leftarrow> slice 4 8 (he_packet elem);
       (r, c) \<leftarrow> CreateReply (w_now w At_SecretAge) (w_now w At_SecretSet) (w_cookie_secret w) (w_cookie_nonce w)
         (he_packet elem) (le_u32 sender) (DstToBytes (he_endpoint elem)) (dev_cookieChecker d);
       let d = d\<lparr>dev_cookieChecker := c\<rparr>;
       case r of
         None \<Rightarrow> Some (True, d)
       | Some reply \<Rightarrow>
           do {
             b \<leftarrow> net_bind (dev_net d);
             Some (False, snd (Bind_Send w b (write_MessageCookieReply reply) (he_endpoint elem) d))
           }
     }"

definition keepKeyFreshSending :: "World \<Rightarrow> peer_ref \<Rightarrow> Device \<Rightarrow> Device option" where
  "keepKeyFreshSending w p d =
     (case Keypairs_Current p d of
        None \<Rightarrow> Some d
      | Some k \<Rightarrow>
          let keypair = keypair_at d k in
          if kp_sendNonce keypair > RekeyAfterMessages \<or>
             (kp_isInitiator keypair \<and> time_sub (w_now w At_KeySending) (kp_created keypair) > RekeyAfterTime)
          then do { (err, d) \<leftarrow> SendHandshakeInitiation w False p d; Some d }
          else Some d)"

text \<open>The routing of \<open>RoutineReadFromTUN\<close>: the peer a packet goes to.\<close>

definition route_packet :: "bytes \<Rightarrow> Device \<Rightarrow> peer_ref option option" where
  "route_packet packet d =
     do {
       b \<leftarrow> at packet 0;
       if drop_bit 4 b = 4 then
         if length packet < 20 then Some None
         else do { dst \<leftarrow> slice IPv4offsetDst (IPv4offsetDst + 4) packet; LookupIPv4 (dev_allowedips d) dst }
       else if drop_bit 4 b = 6 then
         if length packet < 40 then Some None
         else do { dst \<leftarrow> slice IPv6offsetDst (IPv6offsetDst + 16) packet; LookupIPv6 (dev_allowedips d) dst }
       else Some None
     }"

text \<open>One packet read from the TUN device.\<close>

definition RoutineReadFromTUN :: "World \<Rightarrow> bytes \<Rightarrow> Device \<Rightarrow> Device option" where
  "RoutineReadFromTUN w packet d =
     (let (e, d) = NewOutboundElement d; size = length packet in
      if size = 0 \<or> size > MaxContentSize then Some d
      else do {
        let d = set_out e ((out_at d e)\<lparr>oe_packet := packet\<rparr>) d;
        r \<leftarrow> route_packet packet d;
        case r of
          None \<Rightarrow> Some d
        | Some p \<Rightarrow>
            if p_isRunning (peer_at d p) then
              do {
                d \<leftarrow> (if pq_packetInNonceQueueIsAwaitingKey (p_queue (peer_at d p))
                     then do { (err, d) \<leftarrow> SendHandshakeInitiation w False p d; Some d } else Some d);
                let q = p_queue (peer_at d p);
                nonce \<leftarrow> addToNonceQueue e (pq_nonce q);
                Some (set_queue p (q\<lparr>pq_nonce := nonce\<rparr>) d)
              }
            else Some d
      })"

definition FlushNonceQueue :: "peer_ref \<Rightarrow> Device \<Rightarrow> Device option" where
  "FlushNonceQueue p d =
     do {
       let s = p_signals (peer_at d p);
       (sent, c) \<leftarrow> try_send () (sg_flushNonceQueue s);
       Some (set_signals p (s\<lparr>sg_flushNonceQueue := c\<rparr>) d)
     }"

text \<open>
  \<open>RoutineNonce\<close>. \<open>RoutineNonce_flush\<close> is the signal to flush, \<open>RoutineNonce_packet\<close> the next packet of the queue,
  \<open>RoutineNonce_arrived\<close> the signal that a key pair has arrived while a packet waits for it. \<open>nonce_key\<close> is the inner loop up
  to its next wait, \<open>assign_nonce\<close> what follows it.
\<close>

definition flush :: "peer_ref \<Rightarrow> Device \<Rightarrow> Device" where
  "flush p d = (let q = p_queue (peer_at d p) in set_queue p (q\<lparr>pq_nonce := (pq_nonce q)\<lparr>ch_buf := []\<rparr>\<rparr>) d)"

definition set_awaiting :: "bool \<Rightarrow> peer_ref \<Rightarrow> Device \<Rightarrow> Device" where
  "set_awaiting b p d = (let q = p_queue (peer_at d p) in set_queue p (q\<lparr>pq_packetInNonceQueueIsAwaitingKey := b\<rparr>) d)"

definition set_held :: "out_ref option \<Rightarrow> peer_ref \<Rightarrow> Device \<Rightarrow> Device" where
  "set_held e p d = (let q = p_queue (peer_at d p) in set_queue p (q\<lparr>pq_held := e\<rparr>) d)"

definition assign_nonce :: "keypair_ref \<Rightarrow> out_ref \<Rightarrow> peer_ref \<Rightarrow> Device \<Rightarrow> Device option" where
  "assign_nonce k e p d =
     (let d = set_awaiting False p d;
          keypair = keypair_at d k;
          d = set_keypair k (keypair\<lparr>kp_sendNonce := kp_sendNonce keypair + 1\<rparr>) d;
          nonce = (kp_sendNonce keypair + 1) - 1;
          d = set_out e ((out_at d e)\<lparr>oe_peer := Some p, oe_nonce := nonce\<rparr>) d
      in if nonce \<ge> RejectAfterMessages
         then Some (set_keypair k ((keypair_at d k)\<lparr>kp_sendNonce := RejectAfterMessages\<rparr>) d)
         else addToOutboundAndEncryptionQueues p e
                (set_out e ((out_at d e)\<lparr>oe_keypair := Some k, oe_dropped := False, oe_locked := True\<rparr>) d))"

definition usable_keypair :: "World \<Rightarrow> peer_ref \<Rightarrow> Device \<Rightarrow> keypair_ref option" where
  "usable_keypair w p d =
     (case Keypairs_Current p d of
        None \<Rightarrow> None
      | Some k \<Rightarrow>
          if kp_sendNonce (keypair_at d k) < RejectAfterMessages \<and>
             time_sub (w_now w At_KeyAge) (kp_created (keypair_at d k)) < RejectAfterTime
          then Some k else None)"

definition nonce_key :: "World \<Rightarrow> out_ref \<Rightarrow> peer_ref \<Rightarrow> Device \<Rightarrow> Device option" where
  "nonce_key w e p d =
     (case usable_keypair w p d of
        Some k \<Rightarrow> do { d \<leftarrow> assign_nonce k e p (set_held None p d); Some (set_awaiting False p d) }
      | None \<Rightarrow>
          do {
            let d = set_awaiting True p d;
            let s = p_signals (peer_at d p);
            let d = set_signals p (s\<lparr>sg_newKeypairArrived := snd (try_recv (sg_newKeypairArrived s))\<rparr>) d;
            (err, d) \<leftarrow> SendHandshakeInitiation w False p d;
            Some (set_held (Some e) p d)
          })"

definition RoutineNonce_packet :: "World \<Rightarrow> peer_ref \<Rightarrow> Device \<Rightarrow> Device option" where
  "RoutineNonce_packet w p d =
     (let q = p_queue (peer_at d p) in
      case (pq_held q, try_recv (pq_nonce q)) of
        (None, (Some e, nonce)) \<Rightarrow> nonce_key w e p (set_queue p (q\<lparr>pq_nonce := nonce\<rparr>) d)
      | _ \<Rightarrow> Some d)"

definition RoutineNonce_flush :: "peer_ref \<Rightarrow> Device \<Rightarrow> Device" where
  "RoutineNonce_flush p d =
     (let s = p_signals (peer_at d p) in
      case try_recv (sg_flushNonceQueue s) of
        (None, _) \<Rightarrow> d
      | (Some _, c) \<Rightarrow>
          let d = set_signals p (s\<lparr>sg_flushNonceQueue := c\<rparr>) d;
              d = set_held None p d;
              d = flush p d
          in set_awaiting False p d)"

definition RoutineNonce_arrived :: "World \<Rightarrow> peer_ref \<Rightarrow> Device \<Rightarrow> Device option" where
  "RoutineNonce_arrived w p d =
     (let s = p_signals (peer_at d p) in
      case (pq_held (p_queue (peer_at d p)), try_recv (sg_newKeypairArrived s)) of
        (Some e, (Some _, c)) \<Rightarrow> nonce_key w e p (set_signals p (s\<lparr>sg_newKeypairArrived := c\<rparr>) d)
      | _ \<Rightarrow> Some d)"

text \<open>
  The padding of \<open>RoutineEncryption\<close>; a remainder by an MTU of zero panics, and a remainder has the sign of the length,
  which is not negative.
\<close>

definition pad_packet :: "int \<Rightarrow> bytes \<Rightarrow> bytes option" where
  "pad_packet mtu packet =
     (if mtu = 0 then None
      else
        let lastUnit = int (length packet) mod \<bar>mtu\<bar>;
            paddedSize = (lastUnit + int PaddingMultiple - 1) AND NOT (int PaddingMultiple - 1);
            paddedSize = (if paddedSize > mtu then mtu else paddedSize)
        in Some (packet @ replicate (nat (paddedSize - int (length packet))) 0))"

definition transport_nonce :: "u64 \<Rightarrow> bytes" where
  "transport_nonce nonce = replicate 4 0 @ put_le64 nonce"

definition encrypt_element :: "int \<Rightarrow> Keypair \<Rightarrow> u64 \<Rightarrow> bytes \<Rightarrow> bytes option" where
  "encrypt_element mtu keypair nonce packet =
     do {
       let header = put_le32 MessageTransportType @ put_le32 (kp_remoteIndex keypair) @ put_le64 nonce;
       packet \<leftarrow> pad_packet mtu packet;
       c \<leftarrow> Seal (kp_send keypair) (transport_nonce nonce) packet [];
       Some (header @ c)
     }"

definition RoutineEncryption :: "Device \<Rightarrow> Device option" where
  "RoutineEncryption d =
     (case try_recv (dq_encryption (dev_queue d)) of
        (None, _) \<Rightarrow> Some d
      | (Some e, c) \<Rightarrow>
          let d = d\<lparr>dev_queue := (dev_queue d)\<lparr>dq_encryption := c\<rparr>\<rparr>; elem = out_at d e in
          if IsDropped e d then Some d
          else do {
            k \<leftarrow> oe_keypair elem;
            packet \<leftarrow> encrypt_element (dev_mtu d) (keypair_at d k) (oe_nonce elem) (oe_packet elem);
            Some (set_out e (elem\<lparr>oe_packet := packet, oe_locked := False\<rparr>) d)
          })"

text \<open>\<open>RoutineSequentialSender\<close>: nothing happens while the first element of the queue is locked by a worker.\<close>

definition RoutineSequentialSender :: "World \<Rightarrow> peer_ref \<Rightarrow> Device \<Rightarrow> Device option" where
  "RoutineSequentialSender w p d =
     (let q = p_queue (peer_at d p) in
      case try_recv (pq_outbound q) of
        (None, _) \<Rightarrow> Some d
      | (Some e, c) \<Rightarrow>
          if oe_locked (out_at d e) then Some d
          else
            let d = set_queue p (q\<lparr>pq_outbound := c\<rparr>) d;
                d = set_out e ((out_at d e)\<lparr>oe_locked := True\<rparr>) d in
            if IsDropped e d then Some d
            else
              let d = timersAnyAuthenticatedPacketTraversal p d;
                  d = timersAnyAuthenticatedPacketSent p d;
                  packet = oe_packet (out_at d e);
                  (err, d) = SendBuffer w p packet d
              in if err \<noteq> None then Some d
                 else
                   let x = peer_at d p;
                       d = set_peer p (x\<lparr>p_stats := (p_stats x)\<lparr>st_txBytes := st_txBytes (p_stats x) + of_nat (length packet)\<rparr>\<rparr>) d;
                       d = (if length packet \<noteq> MessageKeepaliveSize then timersDataSent p d else d)
                   in keepKeyFreshSending w p d)"

section \<open>The transport messages\<close>

lemma and_not_15: "x AND -16 = 16 * (x div 16)" for x :: int
proof -
  have "x AND NOT (mask 4) = push_bit 4 (drop_bit 4 x)" by (rule bit_eqI) (auto simp: bit_simps)
  moreover have "NOT (mask 4) = (-16 :: int)" by (simp add: mask_eq_exp_minus_1)
  ultimately show ?thesis by (simp add: push_bit_eq_mult drop_bit_eq_div)
qed

lemma pad_packet_total:
  assumes "mtu \<noteq> 0"
  obtains pad where "pad_packet mtu packet = Some (packet @ replicate pad 0)" "pad < 16"
proof -
  let ?n = "int (length packet)"
  let ?u = "?n mod \<bar>mtu\<bar>"
  let ?s = "16 * ((?u + 15) div 16)"
  have "?u \<le> ?n" using assms by (simp add: zmod_le_nonneg_dividend)
  moreover have "?s \<le> ?u + 15" by simp
  ultimately have "nat ((if ?s > mtu then mtu else ?s) - ?n) < 16" by auto
  then show ?thesis
    by (intro that [of "nat ((if ?s > mtu then mtu else ?s) - ?n)"])
      (simp_all add: assms pad_packet_def Let_def PaddingMultiple_def and_not_15 add.commute)
qed

text \<open>
  C34: a packet that is no longer than the MTU is padded with zeros to a multiple of 16 bytes, or to the MTU if that is smaller; the
  packet itself is kept.
\<close>

theorem padding_multiple:
  assumes "0 < mtu" "int (length packet) \<le> mtu"
  shows "\<exists>padded. pad_packet mtu packet = Some padded \<and> take (length packet) padded = packet \<and>
    (\<forall>b \<in> set (drop (length packet) padded). b = 0) \<and>
    int (length padded) = min mtu (16 * ((int (length packet) + 15) div 16))"
proof -
  let ?n = "int (length packet)"
  have m: "?n mod mtu = (if ?n = mtu then 0 else ?n)" using assms by auto
  have r: "?n \<le> 16 * ((?n + 15) div 16)" by linarith
  have "pad_packet mtu packet = Some (packet @ replicate (nat (min mtu (16 * ((?n + 15) div 16)) - ?n)) 0)"
    using assms r m by (auto simp: pad_packet_def Let_def PaddingMultiple_def and_not_15 min_def add.commute)
  then show ?thesis using assms r by (auto simp: min_def)
qed

text \<open>Witness of C34: 100 bytes and the default MTU.\<close>

theorem padding_multiple_witness:
  "\<exists>padded. pad_packet 1420 (replicate 100 7) = Some padded \<and> take 100 padded = replicate 100 7 \<and> length padded = 112"
proof -
  have "(0 :: int) < 1420" "int (length (replicate 100 (7 :: byte))) \<le> 1420" by simp_all
  then show ?thesis using padding_multiple [of 1420 "replicate 100 7"] by auto
qed

end
