(* ===== verification/Frames.thy ===== *)
theory Frames
  imports Send
begin

text \<open>
  What the operations of the outbound path leave alone, for any observation of the device and the peers it is about. An
  \<open>outbound_frame\<close> does not see timers, statistics, cookies, endpoints and sent datagrams; a \<open>handshake_frame\<close> does not see
  handshakes and the index table either.
\<close>

section \<open>Observations that do not see the timers\<close>

locale outbound_frame =
  fixes view :: "Device \<Rightarrow> 'v" and about :: "peer_ref \<Rightarrow> bool"
  assumes view_timers [simp]: "about p \<Longrightarrow> view (set_timers p t d) = view d"
    and view_sent [simp]: "view (dev_sent_update s d) = view d"
    and view_stats [simp]: "about p \<Longrightarrow> view (set_peer p ((peer_at d p)\<lparr>p_stats := st\<rparr>) d) = view d"
    and view_cookie [simp]: "about p \<Longrightarrow> view (set_peer p ((peer_at d p)\<lparr>p_cookieGenerator := g\<rparr>) d) = view d"
    and view_endpoint [simp]: "about p \<Longrightarrow> view (set_peer p ((peer_at d p)\<lparr>p_endpoint := e\<rparr>) d) = view d"
begin

lemma view_timer_events [simp]:
  assumes "about p"
  shows "view (timersDataSent p d) = view d" "view (timersDataReceived p d) = view d"
    "view (timersAnyAuthenticatedPacketSent p d) = view d" "view (timersAnyAuthenticatedPacketReceived p d) = view d"
    "view (timersHandshakeInitiated w p d) = view d" "view (timersHandshakeComplete w p d) = view d"
    "view (timersSessionDerived p d) = view d" "view (timersAnyAuthenticatedPacketTraversal p d) = view d"
    "view (timersInit p d) = view d" "view (timersStop p d) = view d"
  using assms
  by (simp_all add: timersDataSent_def timersDataReceived_def timersAnyAuthenticatedPacketSent_def
    timersAnyAuthenticatedPacketReceived_def timersHandshakeInitiated_def timersHandshakeComplete_def
    timersSessionDerived_def timersAnyAuthenticatedPacketTraversal_def timersInit_def timersStop_def Let_def)

lemma view_Bind_Send [simp]: "view (snd (Bind_Send w b buff e d)) = view d"
  by (simp add: Bind_Send_def)

lemma view_SendBuffer [simp]: "view (snd (SendBuffer w p buffer d)) = view d"
  by (simp add: SendBuffer_def split: option.split)

lemma view_AddMacs: "about p \<Longrightarrow> returning (\<lambda>(packet', d'). view d' = view d) (peer_AddMacs w p packet d)"
  by (simp add: peer_AddMacs_def returningI split: prod.split)

end

section \<open>Observations that do not see the handshakes\<close>

locale handshake_frame = outbound_frame +
  assumes view_handshake [simp]: "about p \<Longrightarrow> view (set_handshake p h d) = view d"
    and view_index [simp]: "view (dev_indexTable_update t d) = view d"
begin

lemma view_CreateMessageInitiation:
  "about p \<Longrightarrow> returning (\<lambda>(r, d'). view d' = view d) (CreateMessageInitiation w p d)"
  by (simp add: CreateMessageInitiation_def Let_def returningI split: prod.split sum.split option.split)

lemma view_CreateMessageResponse:
  "about p \<Longrightarrow> returning (\<lambda>(r, d'). view d' = view d) (CreateMessageResponse w p d)"
  by (simp add: CreateMessageResponse_def Let_def returningI split: prod.split sum.split option.split)

lemma view_ConsumeMessageInitiation:
  assumes "\<And>key p. LookupPeer key d = Some p \<Longrightarrow> about p"
  shows "returning (\<lambda>(r, d'). view d' = view d) (ConsumeMessageInitiation w m d)"
  using assms
  by (auto simp: ConsumeMessageInitiation_def Let_def intro!: returningI split: prod.split sum.split option.split)

lemma view_ConsumeMessageResponse:
  assumes "\<And>p. ie_handshake (IndexTable_Lookup (mr_Receiver m) (dev_indexTable d)) = Some p \<Longrightarrow> about p"
  shows "returning (\<lambda>(r, d'). view d' = view d) (ConsumeMessageResponse w m d)"
  using assms
  by (auto simp: ConsumeMessageResponse_def Let_def intro!: returningI split: prod.split sum.split option.split)

lemma view_SendHandshakeInitiation:
  "about p \<Longrightarrow> returning (\<lambda>(r, d'). view d' = view d) (SendHandshakeInitiation w b p d)"
  by (auto simp: SendHandshakeInitiation_def Let_def case_prod_unfold
    intro!: returning_mono [OF view_CreateMessageInitiation] returning_mono [OF view_AddMacs] split: sum.split)

lemma view_keepKeyFreshSending: "about p \<Longrightarrow> returning (\<lambda>d'. view d' = view d) (keepKeyFreshSending w p d)"
  by (auto simp: keepKeyFreshSending_def Let_def case_prod_unfold
    intro!: returning_mono [OF view_SendHandshakeInitiation] split: option.split)

end

end
