(* ===== verification/Peers.thy ===== *)
theory Peers
  imports Frames
begin

text \<open>
  The life of a peer in \<^verbatim>\<open>peer.go\<close>: creation, start, stop, and the deletion of its keys.
\<close>

section \<open>Model\<close>

definition Peer_Start :: "World \<Rightarrow> peer_ref \<Rightarrow> Device \<Rightarrow> Device" where
  "Peer_Start w p d =
     (if dev_isClosed d then d
      else if p_isRunning (peer_at d p) then d
      else
        let d = set_peer p ((peer_at d p)\<lparr>p_stop := OpenChan\<rparr>) d;
            d = set_queue p \<lparr>pq_nonce = make_chan QueueOutboundSize, pq_outbound = make_chan QueueOutboundSize,
                  pq_inbound = make_chan QueueInboundSize, pq_packetInNonceQueueIsAwaitingKey = False, pq_held = None\<rparr> d;
            d = timersInit p d;
            d = set_handshake p ((handshake_at d p)\<lparr>h_lastSentHandshake := w_now w At_Start - (RekeyTimeout + Second)\<rparr>) d;
            d = set_signals p \<lparr>sg_newKeypairArrived = make_chan 1, sg_flushNonceQueue = make_chan 1\<rparr> d
        in set_peer p ((peer_at d p)\<lparr>p_isRunning := True\<rparr>) d)"

definition ZeroAndFlushAll :: "peer_ref \<Rightarrow> Device \<Rightarrow> Device option" where
  "ZeroAndFlushAll p d =
     (let keypairs = p_keypairs (peer_at d p);
          d = DeleteKeypair (ks_previous keypairs) d;
          d = DeleteKeypair (ks_current keypairs) d;
          d = DeleteKeypair (ks_next keypairs) d;
          d = set_peer p ((peer_at d p)\<lparr>p_keypairs := \<lparr>ks_current = None, ks_previous = None, ks_next = None\<rparr>\<rparr>) d;
          d = d\<lparr>dev_indexTable := IndexTable_Delete (h_localIndex (handshake_at d p)) (dev_indexTable d)\<rparr>;
          d = set_handshake p (Handshake_Clear (handshake_at d p)) d
      in FlushNonceQueue p d)"

text \<open>
  When a peer stops, its three routines end: the nonce routine empties the nonce queue and drops the packet that
  waits for a key, the sender drops what is left in the outbound queue.
\<close>

definition stop_routines :: "peer_ref \<Rightarrow> Device \<Rightarrow> Device" where
  "stop_routines p d =
     (let d = set_held None p d;
          d = flush p d;
          d = set_awaiting False p d;
          q = p_queue (peer_at d p);
          d = foldl (\<lambda>d e. if IsDropped e d then d else Drop e d) d (ch_buf (pq_outbound q))
      in set_queue p (q\<lparr>pq_outbound := (pq_outbound q)\<lparr>ch_buf := []\<rparr>\<rparr>) d)"

definition Peer_Stop :: "peer_ref \<Rightarrow> Device \<Rightarrow> Device option" where
  "Peer_Stop p d =
     (if \<not> p_isRunning (peer_at d p) then Some d
      else do {
        let d = set_peer p ((peer_at d p)\<lparr>p_isRunning := False\<rparr>) d;
        let d = timersStop p d;
        stop \<leftarrow> close_chan (p_stop (peer_at d p));
        let d = set_peer p ((peer_at d p)\<lparr>p_stop := stop\<rparr>) d;
        let d = stop_routines p d;
        let q = p_queue (peer_at d p);
        nonce \<leftarrow> close_chan_of (pq_nonce q);
        outbound \<leftarrow> close_chan_of (pq_outbound q);
        inbound \<leftarrow> close_chan_of (pq_inbound q);
        let d = set_queue p (q\<lparr>pq_nonce := nonce, pq_outbound := outbound, pq_inbound := inbound\<rparr>) d;
        ZeroAndFlushAll p d
      })"

datatype peer_error = DeviceClosed | TooManyPeers | AddingExistingPeer

definition NewPeer :: "World \<Rightarrow> NoisePublicKey \<Rightarrow> Device \<Rightarrow> (peer_error + peer_ref) \<times> Device" where
  "NewPeer w pk d =
     (if dev_isClosed d then (Inl DeviceClosed, d)
      else if length (dev_keyMap d) \<ge> MaxPeers then (Inl TooManyPeers, d)
      else
        let (p, d) = new_peer (new_Peer\<lparr>p_cookieGenerator := CookieGenerator_Init pk new_CookieGenerator\<rparr>) d in
        if map_of (dev_keyMap d) pk \<noteq> None then (Inl AddingExistingPeer, d)
        else
          let d = d\<lparr>dev_keyMap := dev_keyMap d @ [(pk, p)]\<rparr>;
              d = set_handshake p ((handshake_at d p)\<lparr>h_remoteStatic := pk,
                    h_precomputedStaticStatic := root_sharedSecret w (si_privateKey (dev_staticIdentity d)) pk\<rparr>) d;
              d = set_peer p ((peer_at d p)\<lparr>p_endpoint := None\<rparr>) d;
              d = (if dev_isUp d then Peer_Start w p d else d)
          in (Inr p, d))"

definition SetEndpointFromPacket :: "World \<Rightarrow> Endpoint \<Rightarrow> peer_ref \<Rightarrow> Device \<Rightarrow> Device" where
  "SetEndpointFromPacket w endpoint p d =
     (if w_roamingDisabled w then d else set_peer p ((peer_at d p)\<lparr>p_endpoint := Some endpoint\<rparr>) d)"

end
