(* ===== verification/Expiry.thy ===== *)
theory Expiry
  imports Peers
begin

text \<open>
  What the timers of a peer do when they expire (\<^verbatim>\<open>timers.go\<close>).
\<close>

section \<open>Model\<close>

text \<open>\<^verbatim>\<open>ClearSrc\<close> of the endpoint has no effect with the sockets of this platform.\<close>

definition ClearSrc :: "Endpoint \<Rightarrow> Endpoint" where
  "ClearSrc e = e"

definition clear_src :: "peer_ref \<Rightarrow> Device \<Rightarrow> Device" where
  "clear_src p d = set_peer p ((peer_at d p)\<lparr>p_endpoint := map_option ClearSrc (p_endpoint (peer_at d p))\<rparr>) d"

definition expiredRetransmitHandshake :: "World \<Rightarrow> peer_ref \<Rightarrow> Device \<Rightarrow> Device option" where
  "expiredRetransmitHandshake w p d =
     (if tm_handshakeAttempts (timers_at d p) > of_nat MaxTimerHandshakes then
        do {
          let t = timers_at d p;
          let d = (if timersActive p d then set_timers p (t\<lparr>tm_sendKeepalive := Timer_Del (tm_sendKeepalive t)\<rparr>) d else d);
          d \<leftarrow> FlushNonceQueue p d;
          let t = timers_at d p;
          Some (if timersActive p d \<and> \<not> Timer_IsPending (tm_zeroKeyMaterial t)
                then set_timers p (t\<lparr>tm_zeroKeyMaterial := Timer_Mod (RejectAfterTime * 3) (tm_zeroKeyMaterial t)\<rparr>) d
                else d)
        }
      else
        do {
          let t = timers_at d p;
          let d = set_timers p (t\<lparr>tm_handshakeAttempts := tm_handshakeAttempts t + 1\<rparr>) d;
          let d = clear_src p d;
          (err, d) \<leftarrow> SendHandshakeInitiation w True p d;
          Some d
        })"

definition expiredSendKeepalive :: "peer_ref \<Rightarrow> Device \<Rightarrow> Device option" where
  "expiredSendKeepalive p d =
     do {
       (sent, d) \<leftarrow> SendKeepalive p d;
       let t = timers_at d p;
       if tm_needAnotherKeepalive t then
         let d = set_timers p (t\<lparr>tm_needAnotherKeepalive := False\<rparr>) d; t = timers_at d p in
         Some (if timersActive p d
               then set_timers p (t\<lparr>tm_sendKeepalive := Timer_Mod KeepaliveTimeout (tm_sendKeepalive t)\<rparr>) d else d)
       else Some d
     }"

definition expiredNewHandshake :: "World \<Rightarrow> peer_ref \<Rightarrow> Device \<Rightarrow> Device option" where
  "expiredNewHandshake w p d =
     do {
       let d = clear_src p d;
       (err, d) \<leftarrow> SendHandshakeInitiation w False p d;
       Some d
     }"

definition expiredZeroKeyMaterial :: "peer_ref \<Rightarrow> Device \<Rightarrow> Device option" where
  "expiredZeroKeyMaterial p d = ZeroAndFlushAll p d"

definition expiredPersistentKeepalive :: "peer_ref \<Rightarrow> Device \<Rightarrow> Device option" where
  "expiredPersistentKeepalive p d =
     (if p_persistentKeepaliveInterval (peer_at d p) > 0
      then do { (sent, d) \<leftarrow> SendKeepalive p d; Some d } else Some d)"

text \<open>The five timers of a peer, and the firing of one of them, as the wrapper made by \<open>NewTimer\<close> handles it.\<close>

datatype timer_name =
  retransmitHandshake | sendKeepalive | newHandshake | zeroKeyMaterial | persistentKeepalive

definition get_timer :: "timer_name \<Rightarrow> Timers \<Rightarrow> Timer" where
  "get_timer n t =
     (case n of
        retransmitHandshake \<Rightarrow> tm_retransmitHandshake t
      | sendKeepalive \<Rightarrow> tm_sendKeepalive t
      | newHandshake \<Rightarrow> tm_newHandshake t
      | zeroKeyMaterial \<Rightarrow> tm_zeroKeyMaterial t
      | persistentKeepalive \<Rightarrow> tm_persistentKeepalive t)"

definition put_timer :: "timer_name \<Rightarrow> Timer \<Rightarrow> Timers \<Rightarrow> Timers" where
  "put_timer n x t =
     (case n of
        retransmitHandshake \<Rightarrow> t\<lparr>tm_retransmitHandshake := x\<rparr>
      | sendKeepalive \<Rightarrow> t\<lparr>tm_sendKeepalive := x\<rparr>
      | newHandshake \<Rightarrow> t\<lparr>tm_newHandshake := x\<rparr>
      | zeroKeyMaterial \<Rightarrow> t\<lparr>tm_zeroKeyMaterial := x\<rparr>
      | persistentKeepalive \<Rightarrow> t\<lparr>tm_persistentKeepalive := x\<rparr>)"

definition timer_fires :: "World \<Rightarrow> timer_name \<Rightarrow> peer_ref \<Rightarrow> Device \<Rightarrow> Device option" where
  "timer_fires w n p d =
     (case timer_expires (get_timer n (timers_at d p)) of
        (run, x) \<Rightarrow>
          let d = set_timers p (put_timer n x (timers_at d p)) d in
          if \<not> run then Some d
          else case n of
            retransmitHandshake \<Rightarrow> expiredRetransmitHandshake w p d
          | sendKeepalive \<Rightarrow> expiredSendKeepalive p d
          | newHandshake \<Rightarrow> expiredNewHandshake w p d
          | zeroKeyMaterial \<Rightarrow> expiredZeroKeyMaterial p d
          | persistentKeepalive \<Rightarrow> expiredPersistentKeepalive p d)"

end
