(* ===== verification/Receive.thy ===== *)
theory Receive
  imports Peers
begin

unbundle bit_operations_syntax

text \<open>
  The inbound path of \<^verbatim>\<open>receive.go\<close>: datagrams, the decryption of transport messages, the handshake worker and the
  sequential receiver of a peer. The operations are cut as in \<open>Send\<close>.
\<close>

section \<open>Model\<close>

definition In_Drop :: "in_ref \<Rightarrow> Device \<Rightarrow> Device" where
  "In_Drop e d = set_in e ((in_at d e)\<lparr>ie_dropped := True\<rparr>) d"

definition In_IsDropped :: "in_ref \<Rightarrow> Device \<Rightarrow> bool" where
  "In_IsDropped e d = ie_dropped (in_at d e)"

definition addToInboundAndDecryptionQueues :: "peer_ref \<Rightarrow> in_ref \<Rightarrow> Device \<Rightarrow> (bool \<times> Device) option" where
  "addToInboundAndDecryptionQueues p element d =
     do {
       let q = p_queue (peer_at d p);
       (sent, inbound) \<leftarrow> try_send element (pq_inbound q);
       if sent then do {
         let d = set_queue p (q\<lparr>pq_inbound := inbound\<rparr>) d;
         (sent, decryption) \<leftarrow> try_send element (dq_decryption (dev_queue d));
         if sent then Some (True, d\<lparr>dev_queue := (dev_queue d)\<lparr>dq_decryption := decryption\<rparr>\<rparr>)
         else
           let d = In_Drop element d
           in Some (False, set_in element ((in_at d element)\<lparr>ie_locked := False\<rparr>) d)
       }
       else Some (False, d)
     }"

definition addToHandshakeQueue :: "QueueHandshakeElement \<Rightarrow> Device \<Rightarrow> (bool \<times> Device) option" where
  "addToHandshakeQueue element d =
     do {
       (sent, c) \<leftarrow> try_send element (dq_handshake (dev_queue d));
       Some (sent, d\<lparr>dev_queue := (dev_queue d)\<lparr>dq_handshake := c\<rparr>\<rparr>)
     }"

definition keepKeyFreshReceiving :: "World \<Rightarrow> peer_ref \<Rightarrow> Device \<Rightarrow> Device option" where
  "keepKeyFreshReceiving w p d =
     (if tm_sentLastMinuteHandshake (timers_at d p) then Some d
      else case Keypairs_Current p d of
        None \<Rightarrow> Some d
      | Some k \<Rightarrow>
          let keypair = keypair_at d k in
          if kp_isInitiator keypair \<and>
             time_sub (w_now w At_KeyReceiving) (kp_created keypair) > RejectAfterTime - KeepaliveTimeout - RekeyTimeout
          then do {
            let d = set_timers p ((timers_at d p)\<lparr>tm_sentLastMinuteHandshake := True\<rparr>) d;
            (err, d) \<leftarrow> SendHandshakeInitiation w False p d;
            Some d
          }
          else Some d)"

text \<open>
  One datagram in \<open>RoutineReceiveIncoming\<close>: a transport message goes to the peer of its key pair, a handshake message of the
  right size to the handshake worker.
\<close>

definition receive_transport :: "World \<Rightarrow> bytes \<Rightarrow> Endpoint \<Rightarrow> Device \<Rightarrow> Device option" where
  "receive_transport w packet endpoint d =
     (if length packet < MessageTransportSize then Some d
      else do {
        field \<leftarrow> slice MessageTransportOffsetReceiver MessageTransportOffsetCounter packet;
        let v = IndexTable_Lookup (le_u32 field) (dev_indexTable d);
        case ie_keypair v of
          None \<Rightarrow> Some d
        | Some k \<Rightarrow>
            if kp_created (keypair_at d k) + RejectAfterTime < w_now w At_KeyExpiry then Some d
            else
              let (e, d) = new_in \<lparr>ie_dropped = False, ie_locked = True, ie_packet = packet, ie_counter = 0,
                             ie_keypair_used = Some k, ie_endpoint = endpoint\<rparr> d
              in do {
                p \<leftarrow> ie_peer v;
                if p_isRunning (peer_at d p)
                then do { (sent, d) \<leftarrow> addToInboundAndDecryptionQueues p e d; Some d }
                else Some d
              }
      })"

definition RoutineReceiveIncoming :: "World \<Rightarrow> bytes \<Rightarrow> Endpoint \<Rightarrow> Device \<Rightarrow> Device option" where
  "RoutineReceiveIncoming w packet endpoint d =
     (if length packet < MinMessageSize then Some d
      else
        let msgType = le_u32 (take 4 packet) in
        if msgType = MessageTransportType then receive_transport w packet endpoint d
        else
          let okay = (if msgType = MessageInitiationType then length packet = MessageInitiationSize
                      else if msgType = MessageResponseType then length packet = MessageResponseSize
                      else if msgType = MessageCookieReplyType then length packet = MessageCookieReplySize
                      else False)
          in if okay
             then do {
               (sent, d) \<leftarrow> addToHandshakeQueue \<lparr>he_msgType = msgType, he_packet = packet, he_endpoint = endpoint\<rparr> d;
               Some d
             }
             else Some d)"

definition decrypt_element :: "Keypair \<Rightarrow> bytes \<Rightarrow> (u64 \<times> (aead_error + bytes)) option" where
  "decrypt_element keypair packet =
     do {
       counter \<leftarrow> slice MessageTransportOffsetCounter MessageTransportOffsetContent packet;
       let content = drop MessageTransportOffsetContent packet;
       let nonce = replicate 4 0 @ counter;
       r \<leftarrow> Open (kp_receive keypair) nonce content [];
       Some (le_u64 counter, r)
     }"

definition RoutineDecryption :: "Device \<Rightarrow> Device option" where
  "RoutineDecryption d =
     (case try_recv (dq_decryption (dev_queue d)) of
        (None, _) \<Rightarrow> Some d
      | (Some e, c) \<Rightarrow>
          let d = d\<lparr>dev_queue := (dev_queue d)\<lparr>dq_decryption := c\<rparr>\<rparr>; elem = in_at d e in
          if In_IsDropped e d then Some d
          else do {
            k \<leftarrow> ie_keypair_used elem;
            (counter, r) \<leftarrow> decrypt_element (keypair_at d k) (ie_packet elem);
            let elem = elem\<lparr>ie_counter := counter\<rparr>;
            Some (set_in e
              (case r of
                 Inl err \<Rightarrow> elem\<lparr>ie_packet := [], ie_dropped := True, ie_locked := False\<rparr>
               | Inr packet \<Rightarrow> elem\<lparr>ie_packet := packet, ie_locked := False\<rparr>) d)
          })"

definition IsUnderLoad :: "World \<Rightarrow> Device \<Rightarrow> bool \<times> Device" where
  "IsUnderLoad w d =
     (let now = w_now w At_UnderLoad in
      if length (ch_buf (dq_handshake (dev_queue d))) \<ge> UnderLoadQueueSize
      then (True, d\<lparr>dev_rate := (dev_rate d)\<lparr>rate_underLoadUntil := now + UnderLoadAfterTime\<rparr>\<rparr>)
      else (rate_underLoadUntil (dev_rate d) > now, d))"

text \<open>The cookie reply of \<open>RoutineHandshake\<close>; a reply that does not decode would end the routine.\<close>

definition handle_cookie_reply :: "World \<Rightarrow> QueueHandshakeElement \<Rightarrow> Device \<Rightarrow> Device option" where
  "handle_cookie_reply w elem d =
     do {
       reply \<leftarrow> read_MessageCookieReply (he_packet elem);
       let entry = IndexTable_Lookup (mc_Receiver reply) (dev_indexTable d);
       case ie_peer entry of
         None \<Rightarrow> Some d
       | Some p \<Rightarrow>
           if p_isRunning (peer_at d p) then do {
             (ok, g) \<leftarrow> ConsumeReply (w_now w At_CookieSet) reply (p_cookieGenerator (peer_at d p));
             Some (set_peer p ((peer_at d p)\<lparr>p_cookieGenerator := g\<rparr>) d)
           }
           else Some d
     }"

text \<open>The authenticators and the rate limit: whether the message is handled further.\<close>

definition admit_handshake :: "World \<Rightarrow> QueueHandshakeElement \<Rightarrow> Device \<Rightarrow> (bool \<times> Device) option" where
  "admit_handshake w elem d =
     do {
       ok \<leftarrow> CheckMAC1 (dev_cookieChecker d) (he_packet elem);
       if \<not> ok then Some (False, d)
       else
         let (underLoad, d) = IsUnderLoad w d in
         if underLoad then do {
           ok \<leftarrow> CheckMAC2 (w_now w At_CheckMAC2) (dev_cookieChecker d) (he_packet elem) (DstToBytes (he_endpoint elem));
           if \<not> ok then do { (err, d) \<leftarrow> SendHandshakeCookie w elem d; Some (False, d) }
           else do {
             (allowed, l) \<leftarrow> Allow (w_now w At_Limiter) (ep_IP (he_endpoint elem)) (rate_limiter (dev_rate d));
             Some (allowed, d\<lparr>dev_rate := (dev_rate d)\<lparr>rate_limiter := l\<rparr>\<rparr>)
           }
         }
         else Some (True, d)
     }"

definition handle_initiation :: "World \<Rightarrow> QueueHandshakeElement \<Rightarrow> Device \<Rightarrow> Device option" where
  "handle_initiation w elem d =
     (case read_MessageInitiation (he_packet elem) of
        None \<Rightarrow> Some d
      | Some msg \<Rightarrow>
          do {
            (r, d) \<leftarrow> ConsumeMessageInitiation w msg d;
            case r of
              None \<Rightarrow> Some d
            | Some p \<Rightarrow>
                do {
                  let d = timersAnyAuthenticatedPacketTraversal p d;
                  let d = timersAnyAuthenticatedPacketReceived p d;
                  let d = SetEndpointFromPacket w (he_endpoint elem) p d;
                  (err, d) \<leftarrow> SendHandshakeResponse w p d;
                  Some d
                }
          })"

text \<open>The signal that a new key pair has arrived; it is dropped when one is already waiting.\<close>

definition signal_new_keypair :: "peer_ref \<Rightarrow> Device \<Rightarrow> Device option" where
  "signal_new_keypair p d =
     do {
       let s = p_signals (peer_at d p);
       (sent, c) \<leftarrow> try_send () (sg_newKeypairArrived s);
       Some (set_signals p (s\<lparr>sg_newKeypairArrived := c\<rparr>) d)
     }"

definition handle_response :: "World \<Rightarrow> QueueHandshakeElement \<Rightarrow> Device \<Rightarrow> Device option" where
  "handle_response w elem d =
     (case read_MessageResponse (he_packet elem) of
        None \<Rightarrow> Some d
      | Some msg \<Rightarrow>
          do {
            (r, d) \<leftarrow> ConsumeMessageResponse w msg d;
            case r of
              None \<Rightarrow> Some d
            | Some p \<Rightarrow>
                do {
                  let d = SetEndpointFromPacket w (he_endpoint elem) p d;
                  let d = timersAnyAuthenticatedPacketTraversal p d;
                  let d = timersAnyAuthenticatedPacketReceived p d;
                  (err, d) \<leftarrow> BeginSymmetricSession w p d;
                  if err \<noteq> None then Some d
                  else do {
                    let d = timersSessionDerived p d;
                    let d = timersHandshakeComplete w p d;
                    (sent, d) \<leftarrow> SendKeepalive p d;
                    signal_new_keypair p d
                  }
                }
          })"

definition RoutineHandshake :: "World \<Rightarrow> Device \<Rightarrow> Device option" where
  "RoutineHandshake w d =
     (case try_recv (dq_handshake (dev_queue d)) of
        (None, _) \<Rightarrow> Some d
      | (Some elem, c) \<Rightarrow>
          let d = d\<lparr>dev_queue := (dev_queue d)\<lparr>dq_handshake := c\<rparr>\<rparr> in
          if he_msgType elem = MessageCookieReplyType then handle_cookie_reply w elem d
          else if he_msgType elem = MessageInitiationType \<or> he_msgType elem = MessageResponseType then
            do {
              (ok, d) \<leftarrow> admit_handshake w elem d;
              if \<not> ok then Some d
              else if he_msgType elem = MessageInitiationType then handle_initiation w elem d
              else handle_response w elem d
            }
          else Some d)"

text \<open>
  The checks of \<open>RoutineSequentialReceiver\<close> on a decrypted packet: the packet without its padding if it may be passed on. The
  length of an IPv6 packet is a sum of 16-bit numbers, and the source address is read from the buffer behind the
  stripped packet, which is still the whole decrypted packet.
\<close>

definition strip_and_verify :: "peer_ref \<Rightarrow> bytes \<Rightarrow> Device \<Rightarrow> bytes option option" where
  "strip_and_verify p packet d =
     do {
       b \<leftarrow> at packet 0;
       if drop_bit 4 b = 4 then
         if length packet < 20 then Some None
         else do {
           field \<leftarrow> slice IPv4offsetTotalLength (IPv4offsetTotalLength + 2) packet;
           let len = unat (be_u16 field);
           if len > length packet \<or> len < 20 then Some None
           else do {
             src \<leftarrow> slice IPv4offsetSrc (IPv4offsetSrc + 4) packet;
             r \<leftarrow> LookupIPv4 (dev_allowedips d) src;
             Some (if r \<noteq> Some p then None else Some (take len packet))
           }
         }
       else if drop_bit 4 b = 6 then
         if length packet < 40 then Some None
         else do {
           field \<leftarrow> slice IPv6offsetPayloadLength (IPv6offsetPayloadLength + 2) packet;
           let len = unat (be_u16 field + 40);
           if len > length packet then Some None
           else do {
             src \<leftarrow> slice IPv6offsetSrc (IPv6offsetSrc + 16) packet;
             r \<leftarrow> LookupIPv6 (dev_allowedips d) src;
             Some (if r \<noteq> Some p then None else Some (take len packet))
           }
         }
       else Some None
     }"

definition set_replay :: "keypair_ref \<Rightarrow> ReplayFilter \<Rightarrow> Device \<Rightarrow> Device" where
  "set_replay k f d = set_keypair k ((keypair_at d k)\<lparr>kp_replayFilter := f\<rparr>) d"

text \<open>What follows the replay check.\<close>

definition deliver :: "World \<Rightarrow> peer_ref \<Rightarrow> keypair_ref \<Rightarrow> Endpoint \<Rightarrow> bytes \<Rightarrow> Device \<Rightarrow> Device option" where
  "deliver w p k endpoint packet d =
     do {
       let d = SetEndpointFromPacket w endpoint p d;
       let (new, d) = ReceivedWithKeypair k p d;
       d \<leftarrow> (if new then signal_new_keypair p (timersHandshakeComplete w p d) else Some d);
       d \<leftarrow> keepKeyFreshReceiving w p d;
       let d = timersAnyAuthenticatedPacketTraversal p d;
       let d = timersAnyAuthenticatedPacketReceived p d;
       if length packet = 0 then Some d
       else do {
         let d = timersDataReceived p d;
         r \<leftarrow> strip_and_verify p packet d;
         case r of
           None \<Rightarrow> Some d
         | Some packet \<Rightarrow>
             let x = peer_at d p;
                 d = set_peer p (x\<lparr>p_stats := (p_stats x)\<lparr>st_rxBytes := st_rxBytes (p_stats x) + of_nat (length packet)\<rparr>\<rparr>) d
             in Some (d\<lparr>dev_written := dev_written d @ [packet]\<rparr>)
       }
     }"

definition RoutineSequentialReceiver :: "World \<Rightarrow> peer_ref \<Rightarrow> Device \<Rightarrow> Device option" where
  "RoutineSequentialReceiver w p d =
     (let q = p_queue (peer_at d p) in
      case try_recv (pq_inbound q) of
        (None, _) \<Rightarrow> Some d
      | (Some e, c) \<Rightarrow>
          if ie_locked (in_at d e) then Some d
          else
            let d = set_queue p (q\<lparr>pq_inbound := c\<rparr>) d;
                elem = in_at d e;
                d = set_in e (elem\<lparr>ie_locked := True\<rparr>) d in
            if ie_dropped elem then Some d
            else do {
              k \<leftarrow> ie_keypair_used elem;
              let (ok, f) = ValidateCounter (kp_replayFilter (keypair_at d k)) (ie_counter elem) RejectAfterMessages;
              let d = set_replay k f d;
              if \<not> ok then Some d else deliver w p k (ie_endpoint elem) (ie_packet elem) d
            })"

end
