(* ===== verification/Transport.thy ===== *)
theory Transport
  imports Receive
begin

text \<open>
  The transport of packets end to end: what one end of a session encrypts the other end hands on, and what the receiver of
  a peer writes to the TUN device.
\<close>

section \<open>Transport messages end to end\<close>

lemma length_transport_nonce [simp]: "length (transport_nonce nonce) = 12"
  by (simp add: transport_nonce_def)

lemma ok_transport_nonce [simp]: "ok_nonce (transport_nonce nonce)"
  unfolding ok_nonce_def length_transport_nonce by (simp add: NonceSize_def)

text \<open>What one end encrypts the other end decrypts, padded; the header leads to the key pair of the receiver.\<close>

lemma encrypt_decrypt:
  assumes "length (kp_send a) = 8" "paired a b" "mtu \<noteq> 0" "length packet < 65536"
  obtains msg pad where "encrypt_element mtu a nonce packet = Some msg" "pad_packet mtu packet = Some (packet @ replicate pad 0)"
    "length msg = 32 + length packet + pad" "pad < 16" "le_u32 (take 4 msg) = MessageTransportType"
    "le_u32 (drop 4 msg) = kp_localIndex b"
    "decrypt_element b msg = Some (nonce, Inr (packet @ replicate pad 0))"
proof -
  obtain pad where pad: "pad_packet mtu packet = Some (packet @ replicate pad 0)" "pad < 16"
    by (rule pad_packet_total [OF assms(3)])
  let ?p = "packet @ replicate pad 0"
  have "length ?p + 16 < 2 ^ 30" using assms(4) pad(2) by simp
  then obtain c where c: "Seal (kp_send a) (transport_nonce nonce) ?p [] = Some c" "length c = length ?p + 16"
    "Open (kp_send a) (transport_nonce nonce) c [] = Some (Inr ?p)"
    by (rule aead.seal_unseal [OF assms(1) ok_transport_nonce])
  let ?h = "put_le32 MessageTransportType @ put_le32 (kp_remoteIndex a) @ put_le64 nonce"
  have e: "encrypt_element mtu a nonce packet = Some (?h @ c)"
    by (simp add: encrypt_element_def pad c(1) Let_def cong: bind_weak_cong)
  have "slice 8 16 (?h @ c) = Some (put_le64 nonce)" "drop 16 (?h @ c) = c"
    by (simp_all add: slice_take_drop)
  moreover have "le_u64 (put_le64 nonce) = nonce" using le_u64_put [of nonce "[]"] by simp
  ultimately have "decrypt_element b (?h @ c) = Some (nonce, Inr ?p)"
    using assms(2) c(3)
    by (simp add: decrypt_element_def MessageTransportOffsetCounter_def MessageTransportOffsetContent_def paired_def
      transport_nonce_def Let_def cong: bind_weak_cong)
  moreover have "le_u32 (take 4 (?h @ c)) = MessageTransportType" "le_u32 (drop 4 (?h @ c)) = kp_localIndex b"
    using assms(2) le_u32_put [of MessageTransportType "[]"] by (simp_all add: paired_def)
  ultimately show ?thesis using that [of "?h @ c" pad] e pad c(2) by simp
qed

text \<open>An IP packet whose length field is its length, and its source address.\<close>

definition ip4_packet :: "bytes \<Rightarrow> bool" where
  "ip4_packet p \<longleftrightarrow> 20 \<le> length p \<and> length p < 65536 \<and> drop_bit 4 (p ! 0) = 4 \<and> unat (be_u16 (take 2 (drop 2 p))) = length p"

definition ip6_packet :: "bytes \<Rightarrow> bool" where
  "ip6_packet p \<longleftrightarrow> 40 \<le> length p \<and> length p < 65536 \<and> drop_bit 4 (p ! 0) = 6 \<and> unat (be_u16 (take 2 (drop 4 p))) + 40 = length p"

definition source_allowed :: "peer_ref \<Rightarrow> bytes \<Rightarrow> Device \<Rightarrow> bool" where
  "source_allowed p packet d \<longleftrightarrow>
     (drop_bit 4 (packet ! 0) = 4 \<and> LookupIPv4 (dev_allowedips d) (take 4 (drop 12 packet)) = Some (Some p)) \<or>
     (drop_bit 4 (packet ! 0) = 6 \<and> LookupIPv6 (dev_allowedips d) (take 16 (drop 8 packet)) = Some (Some p))"

lemmas ip_offsets = IPv4offsetTotalLength_def IPv4offsetSrc_def IPv6offsetPayloadLength_def IPv6offsetSrc_def

lemma strip_and_verify_v4:
  assumes "20 \<le> length packet" "drop_bit 4 (packet ! 0) = 4"
    "LookupIPv4 (dev_allowedips d) (take 4 (drop 12 packet)) = Some r"
  shows "strip_and_verify p packet d =
    (let len = unat (be_u16 (take 2 (drop 2 packet))) in
     Some (if len > length packet \<or> len < 20 \<or> r \<noteq> Some p then None else Some (take len packet)))"
proof -
  have "packet \<noteq> []" using assms(1) by auto
  then have a: "at packet 0 = Some (packet ! 0)" by (simp add: at_def)
  have s: "slice 2 4 packet = Some (take 2 (drop 2 packet))" "slice 12 16 packet = Some (take 4 (drop 12 packet))"
    using assms(1) by (simp_all add: slice_take_drop)
  have l: "\<not> length packet < 20" using assms(1) by simp
  show ?thesis
    by (simp add: strip_and_verify_def ip_offsets a assms(2,3) l s Let_def del: not_less cong: bind_weak_cong)
qed

lemma strip_and_verify_v6:
  assumes "40 \<le> length packet" "drop_bit 4 (packet ! 0) = 6"
    "LookupIPv6 (dev_allowedips d) (take 16 (drop 8 packet)) = Some r"
  shows "strip_and_verify p packet d =
    (let len = unat (be_u16 (take 2 (drop 4 packet)) + 40) in
     Some (if len > length packet \<or> r \<noteq> Some p then None else Some (take len packet)))"
proof -
  have "packet \<noteq> []" using assms(1) by auto
  then have a: "at packet 0 = Some (packet ! 0)" by (simp add: at_def)
  have s: "slice 4 6 packet = Some (take 2 (drop 4 packet))" "slice 8 24 packet = Some (take 16 (drop 8 packet))"
    using assms(1) by (simp_all add: slice_take_drop)
  have l: "\<not> length packet < 40" using assms(1) by simp
  show ?thesis
    by (simp add: strip_and_verify_def ip_offsets a assms(2,3) l s Let_def del: not_less cong: bind_weak_cong)
qed

lemma source_allowed_version:
  "drop_bit 4 (packet ! 0) = 4 \<Longrightarrow>
     source_allowed p packet d \<longleftrightarrow> LookupIPv4 (dev_allowedips d) (take 4 (drop 12 packet)) = Some (Some p)"
  "drop_bit 4 (packet ! 0) = 6 \<Longrightarrow>
     source_allowed p packet d \<longleftrightarrow> LookupIPv6 (dev_allowedips d) (take 16 (drop 8 packet)) = Some (Some p)"
  by (simp_all add: source_allowed_def)

lemma strip_padding:
  assumes "ip4_packet packet \<or> ip6_packet packet" "source_allowed p packet d"
  shows "strip_and_verify p (packet @ replicate n 0) d = Some (Some packet)"
  using assms(1)
proof
  assume i: "ip4_packet packet"
  then have v: "20 \<le> length packet" "drop_bit 4 (packet ! 0) = 4" "unat (be_u16 (take 2 (drop 2 packet))) = length packet"
    unfolding ip4_packet_def by blast+
  have "packet \<noteq> []" using v(1) by auto
  then have first: "(packet @ replicate n 0) ! 0 = packet ! 0" by (simp add: nth_append)
  have "LookupIPv4 (dev_allowedips d) (take 4 (drop 12 packet)) = Some (Some p)"
    using v assms(2) source_allowed_version(1) by blast
  then show ?thesis
    using v strip_and_verify_v4 [of "packet @ replicate n 0" d "Some p" p] first by simp
next
  assume i: "ip6_packet packet"
  then have v: "40 \<le> length packet" "drop_bit 4 (packet ! 0) = 6" "length packet < 65536"
    "unat (be_u16 (take 2 (drop 4 packet))) + 40 = length packet"
    unfolding ip6_packet_def by blast+
  have "packet \<noteq> []" using v(1) by auto
  then have first: "(packet @ replicate n 0) ! 0 = packet ! 0" by (simp add: nth_append)
  have "LookupIPv6 (dev_allowedips d) (take 16 (drop 8 packet)) = Some (Some p)"
    using v assms(2) source_allowed_version(2) by blast
  moreover have "unat (be_u16 (take 2 (drop 4 packet)) + 40) = length packet"
    using v(3,4) by (simp add: unat_word_ariths(1))
  ultimately show ?thesis
    using v(1,2) strip_and_verify_v6 [of "packet @ replicate n 0" d "Some p" p] first by simp
qed

section \<open>Properties of the transport\<close>

text \<open>
  C4: a packet that one end of a session encrypts reaches the other end unchanged: the message is a transport message for the
  index of the receiver's key pair, it decrypts under that key pair to the counter it was sent with, and stripping
  the padding gives the packet back when its source address belongs to the sending peer.
\<close>

theorem transport_delivery:
  assumes "length (kp_send a) = 8" "paired a b" "mtu \<noteq> 0"
    "ip4_packet packet \<or> ip6_packet packet" "source_allowed p packet d"
  shows "\<exists>msg padded. encrypt_element mtu a nonce packet = Some msg \<and> le_u32 (take 4 msg) = MessageTransportType \<and>
    le_u32 (drop 4 msg) = kp_localIndex b \<and> decrypt_element b msg = Some (nonce, Inr padded) \<and>
    strip_and_verify p padded d = Some (Some packet)"
proof -
  have "length packet < 65536" using assms(4) by (auto simp: ip4_packet_def ip6_packet_def)
  then obtain msg pad where "encrypt_element mtu a nonce packet = Some msg" "le_u32 (take 4 msg) = MessageTransportType"
    "le_u32 (drop 4 msg) = kp_localIndex b" "decrypt_element b msg = Some (nonce, Inr (packet @ replicate pad 0))"
    using encrypt_decrypt [OF assms(1-3), of packet nonce] by metis
  then show ?thesis using strip_padding [OF assms(4,5), of pad] by blast
qed

text \<open>A device that routes everything to its peer 0, and a packet of the version 4 of the protocol.\<close>

definition open_device :: Device where
  "open_device = zero_Device\<lparr>dev_allowedips :=
     \<lparr>IPv4 = newEntry (replicate 4 0) 0 (Some 0), IPv6 = newEntry (replicate 16 0) 0 (Some 0)\<rparr>\<rparr>"

definition ping :: bytes where
  "ping = [0x45, 0, 0, 28, 0, 0, 0, 0, 64, 1, 0, 0, 10, 0, 0, 1, 10, 0, 0, 2, 8, 0, 0, 0, 0, 0, 0, 0]"

lemma open_device_routes:
  "length a = 4 \<Longrightarrow> LookupIPv4 (dev_allowedips open_device) a = Some (Some 0)"
  "length a = 16 \<Longrightarrow> LookupIPv6 (dev_allowedips open_device) a = Some (Some 0)"
  by (auto simp: open_device_def LookupIPv4_def LookupIPv6_def newEntry_def commonBits_def at_def Let_def)

lemma ping_packet: "ip4_packet ping" "drop_bit 4 (ping ! 0) = 4" "length ping = 28"
proof -
  show v: "drop_bit 4 (ping ! 0) = 4" "length ping = 28" by (simp_all add: ping_def)
  have "take 2 (drop 2 ping) = [0, 28]" by (simp add: ping_def)
  then have "unat (be_u16 (take 2 (drop 2 ping))) = 28" by (simp add: be_u16_def be_nat_def)
  with v show "ip4_packet ping" by (simp add: ip4_packet_def)
qed

text \<open>Witness of C4: an echo request through a session whose keys are zero.\<close>

theorem transport_delivery_witness:
  "\<exists>msg padded.
     encrypt_element 1420 (zero_Keypair\<lparr>kp_send := replicate 8 0, kp_remoteIndex := 7\<rparr>) 5 ping = Some msg \<and>
     le_u32 (drop 4 msg) = 7 \<and>
     decrypt_element (zero_Keypair\<lparr>kp_receive := replicate 8 0, kp_localIndex := 7\<rparr>) msg = Some (5, Inr padded) \<and>
     strip_and_verify 0 padded open_device = Some (Some ping)"
proof -
  let ?a = "zero_Keypair\<lparr>kp_send := replicate 8 0, kp_remoteIndex := 7\<rparr>"
  let ?b = "zero_Keypair\<lparr>kp_receive := replicate 8 0, kp_localIndex := 7\<rparr>"
  have "paired ?a ?b" by (simp add: paired_def zero_Keypair_def)
  moreover have "source_allowed 0 ping open_device"
    using ping_packet by (simp add: source_allowed_version open_device_routes)
  ultimately show ?thesis
    using transport_delivery [of ?a ?b 1420 ping 0 open_device 5] ping_packet(1) by auto
qed

text \<open>
  C35: an IPv6 packet whose length field is at least 65496 passes the checks of the receiver although it says to be longer than it can
  be: the sum with the header length wraps, and a packet shorter than an IPv6 header is handed on.
\<close>

theorem ipv6_length_wraps:
  assumes "40 \<le> length packet" "drop_bit 4 (packet ! 0) = 6" "source_allowed p packet d"
    "65496 \<le> unat (be_u16 (take 2 (drop 4 packet)))"
  shows "\<exists>n < 40. strip_and_verify p packet d = Some (Some (take n packet))"
proof -
  let ?f = "be_u16 (take 2 (drop 4 packet))"
  have "unat ?f < 65536" using unsigned_less [of ?f, where ?'a = nat] by simp
  then have n: "unat (?f + 40) = unat ?f - 65496" using assms(4) by (simp add: unat_word_ariths(1) mod_if)
  then have "unat (?f + 40) < 40" using \<open>unat ?f < 65536\<close> by simp
  moreover have "LookupIPv6 (dev_allowedips d) (take 16 (drop 8 packet)) = Some (Some p)"
    using assms(3) source_allowed_version(2) [OF assms(2)] by blast
  ultimately have "strip_and_verify p packet d = Some (Some (take (unat (?f + 40)) packet))"
    using strip_and_verify_v6 [OF assms(1,2), of d "Some p" p] assms(1) by simp
  then show ?thesis using \<open>unat (?f + 40) < 40\<close> by blast
qed

definition bad_ping6 :: bytes where
  "bad_ping6 = [0x60, 0, 0, 0, 0xFF, 0xFF] @ replicate 40 1"

text \<open>Witness of C35: a packet of 46 bytes that says to have 65535 bytes after its header.\<close>

theorem ipv6_length_wraps_witness:
  "\<exists>n < 40. strip_and_verify 0 bad_ping6 open_device = Some (Some (take n bad_ping6))"
proof -
  have "take 2 (drop 4 bad_ping6) = [255, 255]" by (simp add: bad_ping6_def)
  then have "40 \<le> length bad_ping6" "drop_bit 4 (bad_ping6 ! 0) = 6" "unat (be_u16 (take 2 (drop 4 bad_ping6))) = 65535"
    by (simp_all add: bad_ping6_def be_u16_def be_nat_def)
  moreover from this have "source_allowed 0 bad_ping6 open_device"
    by (simp add: source_allowed_version open_device_routes bad_ping6_def)
  ultimately show ?thesis using ipv6_length_wraps [of bad_ping6 0 open_device] by simp
qed

section \<open>What the receiver passes on\<close>

definition written_view :: "Device \<Rightarrow> bytes list \<times> peer_ref AllowedIPs" where
  "written_view d = (dev_written d, dev_allowedips d)"

interpretation written: handshake_frame written_view "\<lambda>_. True"
  by unfold_locales (simp_all add: written_view_def set_handshake_def set_timers_def)

interpretation written_log: outbound_frame dev_written "\<lambda>_. True"
  by unfold_locales (simp_all add: set_timers_def)

lemma written_view_more [simp]:
  "written_view (set_peer p x d) = written_view d" "written_view (set_signals p s d) = written_view d"
  "written_view (set_queue p q d) = written_view d" "written_view (set_in e y d) = written_view d"
  "written_view (set_keypair k z d) = written_view d" "written_view (DeleteKeypair key d) = written_view d"
  by (simp_all add: written_view_def set_signals_def set_queue_def DeleteKeypair_def split: option.split)

lemma written_ReceivedWithKeypair [simp]: "written_view (snd (ReceivedWithKeypair k p d)) = written_view d"
  by (simp add: ReceivedWithKeypair_def Let_def)

lemma written_signal: "returning (\<lambda>d'. written_view d' = written_view d) (signal_new_keypair p d)"
  by (simp add: signal_new_keypair_def Let_def case_prod_unfold returningI)

lemma written_keepKeyFreshReceiving: "returning (\<lambda>d'. written_view d' = written_view d) (keepKeyFreshReceiving w p d)"
  by (auto simp: keepKeyFreshReceiving_def Let_def case_prod_unfold
    intro!: returning_mono [OF written.view_SendHandshakeInitiation] split: option.split)

lemma written_view_eq: "written_view d = written_view d' \<longleftrightarrow> dev_written d = dev_written d' \<and> dev_allowedips d = dev_allowedips d'"
  by (simp add: written_view_def)

lemma written_viewD: "written_view d = written_view d' \<Longrightarrow> dev_written d = dev_written d'"
  by (simp add: written_view_def)

lemma strip_and_verify_cong: "dev_allowedips d = dev_allowedips d' \<Longrightarrow> strip_and_verify p packet d = strip_and_verify p packet d'"
  by (simp only: strip_and_verify_def)

text \<open>A call of \<open>deliver\<close> writes nothing, or the stripped packet when it passes the checks.\<close>

lemma deliver_writes:
  "returning (\<lambda>d'. dev_written d' = dev_written d \<or>
     (\<exists>out. strip_and_verify p packet d = Some (Some out) \<and> dev_written d' = dev_written d @ [out])) (deliver w p k endpoint packet d)"
proof -
  have check: "returning (\<lambda>r. returning (\<lambda>d'. dev_written d' = dev_written d \<or>
        (\<exists>out. strip_and_verify p packet d = Some (Some out) \<and> dev_written d' = dev_written d @ [out]))
        (case r of None \<Rightarrow> Some d1
         | Some out \<Rightarrow> Some (dev_written_update (\<lambda>_. l @ [out]) (set_peer p (x out) d1))))
      (strip_and_verify p packet d1)"
    if "written_view d1 = written_view d" "l = dev_written d" for d1 l x
    using that strip_and_verify_cong [of d1 d p packet]
    by (auto simp: written_view_eq intro!: returningI split: option.split)
  show ?thesis
    by (auto simp: deliver_def Let_def case_prod_unfold SetEndpointFromPacket_def
       dest: written_viewD intro!: returning_mono [OF written_signal] returning_mono [OF written_keepKeyFreshReceiving] check)
qed

lemma strip_and_verify_source:
  assumes "strip_and_verify p packet d = Some (Some out)"
  shows "source_allowed p packet d" "prefix out packet"
  using assms
  by (auto simp: strip_and_verify_def source_allowed_def at_def slice_take_drop ip_offsets Let_def bind_eq_Some_conv
     take_is_prefix split: if_splits)

text \<open>
  C5: the receiver of a peer writes at most one packet for each element of its queue, and writes one only if the element was not dropped,
  its counter was accepted by the replay filter of its key pair, the source address of the decrypted packet belongs to the
  peer, and what is written is a prefix of the decrypted packet.
\<close>

theorem receiver_only_verified:
  assumes "RoutineSequentialReceiver w p d = Some d'" "dev_written d' \<noteq> dev_written d"
  shows "\<exists>e k out. hd (ch_buf (pq_inbound (p_queue (peer_at d p)))) = e \<and> \<not> ie_dropped (in_at d e) \<and>
    \<not> ie_locked (in_at d e) \<and> ie_keypair_used (in_at d e) = Some k \<and>
    fst (ValidateCounter (kp_replayFilter (keypair_at d k)) (ie_counter (in_at d e)) RejectAfterMessages) \<and>
    source_allowed p (ie_packet (in_at d e)) d \<and> prefix out (ie_packet (in_at d e)) \<and>
    dev_written d' = dev_written d @ [out]"
proof -
  let ?q = "p_queue (peer_at d p)"
  obtain e c where r: "try_recv (pq_inbound ?q) = (Some e, c)" and e: "hd (ch_buf (pq_inbound ?q)) = e"
    using assms by (auto simp: RoutineSequentialReceiver_def try_recv_def Let_def split: list.splits)
  have u: "\<not> ie_locked (in_at d e)" "\<not> ie_dropped (in_at d e)"
    using assms by (auto simp: RoutineSequentialReceiver_def r Let_def set_queue_def split: if_splits)
  obtain k where k: "ie_keypair_used (in_at d e) = Some k"
    using assms by (auto simp: RoutineSequentialReceiver_def r u Let_def bind_eq_Some_conv set_queue_def)
  define f where "f = ValidateCounter (kp_replayFilter (keypair_at d k)) (ie_counter (in_at d e)) RejectAfterMessages"
  define d1 where "d1 = set_replay k (snd f) (set_in e ((in_at d e)\<lparr>ie_locked := True\<rparr>) (set_queue p (?q\<lparr>pq_inbound := c\<rparr>) d))"
  have same: "dev_written d1 = dev_written d" "dev_allowedips d1 = dev_allowedips d"
    by (simp_all add: d1_def set_replay_def set_queue_def)
  have "(if \<not> fst f then Some d1 else deliver w p k (ie_endpoint (in_at d e)) (ie_packet (in_at d e)) d1) = Some d'"
    using assms(1) by (simp add: RoutineSequentialReceiver_def r u k Let_def f_def d1_def set_queue_def case_prod_unfold cong: if_cong)
  then have f: "fst f" and d': "deliver w p k (ie_endpoint (in_at d e)) (ie_packet (in_at d e)) d1 = Some d'"
    using assms(2) same(1) by (auto split: if_splits)
  from returningD [OF deliver_writes d'] obtain out where
    "strip_and_verify p (ie_packet (in_at d e)) d1 = Some (Some out)" "dev_written d' = dev_written d @ [out]"
    using assms(2) same(1) by auto
  moreover from this(1) have "strip_and_verify p (ie_packet (in_at d e)) d = Some (Some out)"
    using strip_and_verify_cong [OF same(2)] by simp
  ultimately show ?thesis using strip_and_verify_source [of p "ie_packet (in_at d e)" d out] u k e f
    unfolding f_def by blast
qed

interpretation allowed: outbound_frame dev_allowedips "\<lambda>_. True"
  by unfold_locales (simp_all add: set_timers_def)

lemma deliver_writes_packet:
  assumes "ks_next (p_keypairs (peer_at d p)) = None" "ks_current (p_keypairs (peer_at d p)) = None" "packet \<noteq> []"
    "strip_and_verify p packet d = Some (Some out)"
  shows "\<exists>d'. deliver w p k endpoint packet d = Some d' \<and> dev_written d' = dev_written d @ [out]"
proof -
  define d1 where "d1 = SetEndpointFromPacket w endpoint p d"
  have d1: "dev_written d1 = dev_written d" "dev_allowedips d1 = dev_allowedips d"
    "p_keypairs (peer_at d1 p) = p_keypairs (peer_at d p)"
    by (simp_all add: d1_def SetEndpointFromPacket_def)
  define d2 where "d2 = timersDataReceived p (timersAnyAuthenticatedPacketReceived p (timersAnyAuthenticatedPacketTraversal p d1))"
  have d2: "dev_written d2 = dev_written d" "strip_and_verify p packet d2 = Some (Some out)"
    using assms(4) strip_and_verify_cong [of d2 d p packet] d1(1,2) by (simp_all add: d2_def)
  have "ReceivedWithKeypair k p d1 = (False, d1)" "keepKeyFreshReceiving w p d1 = Some d1"
    by (simp_all add: ReceivedWithKeypair_def keepKeyFreshReceiving_def Keypairs_Current_def d1(3) assms(1,2) Let_def)
  then show ?thesis
    unfolding deliver_def d1_def [symmetric] by (simp add: Let_def assms(3) d1(1) d2 d2_def [symmetric])
qed

text \<open>A device with a decrypted packet at the head of the queue of its peer 0.\<close>

definition receiving_device :: Device where
  "receiving_device =
     set_keypair 0 (zero_Keypair\<lparr>kp_replayFilter := ReplayFilter_Init new_ReplayFilter\<rparr>)
       (set_in 0 (zero_InboundElement\<lparr>ie_packet := ping, ie_counter := 1, ie_keypair_used := Some 0\<rparr>)
         (set_queue 0 ((p_queue new_Peer)\<lparr>pq_inbound := \<lparr>ch_buf = [0], ch_cap = 1, ch_closed = False\<rparr>\<rparr>) open_device))"

lemma receiving_device_writes:
  obtains d' where "RoutineSequentialReceiver toy_World 0 receiving_device = Some d'" "dev_written d' = [ping]"
proof -
  have "replay_rep (ReplayFilter_Init new_ReplayFilter) {}"
    by (rule replay_rep_init) (simp add: new_ReplayFilter_def replay_consts)
  then have "fst (ValidateCounter (ReplayFilter_Init new_ReplayFilter) 1 RejectAfterMessages)"
    by (simp add: ValidateCounter_refines(1) accepts_def RejectAfterMessages_def ReplayFilter_Init_def new_ReplayFilter_def)
  then obtain f where v: "ValidateCounter (ReplayFilter_Init new_ReplayFilter) 1 RejectAfterMessages = (True, f)"
    by (cases "ValidateCounter (ReplayFilter_Init new_ReplayFilter) 1 RejectAfterMessages") auto
  have "source_allowed 0 ping open_device" using ping_packet by (simp add: source_allowed_version open_device_routes)
  then have s: "strip_and_verify 0 ping d = Some (Some ping)" if "dev_allowedips d = dev_allowedips open_device" for d
    using strip_padding [of ping 0 open_device 0] strip_and_verify_cong [OF that] ping_packet(1) by simp
  define d1 where "d1 = set_replay 0 f (set_in 0 (zero_InboundElement\<lparr>ie_packet := ping, ie_counter := 1, ie_keypair_used := Some 0,
    ie_locked := True\<rparr>) (set_queue 0 ((p_queue new_Peer)\<lparr>pq_inbound := \<lparr>ch_buf = [], ch_cap = 1, ch_closed = False\<rparr>\<rparr>) receiving_device))"
  have o: "dev_written open_device = []" "peer_at open_device p = new_Peer" for p
    by (simp_all add: open_device_def zero_Device_def peer_at_def)
  have w: "dev_written d1 = []" "dev_allowedips d1 = dev_allowedips open_device"
    "p_keypairs (peer_at d1 0) = p_keypairs new_Peer"
    by (simp_all add: d1_def set_replay_def set_queue_def receiving_device_def o)
  have "ping \<noteq> []" by (simp add: ping_def)
  then obtain d' where "deliver toy_World 0 0 zero_Endpoint ping d1 = Some d'" "dev_written d' = [ping]"
    using deliver_writes_packet [of d1 0 ping ping toy_World 0 zero_Endpoint] w s [OF w(2)] by (auto simp: new_Peer_def)
  moreover have "RoutineSequentialReceiver toy_World 0 receiving_device = deliver toy_World 0 0 zero_Endpoint ping d1"
    by (simp add: RoutineSequentialReceiver_def d1_def receiving_device_def try_recv_def set_queue_def zero_InboundElement_def v Let_def)
  ultimately show ?thesis using that by metis
qed

text \<open>Witness of C5: an echo request with a new counter is written.\<close>

theorem receiver_only_verified_witness:
  "\<exists>d'. RoutineSequentialReceiver toy_World 0 receiving_device = Some d' \<and> dev_written d' = [ping] \<and>
     (\<exists>out. source_allowed 0 ping receiving_device \<and> prefix out ping \<and> dev_written d' = [out])"
proof -
  obtain d' where d': "RoutineSequentialReceiver toy_World 0 receiving_device = Some d'" "dev_written d' = [ping]"
    by (rule receiving_device_writes)
  have "dev_written receiving_device = []" "ie_packet (in_at receiving_device 0) = ping"
    "hd (ch_buf (pq_inbound (p_queue (peer_at receiving_device 0)))) = 0"
    by (simp_all add: receiving_device_def set_queue_def open_device_def zero_Device_def)
  then show ?thesis using d' receiver_only_verified [OF d'(1)] by auto
qed

end
