(* ===== verification/Control.thy ===== *)
theory Control
  imports Expiry Transport
begin

unbundle bit_operations_syntax

text \<open>
  The control of the device: the sockets (\<^verbatim>\<open>conn.go\<close>, \<^verbatim>\<open>conn_default.go\<close>), bringing the device up and down, its key, adding
  and removing peers, closing it (\<^verbatim>\<open>device.go\<close>) and the events of the TUN device (\<^verbatim>\<open>tun.go\<close>). The key map is a list in the
  order of insertion; the code goes through it in an order of its own.
\<close>

section \<open>Sockets\<close>

datatype bind_error = BindListen | BindClose | BindMark

definition CreateBind :: "World \<Rightarrow> u16 \<Rightarrow> (NativeBind \<times> u16) option" where
  "CreateBind w uport =
     (let port = uint uport in
      case w_listen w False port of
        ListenFailed \<Rightarrow> None
      | r4 \<Rightarrow>
          let (ipv4, port) = (case r4 of Listening n \<Rightarrow> (True, n) | _ \<Rightarrow> (False, 0)) in
          case w_listen w True port of
            ListenFailed \<Rightarrow> None
          | r6 \<Rightarrow>
              let (ipv6, port) = (case r6 of Listening n \<Rightarrow> (True, n) | _ \<Rightarrow> (False, 0))
              in Some (\<lparr>bind_ipv4 = ipv4, bind_ipv6 = ipv6\<rparr>, word_of_int port))"

definition set_net :: "DeviceNet \<Rightarrow> Device \<Rightarrow> Device" where
  "set_net n d = d\<lparr>dev_net := n\<rparr>"

definition unsafeCloseBind :: "World \<Rightarrow> Device \<Rightarrow> bind_error option \<times> Device" where
  "unsafeCloseBind w d =
     (let err = (if net_bind (dev_net d) \<noteq> None \<and> w_close_err w then Some BindClose else None)
      in (err, set_net ((dev_net d)\<lparr>net_bind := None\<rparr>) d))"

definition clear_sources :: "Device \<Rightarrow> Device" where
  "clear_sources d = foldl (\<lambda>d p. clear_src p d) d (map snd (dev_keyMap d))"

definition BindSetMark :: "World \<Rightarrow> u32 \<Rightarrow> Device \<Rightarrow> bind_error option \<times> Device" where
  "BindSetMark w mark d =
     (if net_fwmark (dev_net d) = mark then (None, d)
      else
        let d = set_net ((dev_net d)\<lparr>net_fwmark := mark\<rparr>) d in
        if dev_isUp d \<and> net_bind (dev_net d) \<noteq> None \<and> w_mark_err w then (Some BindMark, d)
        else (None, clear_sources d))"

definition BindUpdate :: "World \<Rightarrow> Device \<Rightarrow> bind_error option \<times> Device" where
  "BindUpdate w d =
     (let (err, d) = unsafeCloseBind w d in
      if err \<noteq> None then (err, d)
      else if dev_isUp d then
        case CreateBind w (net_port (dev_net d)) of
          None \<Rightarrow> (Some BindListen, set_net ((dev_net d)\<lparr>net_bind := None, net_port := 0\<rparr>) d)
        | Some (b, port) \<Rightarrow>
            let d = set_net ((dev_net d)\<lparr>net_bind := Some b, net_port := port\<rparr>) d in
            if net_fwmark (dev_net d) \<noteq> 0 \<and> w_mark_err w then (Some BindMark, d)
            else (None, clear_sources d)
      else (None, d))"

definition BindClose_op :: "World \<Rightarrow> Device \<Rightarrow> bind_error option \<times> Device" where
  "BindClose_op w d = unsafeCloseBind w d"

section \<open>Device\<close>

definition unsafeRemovePeer :: "peer_ref \<Rightarrow> NoisePublicKey \<Rightarrow> Device \<Rightarrow> Device option" where
  "unsafeRemovePeer p key d =
     do {
       let d = d\<lparr>dev_allowedips := RemoveByPeer (dev_allowedips d) p\<rparr>;
       d \<leftarrow> Peer_Stop p d;
       Some (d\<lparr>dev_keyMap := filter (\<lambda>x. fst x \<noteq> key) (dev_keyMap d)\<rparr>)
     }"

text \<open>A loop over the peers of a map, each step of which may fail to return.\<close>

fun for_each :: "('a \<Rightarrow> Device \<Rightarrow> Device option) \<Rightarrow> 'a list \<Rightarrow> Device \<Rightarrow> Device option" where
  "for_each f [] d = Some d"
| "for_each f (x # xs) d = do { d \<leftarrow> f x d; for_each f xs d }"

text \<open>The body of \<open>deviceUpdateState\<close> between the two guards and the call of itself.\<close>

definition change_state :: "World \<Rightarrow> Device \<Rightarrow> Device option" where
  "change_state w d =
     (let newIsUp = dev_isUp d; d = d\<lparr>dev_state := (dev_state d)\<lparr>ds_changing := True\<rparr>\<rparr> in
      do {
        d \<leftarrow> (if newIsUp then
               let (err, d) = BindUpdate w d in
               if err \<noteq> None then Some (d\<lparr>dev_isUp := False\<rparr>)
               else Some (foldl (\<lambda>d p. Peer_Start w p d) d (map snd (dev_keyMap d)))
             else
               let d = snd (BindClose_op w d)
               in for_each Peer_Stop (map snd (dev_keyMap d)) d);
        Some (d\<lparr>dev_state := \<lparr>ds_changing = False, ds_current = newIsUp\<rparr>\<rparr>)
      })"

section \<open>What the loops over the peers keep\<close>

lemma set_queue_frame [simp]:
  "dev_isUp (set_queue p q d) = dev_isUp d" "dev_isUp (set_signals p s d) = dev_isUp d"
  "dev_isUp (Drop e d) = dev_isUp d" "dev_isUp (set_net n d) = dev_isUp d"
  by (simp_all add: set_queue_def set_signals_def Drop_def set_net_def)

lemma Peer_Start_isUp [simp]: "dev_isUp (Peer_Start w p d) = dev_isUp d"
  by (simp add: Peer_Start_def Let_def timersInit_def)

lemma foldl_keeps: "(\<And>d x. g (f d x) = g d) \<Longrightarrow> g (foldl f d xs) = g d"
  by (induction xs arbitrary: d) simp_all

lemma for_each_keeps: "(\<And>d d' x. f x d = Some d' \<Longrightarrow> g d' = g d) \<Longrightarrow> for_each f xs d = Some d' \<Longrightarrow> g d' = g d"
  by (induction xs arbitrary: d) (auto simp: bind_eq_Some_conv)

lemma stop_routines_isUp [simp]: "dev_isUp (stop_routines p d) = dev_isUp d"
  by (simp add: stop_routines_def Let_def set_held_def flush_def set_awaiting_def foldl_keeps [where g = dev_isUp])

lemma ZeroAndFlushAll_isUp: "ZeroAndFlushAll p d = Some d' \<Longrightarrow> dev_isUp d' = dev_isUp d"
  by (auto simp: ZeroAndFlushAll_def Let_def FlushNonceQueue_def bind_eq_Some_conv split: prod.splits)

lemma Peer_Stop_isUp: "Peer_Stop p d = Some d' \<Longrightarrow> dev_isUp d' = dev_isUp d"
  by (auto simp: Peer_Stop_def Let_def timersStop_def bind_eq_Some_conv dest!: ZeroAndFlushAll_isUp split: if_splits)

lemma Stop_all_isUp: "for_each Peer_Stop ps d = Some d' \<Longrightarrow> dev_isUp d' = dev_isUp d"
  by (rule for_each_keeps [where g = dev_isUp, OF Peer_Stop_isUp])

lemma clear_sources_isUp [simp]: "dev_isUp (clear_sources d) = dev_isUp d"
  by (simp add: clear_sources_def foldl_keeps [where g = dev_isUp] clear_src_def)

lemma BindUpdate_isUp: "BindUpdate w d = (err, d') \<Longrightarrow> dev_isUp d' = dev_isUp d"
  by (auto simp: BindUpdate_def unsafeCloseBind_def Let_def split: if_splits option.splits prod.splits)

lemma change_state_current:
  assumes "change_state w d = Some d'"
  shows "ds_current (dev_state d') = dev_isUp d" "\<not> ds_changing (dev_state d')"
    "\<not> dev_isUp d \<Longrightarrow> \<not> dev_isUp d'"
  using assms
  by (auto simp: change_state_def Let_def bind_eq_Some_conv BindClose_op_def unsafeCloseBind_def
    dest: Stop_all_isUp split: if_splits prod.splits)

function deviceUpdateState :: "World \<Rightarrow> Device \<Rightarrow> Device option" where
  "deviceUpdateState w d =
     (if ds_changing (dev_state d) then Some d
      else if dev_isUp d = ds_current (dev_state d) then Some (d\<lparr>dev_state := (dev_state d)\<lparr>ds_changing := False\<rparr>\<rparr>)
      else case change_state w d of None \<Rightarrow> None | Some d' \<Rightarrow> deviceUpdateState w d')"
  by pat_completeness auto

termination deviceUpdateState
  by (relation "measure (\<lambda>(w, d). if dev_isUp d = ds_current (dev_state d) then 0 else if dev_isUp d then 2 else 1 :: nat)")
    (auto dest: change_state_current)

declare deviceUpdateState.simps [simp del]

definition Device_Up :: "World \<Rightarrow> Device \<Rightarrow> Device option" where
  "Device_Up w d = (if dev_isClosed d then Some d else deviceUpdateState w (d\<lparr>dev_isUp := True\<rparr>))"

definition Device_Down :: "World \<Rightarrow> Device \<Rightarrow> Device option" where
  "Device_Down w d = deviceUpdateState w (d\<lparr>dev_isUp := False\<rparr>)"

text \<open>
  \<open>SetPrivateKey\<close> holds the handshake lock of every peer for reading while it removes peers, and stopping a running peer
  takes that lock for writing: removing a running peer never returns.
\<close>

definition remove_locked :: "peer_ref \<Rightarrow> NoisePublicKey \<Rightarrow> Device \<Rightarrow> Device option" where
  "remove_locked p key d = (if p_isRunning (peer_at d p) then None else unsafeRemovePeer p key d)"

definition precompute_static :: "World \<Rightarrow> RootPrivateKey \<Rightarrow> NoisePublicKey \<times> peer_ref \<Rightarrow> Device \<Rightarrow> Device option" where
  "precompute_static w sk x d =
     (case x of (key, p) \<Rightarrow>
        let h = handshake_at d p;
            ss = (if RootPrivateKey_IsZero sk then replicate NoisePublicKeySize 0
                  else root_sharedSecret w sk (h_remoteStatic h));
            d = set_handshake p (h\<lparr>h_precomputedStaticStatic := ss\<rparr>) d
        in if isZero ss then remove_locked p key d else Some d)"

definition SetPrivateKey :: "World \<Rightarrow> RootPrivateKey \<Rightarrow> Device \<Rightarrow> Device option" where
  "SetPrivateKey w sk d =
     do {
       let publicKey = root_publicKey w sk;
       d \<leftarrow> for_each (\<lambda>(key, p) d.
              if NoisePublicKey_Equals (h_remoteStatic (handshake_at d p)) publicKey then remove_locked p key d else Some d)
              (dev_keyMap d) d;
       let d = d\<lparr>dev_staticIdentity := \<lparr>si_privateKey = sk, si_publicKey = publicKey\<rparr>,
                 dev_cookieChecker := CookieChecker_Init publicKey (dev_cookieChecker d)\<rparr>;
       for_each (precompute_static w sk) (dev_keyMap d) d
     }"

definition DefaultMTU :: int where "DefaultMTU = 1420"

definition int32 :: "int \<Rightarrow> int" where
  "int32 x = sint (word_of_int x :: u32)"

definition NewDevice :: "World \<Rightarrow> Device option" where
  "NewDevice w =
     do {
       let mtu = (case w_mtu w of None \<Rightarrow> DefaultMTU | Some m \<Rightarrow> m);
       limiter \<leftarrow> Ratelimiter_Init new_Ratelimiter;
       Some (zero_Device\<lparr>dev_mtu := int32 mtu, dev_keyMap := [],
         dev_rate := \<lparr>rate_underLoadUntil = zero_time, rate_limiter = limiter\<rparr>,
         dev_indexTable := IndexTable_Init, dev_allowedips := Reset (dev_allowedips zero_Device),
         dev_queue := \<lparr>dq_encryption = make_chan QueueOutboundSize, dq_decryption = make_chan QueueInboundSize,
           dq_handshake = make_chan QueueHandshakeSize\<rparr>,
         dev_stop := OpenChan\<rparr>)
     }"

definition RemovePeer :: "NoisePublicKey \<Rightarrow> Device \<Rightarrow> Device option" where
  "RemovePeer key d =
     (case map_of (dev_keyMap d) key of None \<Rightarrow> Some d | Some p \<Rightarrow> unsafeRemovePeer p key d)"

definition RemoveAllPeers :: "Device \<Rightarrow> Device option" where
  "RemoveAllPeers d =
     do {
       d \<leftarrow> for_each (\<lambda>(key, p). unsafeRemovePeer p key) (dev_keyMap d) d;
       Some (d\<lparr>dev_keyMap := []\<rparr>)
     }"

definition FlushPacketQueues :: "Device \<Rightarrow> Device" where
  "FlushPacketQueues d =
     (let q = dev_queue d;
          d = foldl (\<lambda>d e. In_Drop e d) d (ch_buf (dq_decryption q));
          d = foldl (\<lambda>d e. Drop e d) d (ch_buf (dq_encryption q))
      in d\<lparr>dev_queue := \<lparr>dq_encryption = (dq_encryption q)\<lparr>ch_buf := []\<rparr>, dq_decryption = (dq_decryption q)\<lparr>ch_buf := []\<rparr>,
             dq_handshake = (dq_handshake q)\<lparr>ch_buf := []\<rparr>\<rparr>\<rparr>)"

text \<open>
  \<open>Close\<close>. The encryption workers empty the encryption queue when they end; the elements they find there are dropped
  and unlocked.
\<close>

definition stop_workers :: "Device \<Rightarrow> Device" where
  "stop_workers d =
     (let q = dev_queue d;
          d = foldl (\<lambda>d e. if IsDropped e d then d
                           else set_out e ((out_at d e)\<lparr>oe_dropped := True, oe_locked := False\<rparr>) d) d (ch_buf (dq_encryption q))
      in d\<lparr>dev_queue := q\<lparr>dq_encryption := (dq_encryption q)\<lparr>ch_buf := []\<rparr>\<rparr>\<rparr>)"

definition Device_Close :: "World \<Rightarrow> Device \<Rightarrow> Device option" where
  "Device_Close w d =
     (if dev_isClosed d then Some d
      else do {
        let d = d\<lparr>dev_isClosed := True, dev_state := (dev_state d)\<lparr>ds_changing := True\<rparr>\<rparr>;
        let d = snd (BindClose_op w d);
        let d = d\<lparr>dev_isUp := False\<rparr>;
        stop \<leftarrow> close_chan (dev_stop d);
        let d = d\<lparr>dev_stop := stop\<rparr>;
        d \<leftarrow> RemoveAllPeers d;
        let d = FlushPacketQueues (stop_workers d);
        limiter \<leftarrow> Ratelimiter_Close (rate_limiter (dev_rate d));
        Some (d\<lparr>dev_rate := (dev_rate d)\<lparr>rate_limiter := limiter\<rparr>, dev_state := (dev_state d)\<lparr>ds_changing := False\<rparr>\<rparr>)
      })"

section \<open>Events of the TUN device\<close>

definition TUNEventUp :: "u32" where "TUNEventUp = 1"
definition TUNEventDown :: "u32" where "TUNEventDown = 2"
definition TUNEventMTUUpdate :: "u32" where "TUNEventMTUUpdate = 4"

text \<open>One event in \<open>RoutineTUNEventReader\<close>; \<open>setUp\<close> is the local variable of the routine.\<close>

definition RoutineTUNEventReader :: "World \<Rightarrow> u32 \<Rightarrow> bool \<Rightarrow> Device \<Rightarrow> (bool \<times> Device) option" where
  "RoutineTUNEventReader w event setUp d =
     do {
       let d = (if event AND TUNEventMTUUpdate \<noteq> 0 then
                  case w_mtu w of None \<Rightarrow> d | Some mtu \<Rightarrow> if dev_mtu d \<noteq> mtu then d\<lparr>dev_mtu := int32 mtu\<rparr> else d
                else d);
       (setUp, d) \<leftarrow> (if event AND TUNEventUp \<noteq> 0 \<and> \<not> setUp
                     then do { d \<leftarrow> Device_Up w d; Some (True, d) } else Some (setUp, d));
       if event AND TUNEventDown \<noteq> 0 \<and> setUp then do { d \<leftarrow> Device_Down w d; Some (False, d) } else Some (setUp, d)
     }"

end
