(* ===== verification/GoNet.thy ===== *)
theory GoNet
  imports NoiseTypes AllowedIPs
begin

unbundle bit_operations_syntax

text \<open>
  What \<^verbatim>\<open>uapi.go\<close> and \<^verbatim>\<open>conn.go\<close> use of the packages \<^verbatim>\<open>net\<close>, \<^verbatim>\<open>strings\<close> and \<^verbatim>\<open>strconv\<close> of the Go library: reading and printing
  addresses, networks and numbers.
\<close>

section \<open>Numbers and lines\<close>

fun ParseUint_loop_max :: "nat \<Rightarrow> nat \<Rightarrow> string \<Rightarrow> num_error + nat" where
  "ParseUint_loop_max maxVal n [] = Inr n"
| "ParseUint_loop_max maxVal n (c # cs) =
     (case digit_val c of
        None \<Rightarrow> Inl ErrSyntax
      | Some d \<Rightarrow> if n * 10 + d > maxVal then Inl ErrRange else ParseUint_loop_max maxVal (n * 10 + d) cs)"

definition ParseUint :: "string \<Rightarrow> nat \<Rightarrow> num_error + nat" where
  "ParseUint s bitSize = (if s = [] then Inl ErrSyntax else ParseUint_loop_max (2 ^ bitSize - 1) 0 s)"

text \<open>\<^verbatim>\<open>strings.Split\<close> with a separator of one character.\<close>

fun split_at :: "char \<Rightarrow> string \<Rightarrow> string list" where
  "split_at sep [] = [[]]"
| "split_at sep (c # cs) =
     (case split_at sep cs of
        [] \<Rightarrow> []
      | part # parts \<Rightarrow> if c = sep then [] # part # parts else (c # part) # parts)"

section \<open>Addresses\<close>

text \<open>\<^verbatim>\<open>dtoi\<close> and \<^verbatim>\<open>xtoi\<close>: the number at the start of a string, the rest of the string, and \<^const>\<open>None\<close> where there is none or it is
  too big.\<close>

definition net_big :: nat where "net_big = 0xFFFFFF"

fun dtoi_loop :: "nat \<Rightarrow> string \<Rightarrow> (nat \<times> string) option" where
  "dtoi_loop n [] = Some (n, [])"
| "dtoi_loop n (c # cs) =
     (case digit_val c of
        None \<Rightarrow> Some (n, c # cs)
      | Some d \<Rightarrow> if n * 10 + d \<ge> net_big then None else dtoi_loop (n * 10 + d) cs)"

definition dtoi :: "string \<Rightarrow> (nat \<times> string) option" where
  "dtoi s = (case s of [] \<Rightarrow> None | c # cs \<Rightarrow> if digit_val c = None then None else dtoi_loop 0 s)"

fun xtoi_loop :: "nat \<Rightarrow> string \<Rightarrow> (nat \<times> string) option" where
  "xtoi_loop n [] = Some (n, [])"
| "xtoi_loop n (c # cs) =
     (case fromHexChar c of
        None \<Rightarrow> Some (n, c # cs)
      | Some d \<Rightarrow> if n * 16 + unat d \<ge> net_big then None else xtoi_loop (n * 16 + unat d) cs)"

definition xtoi :: "string \<Rightarrow> (nat \<times> string) option" where
  "xtoi s = (case s of [] \<Rightarrow> None | c # cs \<Rightarrow> if fromHexChar c = None then None else xtoi_loop 0 s)"

text \<open>\<^verbatim>\<open>parseIPv4\<close>: four numbers with dots between them; the address has the 16-byte form.\<close>

fun parse_quad :: "nat \<Rightarrow> bytes \<Rightarrow> string \<Rightarrow> (bytes \<times> string) option" where
  "parse_quad 0 p s = Some (p, s)"
| "parse_quad (Suc k) p s =
     (if s = [] then None
      else if p \<noteq> [] \<and> hd s \<noteq> CHR ''.'' then None
      else case dtoi (if p = [] then s else tl s) of
        None \<Rightarrow> None
      | Some (n, rest) \<Rightarrow> if n > 255 then None else parse_quad k (p @ [of_nat n]) rest)"

definition parseIPv4 :: "string \<Rightarrow> bytes option" where
  "parseIPv4 s =
     (case parse_quad 4 [] s of
        None \<Rightarrow> None
      | Some (p, rest) \<Rightarrow> if rest \<noteq> [] then None else Some (v4InV6Prefix @ p))"

text \<open>
  The loop of \<^verbatim>\<open>parseIPv6\<close>: the bytes so far, the place of the ellipsis and the rest of the string. The first argument counts
  the groups that are still possible.
\<close>

fun parse_groups :: "nat \<Rightarrow> bytes \<Rightarrow> nat option \<Rightarrow> string \<Rightarrow> (bytes \<times> nat option) option" where
  "parse_groups 0 ip ellipsis s = (if s \<noteq> [] then None else Some (ip, ellipsis))"
| "parse_groups (Suc k) ip ellipsis s =
     (case xtoi s of
        None \<Rightarrow> None
      | Some (n, rest) \<Rightarrow>
          if n > 0xFFFF then None
          else if rest \<noteq> [] \<and> hd rest = CHR ''.'' then
            if ellipsis = None \<and> length ip \<noteq> 12 then None
            else if length ip + 4 > 16 then None
            else map_option (\<lambda>ip4. (ip @ drop 12 ip4, ellipsis)) (parseIPv4 s)
          else
            let ip = ip @ [of_nat (n div 256), of_nat n] in
            if rest = [] then Some (ip, ellipsis)
            else if hd rest \<noteq> CHR '':'' \<or> length rest = 1 then None
            else
              let s = tl rest in
              if hd s = CHR '':'' then
                if ellipsis \<noteq> None then None
                else if tl s = [] then Some (ip, Some (length ip))
                else parse_groups k ip (Some (length ip)) (tl s)
              else parse_groups k ip ellipsis s)"

definition expand_ellipsis :: "bytes \<Rightarrow> nat option \<Rightarrow> bytes option" where
  "expand_ellipsis ip ellipsis =
     (if length ip < 16 then
        map_option (\<lambda>e. take e ip @ replicate (16 - length ip) 0 @ drop e ip) ellipsis
      else if ellipsis \<noteq> None then None else Some ip)"

definition parseIPv6 :: "string \<Rightarrow> bytes option" where
  "parseIPv6 s =
     (let lead = length s \<ge> 2 \<and> s ! 0 = CHR '':'' \<and> s ! 1 = CHR '':'';
          (ellipsis, s) = (if lead then (Some 0, drop 2 s) else (None, s))
      in if lead \<and> s = [] then Some (replicate 16 0)
         else case parse_groups 8 [] ellipsis s of
           None \<Rightarrow> None
         | Some (ip, ellipsis) \<Rightarrow> expand_ellipsis ip ellipsis)"

fun ParseIP_scan :: "string \<Rightarrow> string \<Rightarrow> bytes option" where
  "ParseIP_scan s [] = None"
| "ParseIP_scan s (c # cs) =
     (if c = CHR ''.'' then parseIPv4 s else if c = CHR '':'' then parseIPv6 s else ParseIP_scan s cs)"

definition ParseIP :: "string \<Rightarrow> bytes option" where
  "ParseIP s = ParseIP_scan s s"

section \<open>Networks\<close>

definition ip_mask :: "bytes \<Rightarrow> bytes \<Rightarrow> bytes" where
  "ip_mask ip m =
     IPMask (if length m = 4 \<and> length ip = 16 \<and> take 12 ip = v4InV6Prefix then drop 12 ip else ip) m"

text \<open>The text before and after the first occurrence of a character.\<close>

fun cut :: "char \<Rightarrow> string \<Rightarrow> (string \<times> string) option" where
  "cut c [] = None"
| "cut c (x # xs) = (if x = c then Some ([], xs) else map_option (\<lambda>(a, b). (x # a, b)) (cut c xs))"

definition ParseCIDR :: "string \<Rightarrow> IPNet option" where
  "ParseCIDR s =
     (case cut (CHR ''/'') s of
        None \<Rightarrow> None
      | Some (addr, len) \<Rightarrow>
          let (iplen, ip) = (case parseIPv4 addr of Some ip \<Rightarrow> (4, Some ip) | None \<Rightarrow> (16, parseIPv6 addr)) in
          (case (ip, dtoi len) of
             (Some ip, Some (n, rest)) \<Rightarrow>
               (if rest \<noteq> [] \<or> n > 8 * iplen then None
                else let m = CIDRMask n (8 * iplen) in Some \<lparr>net_IP = ip_mask ip m, net_Mask = m\<rparr>)
           | _ \<Rightarrow> None))"

text \<open>\<^verbatim>\<open>simpleMaskLength\<close>; \<^const>\<open>None\<close> is its result -1.\<close>

fun leading_ones :: "nat \<Rightarrow> byte \<Rightarrow> nat" where
  "leading_ones 0 v = 0"
| "leading_ones (Suc k) v = (if bit v k then Suc (leading_ones k v) else 0)"

fun simpleMaskLength :: "bytes \<Rightarrow> nat option" where
  "simpleMaskLength [] = Some 0"
| "simpleMaskLength (v # vs) =
     (if v = 255 then map_option (\<lambda>n. 8 + n) (simpleMaskLength vs)
      else
        let n = leading_ones 8 v in
        if push_bit n v \<noteq> 0 then None
        else if \<exists>x \<in> set vs. x \<noteq> 0 then None
        else Some n)"

section \<open>Printing\<close>

definition join :: "string \<Rightarrow> string list \<Rightarrow> string" where
  "join sep parts = concat (case parts of [] \<Rightarrow> [] | p # ps \<Rightarrow> p # map (\<lambda>q. sep @ q) ps)"

fun hex_digits :: "nat \<Rightarrow> string" where
  "hex_digits n = (if n < 16 then [hexdigit (of_nat n)] else hex_digits (n div 16) @ [hexdigit (of_nat (n mod 16))])"

declare hex_digits.simps [simp del]

definition groups_of :: "bytes \<Rightarrow> nat list" where
  "groups_of ip = map (\<lambda>i. unat (ip ! (2 * i)) * 256 + unat (ip ! (2 * i + 1))) [0..<8]"

text \<open>The longest run of zero groups that starts first: its first group and the group after it.\<close>

fun zero_run :: "nat list \<Rightarrow> nat" where
  "zero_run [] = 0"
| "zero_run (g # gs) = (if g = 0 then Suc (zero_run gs) else 0)"

function best_run :: "nat \<Rightarrow> nat list \<Rightarrow> nat \<times> nat \<Rightarrow> nat \<times> nat" where
  "best_run i gs (e0, e1) =
     (if i \<ge> length gs then (e0, e1)
      else
        let n = zero_run (drop i gs) in
        if n > 0 \<and> n > e1 - e0 then best_run (Suc (i + n)) gs (i, i + n) else best_run (Suc i) gs (e0, e1))"
  by pat_completeness auto
termination best_run
  by (relation "measure (\<lambda>(i, gs, _). length gs - i)") auto

declare best_run.simps [simp del]

definition IPv6_String :: "bytes \<Rightarrow> string" where
  "IPv6_String ip =
     (let gs = groups_of ip; (e0, e1) = best_run 0 gs (0, 0) in
      if e1 - e0 \<le> 1 then join '':'' (map hex_digits gs)
      else join '':'' (map hex_digits (take e0 gs)) @ ''::'' @ join '':'' (map hex_digits (drop e1 gs)))"

definition IP_String :: "bytes \<Rightarrow> string" where
  "IP_String ip =
     (if ip = [] then ''<nil>''
      else case To4 ip of
        Some p4 \<Rightarrow> join ''.'' (map (\<lambda>b. decimal (unat b)) p4)
      | None \<Rightarrow> if length ip \<noteq> 16 then ''?'' @ hex_EncodeToString ip else IPv6_String ip)"

text \<open>
  \<^verbatim>\<open>IPNet.String\<close> on a network whose mask has the length of its address or is for IPv4; a mask that is not a prefix is printed
  in hexadecimal.
\<close>

definition IPNet_String :: "IPNet \<Rightarrow> string" where
  "IPNet_String n =
     (case simpleMaskLength (net_Mask n) of
        None \<Rightarrow> IP_String (net_IP n) @ ''/'' @ hex_EncodeToString (net_Mask n)
      | Some l \<Rightarrow> IP_String (net_IP n) @ ''/'' @ decimal l)"

section \<open>Host and port\<close>

text \<open>The text before and after the last occurrence of a character.\<close>

definition cut_last :: "char \<Rightarrow> string \<Rightarrow> (string \<times> string) option" where
  "cut_last c s = map_option (\<lambda>(a, b). (rev b, rev a)) (cut c (rev s))"

definition SplitHostPort :: "string \<Rightarrow> (string \<times> string) option" where
  "SplitHostPort hostport =
     (case cut_last (CHR '':'') hostport of
        None \<Rightarrow> None
      | Some (before, port) \<Rightarrow>
          if hostport ! 0 = CHR ''['' then
            case cut (CHR '']'') hostport of
              None \<Rightarrow> None
            | Some (inside, after) \<Rightarrow>
                if before \<noteq> inside @ '']'' then None
                else if CHR ''['' \<in> set (tl hostport) \<or> CHR '']'' \<in> set after then None
                else Some (tl inside, port)
          else if CHR '':'' \<in> set before then None
          else if CHR ''['' \<in> set hostport \<or> CHR '']'' \<in> set hostport then None
          else Some (before, port))"

definition JoinHostPort :: "string \<Rightarrow> string \<Rightarrow> string" where
  "JoinHostPort host port =
     (if CHR '':'' \<in> set host \<or> CHR ''%'' \<in> set host then ''['' @ host @ '']:'' @ port else host @ '':'' @ port)"

text \<open>
  \<^verbatim>\<open>LookupPort\<close>: an optional sign and digits are a number of 32 bits, which has to be a port number; anything else is the name
  of a service.
\<close>

fun parse_port :: "nat \<Rightarrow> string \<Rightarrow> nat option" where
  "parse_port n [] = Some n"
| "parse_port n (c # cs) =
     (case digit_val c of
        None \<Rightarrow> None
      | Some d \<Rightarrow>
          if n \<ge> 2 ^ 30 then Some (2 ^ 32 - 1)
          else if n * 10 mod 2 ^ 32 + d > 2 ^ 32 - 1 then Some (2 ^ 32 - 1)
          else parse_port (n * 10 mod 2 ^ 32 + d) cs)"

definition LookupPort :: "(string \<Rightarrow> nat option) \<Rightarrow> string \<Rightarrow> nat option" where
  "LookupPort services service =
     (if service = [] then Some 0
      else case strip_sign service of (neg, ds) \<Rightarrow>
        case parse_port 0 ds of
          None \<Rightarrow> services service
        | Some n \<Rightarrow> if neg \<and> n \<noteq> 0 \<or> n > 65535 then None else Some n)"

end
