(* ===== verification/Uapi.thy ===== *)
theory Uapi
  imports Control GoNet
begin

text \<open>
  The configuration protocol of \<^verbatim>\<open>uapi.go\<close>: the operations \<^verbatim>\<open>set\<close> and \<^verbatim>\<open>get\<close> on lines of text.
\<close>

section \<open>Model\<close>

definition ipcErrorIO :: int where "ipcErrorIO = -5"
definition ipcErrorProtocol :: int where "ipcErrorProtocol = -71"
definition ipcErrorInvalid :: int where "ipcErrorInvalid = -22"
definition ipcErrorPortInUse :: int where "ipcErrorPortInUse = -98"

definition parseEndpoint :: "World \<Rightarrow> string \<Rightarrow> Endpoint option" where
  "parseEndpoint w s =
     do {
       (host, port) \<leftarrow> SplitHostPort s;
       ip \<leftarrow> ParseIP host;
       n \<leftarrow> LookupPort (w_services w) port;
       Some \<lparr>ep_IP = (case To4 ip of Some ip4 \<Rightarrow> ip4 | None \<Rightarrow> ip), ep_Port = int n, ep_Zone = []\<rparr>
     }"

definition CreateEndpoint :: "World \<Rightarrow> string \<Rightarrow> Endpoint option" where
  "CreateEndpoint w s = parseEndpoint w s"

definition DstToString :: "Endpoint \<Rightarrow> string" where
  "DstToString e = JoinHostPort (IP_String (ep_IP e)) (Itoa (ep_Port e))"

definition peer_lines :: "Device \<Rightarrow> peer_ref \<Rightarrow> string list" where
  "peer_lines d p =
     (let x = peer_at d p; h = p_handshake x; nano = st_lastHandshakeNano (p_stats x) in
      [''public_key='' @ NoisePublicKey_ToHex (h_remoteStatic h),
       ''preshared_key='' @ NoiseSymmetricKey_ToHex (h_presharedKey h),
       ''protocol_version=1''] @
      (case p_endpoint x of None \<Rightarrow> [] | Some e \<Rightarrow> [''endpoint='' @ DstToString e]) @
      [''last_handshake_time_sec='' @ Itoa (sgn nano * (\<bar>nano\<bar> div Second)),
       ''last_handshake_time_nsec='' @ Itoa (sgn nano * (\<bar>nano\<bar> mod Second)),
       ''tx_bytes='' @ decimal (unat (st_txBytes (p_stats x))),
       ''rx_bytes='' @ decimal (unat (st_rxBytes (p_stats x))),
       ''persistent_keepalive_interval='' @ decimal (unat (p_persistentKeepaliveInterval x))] @
      map (\<lambda>ip. ''allowed_ip='' @ IPNet_String ip) (EntriesForPeer (dev_allowedips d) p))"

definition ipcGetOperation :: "Device \<Rightarrow> string list" where
  "ipcGetOperation d =
     (if \<not> RootPrivateKey_IsZero (si_privateKey (dev_staticIdentity d))
      then [''private_key='' @ RootPrivateKey_ToString (si_privateKey (dev_staticIdentity d))] else []) @
     (if net_port (dev_net d) \<noteq> 0 then [''listen_port='' @ decimal (unat (net_port (dev_net d)))] else []) @
     (if net_fwmark (dev_net d) \<noteq> 0 then [''fwmark='' @ decimal (unat (net_fwmark (dev_net d)))] else []) @
     concat (map (\<lambda>(key, p). peer_lines d p) (dev_keyMap d))"

text \<open>
  The variables of the loop of \<open>ipcSetOperation\<close>: the peer, whether it is a dummy, and whether the lines are still about
  the device. An operation on one line yields the error it returns or the new variables, and the device.
\<close>

record ipc_vars =
  ipc_peer :: peer_ref
  ipc_dummy :: bool
  ipc_deviceConfig :: bool

type_synonym ipc_result = "((int + ipc_vars) \<times> Device) option"

definition device_key :: "World \<Rightarrow> string \<Rightarrow> string \<Rightarrow> ipc_vars \<Rightarrow> Device \<Rightarrow> ipc_result" where
  "device_key w key val v d =
     (if key = ''private_key'' then
        case RootPrivateKey_FromString val of
          (sk, Some err) \<Rightarrow> Some (Inl ipcErrorInvalid, d)
        | (sk, None) \<Rightarrow> do { d \<leftarrow> SetPrivateKey w sk d; Some (Inr v, d) }
      else if key = ''listen_port'' then
        case ParseUint val 16 of
          Inl err \<Rightarrow> Some (Inl ipcErrorInvalid, d)
        | Inr port \<Rightarrow>
            let (err, d) = BindUpdate w (set_net ((dev_net d)\<lparr>net_port := of_nat port\<rparr>) d)
            in Some (if err \<noteq> None then Inl ipcErrorPortInUse else Inr v, d)
      else if key = ''fwmark'' then
        case (if val = [] then Inr 0 else ParseUint val 32) of
          Inl err \<Rightarrow> Some (Inl ipcErrorInvalid, d)
        | Inr mark \<Rightarrow>
            let (err, d) = BindSetMark w (of_nat mark) d
            in Some (if err \<noteq> None then Inl ipcErrorPortInUse else Inr v, d)
      else if key = ''public_key'' then Some (Inr (v\<lparr>ipc_deviceConfig := False\<rparr>), d)
      else if key = ''replace_peers'' then
        if val \<noteq> ''true'' then Some (Inl ipcErrorInvalid, d)
        else do { d \<leftarrow> RemoveAllPeers d; Some (Inr v, d) }
      else Some (Inl ipcErrorInvalid, d))"

text \<open>A peer that is only there to take the settings that nobody needs.\<close>

definition dummy_peer :: "ipc_vars \<Rightarrow> Device \<Rightarrow> ipc_vars \<times> Device" where
  "dummy_peer v d = (case new_peer new_Peer d of (p, d) \<Rightarrow> (v\<lparr>ipc_peer := p, ipc_dummy := True\<rparr>, d))"

definition select_peer :: "World \<Rightarrow> string \<Rightarrow> ipc_vars \<Rightarrow> Device \<Rightarrow> (int + ipc_vars) \<times> Device" where
  "select_peer w val v d =
     (case NoisePublicKey_FromHex (replicate 32 0) val of
        Inl err \<Rightarrow> (Inl ipcErrorInvalid, d)
      | Inr publicKey \<Rightarrow>
          if NoisePublicKey_Equals (si_publicKey (dev_staticIdentity d)) publicKey
          then (case dummy_peer v d of (v, d) \<Rightarrow> (Inr v, d))
          else
            let v = v\<lparr>ipc_dummy := False\<rparr> in
            case LookupPeer publicKey d of
              Some p \<Rightarrow> (Inr (v\<lparr>ipc_peer := p\<rparr>), d)
            | None \<Rightarrow>
                (case NewPeer w publicKey d of
                   (Inl err, d) \<Rightarrow> (Inl ipcErrorInvalid, d)
                 | (Inr p, d) \<Rightarrow> (Inr (v\<lparr>ipc_peer := p\<rparr>), d)))"

definition set_keepalive :: "string \<Rightarrow> ipc_vars \<Rightarrow> Device \<Rightarrow> ipc_result" where
  "set_keepalive val v d =
     (case ParseUint val 16 of
        Inl err \<Rightarrow> Some (Inl ipcErrorInvalid, d)
      | Inr secs \<Rightarrow>
          let p = ipc_peer v;
              old = p_persistentKeepaliveInterval (peer_at d p);
              d = set_peer p ((peer_at d p)\<lparr>p_persistentKeepaliveInterval := of_nat secs\<rparr>) d
          in if old = 0 \<and> secs \<noteq> 0 \<and> dev_isUp d \<and> \<not> ipc_dummy v
             then do { (sent, d) \<leftarrow> SendKeepalive p d; Some (Inr v, d) }
             else Some (Inr v, d))"

definition add_allowed_ip :: "string \<Rightarrow> ipc_vars \<Rightarrow> Device \<Rightarrow> ipc_result" where
  "add_allowed_ip val v d =
     (case ParseCIDR val of
        None \<Rightarrow> Some (Inl ipcErrorInvalid, d)
      | Some network \<Rightarrow>
          if ipc_dummy v then Some (Inr v, d)
          else do {
            let ones = (case simpleMaskLength (net_Mask network) of Some n \<Rightarrow> n | None \<Rightarrow> 0);
            t \<leftarrow> Insert (dev_allowedips d) (net_IP network) ones (ipc_peer v);
            Some (Inr v, d\<lparr>dev_allowedips := t\<rparr>)
          })"

definition peer_key :: "World \<Rightarrow> string \<Rightarrow> string \<Rightarrow> ipc_vars \<Rightarrow> Device \<Rightarrow> ipc_result" where
  "peer_key w key val v d =
     (let p = ipc_peer v; invalid = Some (Inl ipcErrorInvalid, d); ok = Some (Inr v, d) in
      if key = ''public_key'' then Some (select_peer w val v d)
      else if key = ''remove'' then
        if val \<noteq> ''true'' then invalid
        else do {
          d \<leftarrow> (if ipc_dummy v then Some d else RemovePeer (h_remoteStatic (handshake_at d p)) d);
          case dummy_peer v d of (v, d) \<Rightarrow> Some (Inr v, d)
        }
      else if key = ''preshared_key'' then
        case NoiseSymmetricKey_FromHex (h_presharedKey (handshake_at d p)) val of
          Inl err \<Rightarrow> invalid
        | Inr psk \<Rightarrow> Some (Inr v, set_handshake p ((handshake_at d p)\<lparr>h_presharedKey := psk\<rparr>) d)
      else if key = ''endpoint'' then
        case CreateEndpoint w val of
          None \<Rightarrow> invalid
        | Some e \<Rightarrow> Some (Inr v, set_peer p ((peer_at d p)\<lparr>p_endpoint := Some e\<rparr>) d)
      else if key = ''persistent_keepalive_interval'' then set_keepalive val v d
      else if key = ''replace_allowed_ips'' then
        if val \<noteq> ''true'' then invalid
        else if ipc_dummy v then ok
        else Some (Inr v, d\<lparr>dev_allowedips := RemoveByPeer (dev_allowedips d) p\<rparr>)
      else if key = ''allowed_ip'' then add_allowed_ip val v d
      else if key = ''protocol_version'' then (if val \<noteq> ''1'' then invalid else ok)
      else invalid)"

definition ipc_line :: "World \<Rightarrow> string \<Rightarrow> string \<Rightarrow> ipc_vars \<Rightarrow> Device \<Rightarrow> ipc_result" where
  "ipc_line w key val v d =
     do {
       (r, d) \<leftarrow> (if ipc_deviceConfig v then device_key w key val v d else Some (Inr v, d));
       case r of
         Inl err \<Rightarrow> Some (Inl err, d)
       | Inr v \<Rightarrow> if \<not> ipc_deviceConfig v then peer_key w key val v d else Some (Inr v, d)
     }"

text \<open>The loop; its result is the error code, with \<^const>\<open>None\<close> for success.\<close>

fun ipc_loop :: "World \<Rightarrow> string list \<Rightarrow> ipc_vars \<Rightarrow> Device \<Rightarrow> (int option \<times> Device) option" where
  "ipc_loop w [] v d = Some (None, d)"
| "ipc_loop w (line # lines) v d =
     (if line = [] then Some (None, d)
      else case split_at (CHR ''='') line of
        [key, val] \<Rightarrow>
          do {
            (r, d) \<leftarrow> ipc_line w key val v d;
            case r of
              Inl err \<Rightarrow> Some (Some err, d)
            | Inr v \<Rightarrow> ipc_loop w lines v d
          }
      | _ \<Rightarrow> Some (Some ipcErrorProtocol, d))"

definition ipcSetOperation :: "World \<Rightarrow> string list \<Rightarrow> Device \<Rightarrow> (int option \<times> Device) option" where
  "ipcSetOperation w lines d = ipc_loop w lines \<lparr>ipc_peer = 0, ipc_dummy = False, ipc_deviceConfig = True\<rparr> d"

text \<open>\<open>ipcHandle\<close>: the text that goes back, and the device.\<close>

definition ipcHandle :: "World \<Rightarrow> string \<Rightarrow> string list \<Rightarrow> Device \<Rightarrow> (string list \<times> Device) option" where
  "ipcHandle w op lines d =
     (if op = ''set=1'' then
        do {
          (status, d) \<leftarrow> ipcSetOperation w lines d;
          Some ([''errno='' @ Itoa (case status of None \<Rightarrow> 0 | Some c \<Rightarrow> c), []], d)
        }
      else if op = ''get=1'' then Some (ipcGetOperation d @ [''errno=0'', []], d)
      else Some ([], d))"

end
