(* ===== verification/Steps.thy ===== *)
theory Steps
  imports Uapi
begin

text \<open>
  The device as a whole: one step is one atomic operation of one of its routines, of a timer, of the TUN device, of the
  configuration socket or of the collector of the rate limiter, in any order. The routines of a peer run while the
  peer is running. Each step has its own surroundings.
\<close>

section \<open>Steps and reachable devices\<close>

inductive dev_step :: "World \<Rightarrow> Device \<Rightarrow> Device \<Rightarrow> bool" for w where
  step_tun_packet: "RoutineReadFromTUN w packet d = Some d' \<Longrightarrow> dev_step w d d'"
| step_nonce_packet: "p_isRunning (peer_at d p) \<Longrightarrow> RoutineNonce_packet w p d = Some d' \<Longrightarrow> dev_step w d d'"
| step_nonce_flush: "p_isRunning (peer_at d p) \<Longrightarrow> dev_step w d (RoutineNonce_flush p d)"
| step_nonce_arrived: "p_isRunning (peer_at d p) \<Longrightarrow> RoutineNonce_arrived w p d = Some d' \<Longrightarrow> dev_step w d d'"
| step_encryption: "RoutineEncryption d = Some d' \<Longrightarrow> dev_step w d d'"
| step_sender: "p_isRunning (peer_at d p) \<Longrightarrow> RoutineSequentialSender w p d = Some d' \<Longrightarrow> dev_step w d d'"
| step_datagram: "length packet \<le> MaxMessageSize \<Longrightarrow> RoutineReceiveIncoming w packet endpoint d = Some d' \<Longrightarrow> dev_step w d d'"
| step_decryption: "RoutineDecryption d = Some d' \<Longrightarrow> dev_step w d d'"
| step_handshake: "RoutineHandshake w d = Some d' \<Longrightarrow> dev_step w d d'"
| step_receiver: "p_isRunning (peer_at d p) \<Longrightarrow> RoutineSequentialReceiver w p d = Some d' \<Longrightarrow> dev_step w d d'"
| step_timer: "t_isPending (get_timer n (timers_at d p)) \<Longrightarrow> timer_fires w n p d = Some d' \<Longrightarrow> dev_step w d d'"
| step_tun_event: "RoutineTUNEventReader w event setUp d = Some (setUp', d') \<Longrightarrow> dev_step w d d'"
| step_uapi: "ipcHandle w op lines d = Some (answer, d') \<Longrightarrow> dev_step w d d'"
| step_collect: "dev_step w d (d\<lparr>dev_rate := (dev_rate d)\<lparr>rate_limiter := collect clock (rate_limiter (dev_rate d))\<rparr>\<rparr>)"
| step_close: "Device_Close w d = Some d' \<Longrightarrow> dev_step w d d'"

text \<open>The devices that come about from a new one when every step finds surroundings with the property \<open>ok\<close>.\<close>

inductive reachable :: "(World \<Rightarrow> bool) \<Rightarrow> Device \<Rightarrow> bool" for ok where
  reachable_new: "NewDevice w = Some d \<Longrightarrow> reachable ok d"
| reachable_step: "reachable ok d \<Longrightarrow> ok w \<Longrightarrow> dev_step w d d' \<Longrightarrow> reachable ok d'"

section \<open>Invariants of the device\<close>

text \<open>What an invariant has to do: it holds of a new device and every step keeps it. Then it holds of every reachable device.\<close>

locale device_invariant =
  fixes ok :: "World \<Rightarrow> bool" and inv :: "Device \<Rightarrow> bool"
  assumes inv_new: "NewDevice w = Some d \<Longrightarrow> inv d"
    and inv_step: "inv d \<Longrightarrow> ok w \<Longrightarrow> dev_step w d d' \<Longrightarrow> inv d'"
begin

lemma reachable_inv: "reachable ok d \<Longrightarrow> inv d"
  by (induction rule: reachable.induct) (auto intro: inv_new inv_step)

end

section \<open>Branches and loops\<close>

lemma returning_const: "c \<Longrightarrow> returning (\<lambda>_. c) m"
  by (simp add: returningI)

lemma returning_if: "(a \<Longrightarrow> returning P x) \<Longrightarrow> (\<not> a \<Longrightarrow> returning P y) \<Longrightarrow> returning P (if a then x else y)"
  by simp

lemma returning_RoutineReceiveIncoming:
  assumes "P d" "returning P (receive_transport w packet endpoint d)" "\<And>e. returning (\<lambda>(r, d'). P d') (addToHandshakeQueue e d)"
  shows "returning P (RoutineReceiveIncoming w packet endpoint d)"
proof -
  have "returning P (do { (sent, d) \<leftarrow> addToHandshakeQueue e d; Some d })" for e
    using assms(3) [of e] by (simp add: case_prod_unfold)
  moreover have "returning P (if a then x else if b then y else if c then z else x)"
    if "returning P x" "returning P y" "returning P z" for a b c x y z using that by simp
  moreover have "returning P (Some d)" using assms(1) by simp
  ultimately show ?thesis using assms(2) unfolding RoutineReceiveIncoming_def Let_def by blast
qed

lemma returning_for_each:
  assumes "\<And>x d. x \<in> set xs \<Longrightarrow> P d \<Longrightarrow> returning P (f x d)" "P d"
  shows "returning P (for_each f xs d)"
  using assms
proof (induction xs arbitrary: d)
  case (Cons x xs)
  have "returning P (f x d)" by (rule Cons.prems) (simp_all add: Cons.prems)
  moreover have "returning P (for_each f xs d')" if "P d'" for d'
    by (rule Cons.IH) (simp_all add: Cons.prems that)
  ultimately show ?case by (simp add: returning_mono)
qed simp

lemma foldl_invariant: "P d \<Longrightarrow> (\<And>d x. P d \<Longrightarrow> x \<in> set xs \<Longrightarrow> P (f d x)) \<Longrightarrow> P (foldl f d xs)"
  by (induction xs arbitrary: d) simp_all

lemma returning_deviceUpdateState:
  assumes "\<And>d. P d \<Longrightarrow> returning P (change_state w d)"
    "\<And>d. P d \<Longrightarrow> P (d\<lparr>dev_state := (dev_state d)\<lparr>ds_changing := False\<rparr>\<rparr>)" "P d"
  shows "returning P (deviceUpdateState w d)"
  using assms
proof (induction w d rule: deviceUpdateState.induct)
  case (1 w d)
  have c: "returning P (change_state w d)" by (rule 1(2)) (rule 1(4))
  have r: "returning P (deviceUpdateState w d')"
    if "change_state w d = Some d'" "\<not> ds_changing (dev_state d)" "dev_isUp d \<noteq> ds_current (dev_state d)" for d'
    by (rule 1(1) [OF that(2,3,1)]) (use 1(2,3) returningD [OF c that(1)] in simp_all)
  have "returning P (case change_state w d of None \<Rightarrow> None | Some d' \<Rightarrow> deviceUpdateState w d')"
    if "\<not> ds_changing (dev_state d)" "dev_isUp d \<noteq> ds_current (dev_state d)"
    using r that by (simp split: option.split)
  then show ?case using 1(3,4) by (subst deviceUpdateState.simps) simp
qed

section \<open>The peers of the tables\<close>

lemma lookup_entry_peer: "lookup_entry t ip found = Some (Some p) \<Longrightarrow> p \<in> set_trieEntry t \<or> found = Some p"
proof (induction t arbitrary: found)
  case (Entry c l r b q bb bs)
  then show ?case by (fastforce simp: Let_def split: if_splits option.splits)
qed simp

lemma removeByPeer_peers: "set_trieEntry (removeByPeer t p) \<subseteq> set_trieEntry t"
  by (induction t) (auto simp: Let_def)

lemma setChild_peers: "set_trieEntry (setChild t i u) \<subseteq> set_trieEntry t \<union> set_trieEntry u"
  by (cases t) auto

lemma newEntry_peers: "set_trieEntry (newEntry ip c q) = set_option q"
  by (simp add: newEntry_def)

lemma insert_entry_peers: "insert_entry t ip c p = Some t' \<Longrightarrow> set_trieEntry t' \<subseteq> insert p (set_trieEntry t)"
proof (induction t arbitrary: t')
  case (Entry c' l r b q bb bs)
  have old: "set_trieEntry (setChild (newEntry ip c (Some p)) i u) \<subseteq> insert p (set_trieEntry u)" for i and u :: "'a trieEntry"
    using setChild_peers [of "newEntry ip c (Some p)" i u] by (auto simp: newEntry_peers)
  have fork: "set_trieEntry (setChild (setChild (newEntry ip m None) i (newEntry ip c (Some p))) j u) \<subseteq> insert p (set_trieEntry u)"
    for i j m and u :: "'a trieEntry"
    using setChild_peers [of "setChild (newEntry ip m None) i (newEntry ip c (Some p))" j u]
      setChild_peers [of "newEntry ip m None" i "newEntry ip c (Some p)"] by (auto simp: newEntry_peers)
  from Entry show ?case
    using old [of _ "Entry c' l r b q bb bs"] fork [of _ _ _ "Entry c' l r b q bb bs"]
    by (fastforce simp: Let_def split: if_splits option.splits)
qed (auto simp: newEntry_peers)

text \<open>A device to start from, for the witnesses.\<close>

lemma NewDevice_toy:
  obtains d where "NewDevice toy_World = Some d" "dev_heap d = dev_heap zero_Device"
  by (auto simp: NewDevice_def Ratelimiter_Init_def new_Ratelimiter_def)

end
