(* ===== verification/Indices.thy ===== *)
theory Indices
  imports Steps
begin

unbundle bit_operations_syntax

text \<open>
  The index table of a device names exactly the pending handshakes and the key pairs of its peers, in every reachable
  device, as long as the random source delivers and does not draw the index 0.
\<close>

section \<open>What the table has to hold\<close>

definition hs_entry :: "peer_ref \<Rightarrow> IndexTableEntry" where
  "hs_entry p = \<lparr>ie_peer = Some p, ie_handshake = Some p, ie_keypair = None\<rparr>"

definition kp_entry :: "peer_ref \<Rightarrow> keypair_ref \<Rightarrow> IndexTableEntry" where
  "kp_entry p k = \<lparr>ie_peer = Some p, ie_handshake = None, ie_keypair = Some k\<rparr>"

text \<open>A table, the indices of the handshakes (0 for none), the key pairs of the peers and their indices.\<close>

definition exact :: "IndexTable \<Rightarrow> (peer_ref \<Rightarrow> u32) \<Rightarrow> (peer_ref \<Rightarrow> keypair_ref set) \<Rightarrow> (keypair_ref \<Rightarrow> u32) \<Rightarrow> bool" where
  "exact T H S L \<longleftrightarrow>
     (\<forall>i e. T i = Some e \<longleftrightarrow> i \<noteq> 0 \<and> ((\<exists>p. e = hs_entry p \<and> H p = i) \<or> (\<exists>p k. e = kp_entry p k \<and> k \<in> S p \<and> L k = i))) \<and>
     (\<forall>p k. k \<in> S p \<longrightarrow> L k \<noteq> 0)"

lemma entry_eq [simp]:
  "hs_entry p = hs_entry q \<longleftrightarrow> p = q" "kp_entry p k = kp_entry q j \<longleftrightarrow> p = q \<and> k = j" "hs_entry p \<noteq> kp_entry q k"
  "kp_entry q k \<noteq> hs_entry p"
  by (auto simp: hs_entry_def kp_entry_def)

lemma exactD:
  assumes "exact T H S L"
  shows "H p \<noteq> 0 \<Longrightarrow> T (H p) = Some (hs_entry p)" "k \<in> S p \<Longrightarrow> T (L k) = Some (kp_entry p k)" "T 0 = None"
    "T i = Some e \<Longrightarrow> (\<exists>p. e = hs_entry p \<and> H p = i) \<or> (\<exists>p k. e = kp_entry p k \<and> k \<in> S p \<and> L k = i)"
    "k \<in> S p \<Longrightarrow> L k \<noteq> 0"
proof -
  show "T 0 = None" using assms unfolding exact_def by (metis not_None_eq)
qed (use assms in \<open>auto simp: exact_def\<close>)

lemma exact_inj:
  assumes "exact T H S L"
  shows "H p = H q \<Longrightarrow> H p \<noteq> 0 \<Longrightarrow> p = q" "k \<in> S p \<Longrightarrow> k \<in> S q \<Longrightarrow> p = q"
    "k \<in> S p \<Longrightarrow> j \<in> S q \<Longrightarrow> L k = L j \<Longrightarrow> k = j" "k \<in> S p \<Longrightarrow> H q \<noteq> L k"
  using exactD [OF assms] by (metis option.inject entry_eq)+

lemma exactI:
  assumes "\<And>i e. T i = Some e \<Longrightarrow> (\<exists>p. e = hs_entry p \<and> H p = i) \<or> (\<exists>p k. e = kp_entry p k \<and> k \<in> S p \<and> L k = i)"
    "T 0 = None" "\<And>p. H p \<noteq> 0 \<Longrightarrow> T (H p) = Some (hs_entry p)" "\<And>p k. k \<in> S p \<Longrightarrow> L k \<noteq> 0"
    "\<And>p k. k \<in> S p \<Longrightarrow> T (L k) = Some (kp_entry p k)"
  shows "exact T H S L"
proof -
  have "i \<noteq> 0" if "T i = Some e" for i e using that assms(2) by auto
  then have "T i = Some e \<longleftrightarrow> i \<noteq> 0 \<and> ((\<exists>p. e = hs_entry p \<and> H p = i) \<or> (\<exists>p k. e = kp_entry p k \<and> k \<in> S p \<and> L k = i))" for i e
    using assms(1) [of i e] by (auto simp: assms(3,5))
  then show ?thesis using assms(4) by (simp add: exact_def)
qed

lemma exact_clear:
  assumes "exact T H S L"
  shows "exact (T(H p := None)) (H(p := 0)) S L"
proof (rule exactI)
  note D = exactD [OF assms] note I = exact_inj [OF assms]
  show "(\<exists>q. e = hs_entry q \<and> (H(p := 0)) q = i) \<or> (\<exists>q k. e = kp_entry q k \<and> k \<in> S q \<and> L k = i)"
    if "(T(H p := None)) i = Some e" for i e using D(4) [of i e] that by (auto split: if_splits)
  show "(T(H p := None)) ((H(p := 0)) q) = Some (hs_entry q)" if "(H(p := 0)) q \<noteq> 0" for q
    using that D(1) [of q] I(1) [of q p] by (auto split: if_splits)
  show "(T(H p := None)) (L k) = Some (kp_entry q k)" if "k \<in> S q" for q k
    using D(2) [OF that] I(4) [OF that, of p] by auto
qed (use exactD [OF assms] in auto)

lemma exact_add:
  assumes "exact T H S L" "H p = 0" "T i = None" "i \<noteq> 0"
  shows "exact (T(i \<mapsto> hs_entry p)) (H(p := i)) S L"
proof (rule exactI)
  note D = exactD [OF assms(1)]
  show "(\<exists>q. e = hs_entry q \<and> (H(p := i)) q = j) \<or> (\<exists>q k. e = kp_entry q k \<and> k \<in> S q \<and> L k = j)"
    if "(T(i \<mapsto> hs_entry p)) j = Some e" for j e using D(4) [of j e] D(3) assms(2) that by (auto split: if_splits) (metis option.distinct(1))
  show "(T(i \<mapsto> hs_entry p)) ((H(p := i)) q) = Some (hs_entry q)" if "(H(p := i)) q \<noteq> 0" for q
    using that D(1) [of q] assms(3) by (auto split: if_splits)
  show "(T(i \<mapsto> hs_entry p)) (L k) = Some (kp_entry q k)" if "k \<in> S q" for q k
    using D(2) [OF that] assms(3) by auto
qed (use exactD [OF assms(1)] assms(4) in auto)

lemma exact_swap:
  assumes "exact T H S L" "H p \<noteq> 0" "\<And>q. k \<notin> S q"
  shows "exact (T(H p \<mapsto> kp_entry p k)) (H(p := 0)) (S(p := insert k (S p))) (L(k := H p))"
proof (rule exactI)
  note D = exactD [OF assms(1)] note I = exact_inj [OF assms(1)]
  let ?T = "T(H p \<mapsto> kp_entry p k)" and ?S = "S(p := insert k (S p))" and ?L = "L(k := H p)"
  show "(\<exists>q. e = hs_entry q \<and> (H(p := 0)) q = i) \<or> (\<exists>q j. e = kp_entry q j \<and> j \<in> ?S q \<and> ?L j = i)" if "?T i = Some e" for i e
  proof (cases "i = H p")
    case True then show ?thesis using that by auto
  next
    case False
    then have "(\<exists>q. e = hs_entry q \<and> H q = i) \<or> (\<exists>q j. e = kp_entry q j \<and> j \<in> S q \<and> L j = i)"
      using that D(4) [of i e] by simp
    then show ?thesis using False assms(3) by (auto split: if_splits) metis
  qed
  show "?T ((H(p := 0)) q) = Some (hs_entry q)" if "(H(p := 0)) q \<noteq> 0" for q
    using that D(1) [of q] I(1) [of q p] by (auto split: if_splits)
  show "?T (?L j) = Some (kp_entry q j)" if "j \<in> ?S q" for q j
    using that D(2) [of j q] I(2) [of j q p] I(4) [of j q p] assms(3) by (auto split: if_splits)
  show "?L j \<noteq> 0" if "j \<in> ?S q" for q j using that D(5) [of j q] assms(2) by (auto split: if_splits)
qed (use exactD [OF assms(1)] assms(2) in auto)

lemma exact_drop:
  assumes "exact T H S L" "k \<in> S p"
  shows "exact (T(L k := None)) H (S(p := S p - {k})) L"
proof (rule exactI)
  note D = exactD [OF assms(1)] note I = exact_inj [OF assms(1)]
  let ?T = "T(L k := None)" and ?S = "S(p := S p - {k})"
  show "(\<exists>q. e = hs_entry q \<and> H q = i) \<or> (\<exists>q j. e = kp_entry q j \<and> j \<in> ?S q \<and> L j = i)" if "?T i = Some e" for i e
    using that D(4) [of i e] by (auto split: if_splits)
  show "?T (H q) = Some (hs_entry q)" if "H q \<noteq> 0" for q using D(1) [OF that] I(4) [OF assms(2), of q] by auto
  show "?T (L j) = Some (kp_entry q j)" if "j \<in> ?S q" for q j
  proof -
    have j: "j \<in> S q" using that by (auto split: if_splits)
    moreover have "j \<noteq> k" using that I(2) [of j q p] assms(2) by (auto split: if_splits)
    ultimately show ?thesis using D(2) [OF j] I(3) [OF j assms(2)] by auto
  qed
qed (use exactD [OF assms(1)] in \<open>auto split: if_splits\<close>)

section \<open>The invariant\<close>

definition slot_set :: "Keypairs \<Rightarrow> keypair_ref set" where
  "slot_set ks = set_option (ks_current ks) \<union> set_option (ks_previous ks) \<union> set_option (ks_next ks)"

definition slots_distinct :: "Keypairs \<Rightarrow> bool" where
  "slots_distinct ks \<longleftrightarrow> set_option (ks_current ks) \<inter> set_option (ks_previous ks) = {} \<and>
     set_option (ks_current ks) \<inter> set_option (ks_next ks) = {} \<and> set_option (ks_previous ks) \<inter> set_option (ks_next ks) = {}"

definition indexed_states :: "handshake_state set" where
  "indexed_states = {HandshakeInitiationCreated, HandshakeResponseCreated, HandshakeResponseConsumed}"

definition table_exact :: "Device \<Rightarrow> bool" where
  "table_exact d \<longleftrightarrow> exact (dev_indexTable d) (\<lambda>p. h_localIndex (handshake_at d p)) (\<lambda>p. slot_set (p_keypairs (peer_at d p)))
     (\<lambda>k. kp_localIndex (keypair_at d k))"

definition trie_peers :: "peer_ref AllowedIPs \<Rightarrow> peer_ref set" where
  "trie_peers t = set_trieEntry (IPv4 t) \<union> set_trieEntry (IPv6 t)"

text \<open>
  \<open>n\<close> peers have been allocated; the addresses above are unused, and the key map and the allowed-IP tables refer to
  allocated peers only.
\<close>

definition index_rest :: "nat \<Rightarrow> Device \<Rightarrow> bool" where
  "index_rest n d \<longleftrightarrow>
     (\<forall>p. slots_distinct (p_keypairs (peer_at d p)) \<and> (\<forall>k \<in> slot_set (p_keypairs (peer_at d p)). k < hp_next_keypair (dev_heap d)) \<and>
       (h_state (handshake_at d p) \<in> indexed_states \<longrightarrow> h_localIndex (handshake_at d p) \<noteq> 0)) \<and>
     hp_next_peer (dev_heap d) = n \<and> (\<forall>p \<ge> n. peer_at d p = new_Peer) \<and>
     (\<forall>x \<in> set (dev_keyMap d). snd x < n) \<and> (\<forall>p \<in> trie_peers (dev_allowedips d). p < n)"

definition index_ok :: "nat \<Rightarrow> Device \<Rightarrow> bool" where
  "index_ok n d \<longleftrightarrow> table_exact d \<and> index_rest n d"

lemmas index_ok_defs = index_ok_def table_exact_def index_rest_def

text \<open>Updates that the invariant does not see.\<close>

lemma index_ok_set_peer [simp]:
  assumes "p < n" "h_localIndex (p_handshake x) = h_localIndex (p_handshake (peer_at d p))"
    "h_state (p_handshake x) = h_state (p_handshake (peer_at d p))" "p_keypairs x = p_keypairs (peer_at d p)"
  shows "index_ok n (set_peer p x d) = index_ok n d"
proof -
  have "h_localIndex (handshake_at (set_peer p x d) q) = h_localIndex (handshake_at d q)"
    "h_state (handshake_at (set_peer p x d) q) = h_state (handshake_at d q)"
    "p_keypairs (peer_at (set_peer p x d) q) = p_keypairs (peer_at d q)" for q
    using assms by (simp_all add: handshake_at_def)
  moreover have "peer_at (set_peer p x d) q = peer_at d q" if "n \<le> q" for q using that assms(1) by simp
  ultimately show ?thesis by (simp add: index_ok_defs del: peer_at_simps)
qed

lemma index_ok_blind [simp]:
  "index_ok n (set_out e x d) = index_ok n d" "index_ok n (add_out x d) = index_ok n d"
  "index_ok n (set_in i y d) = index_ok n d" "index_ok n (add_in y d) = index_ok n d"
  "index_ok n (dev_queue_update f1 d) = index_ok n d" "index_ok n (dev_sent_update f2 d) = index_ok n d"
  "index_ok n (dev_written_update f3 d) = index_ok n d" "index_ok n (dev_rate_update f4 d) = index_ok n d"
  "index_ok n (dev_cookieChecker_update f5 d) = index_ok n d" "index_ok n (dev_state_update f6 d) = index_ok n d"
  "index_ok n (dev_isUp_update f7 d) = index_ok n d" "index_ok n (dev_net_update f8 d) = index_ok n d"
  "index_ok n (dev_isClosed_update f9 d) = index_ok n d" "index_ok n (dev_staticIdentity_update f10 d) = index_ok n d"
  "index_ok n (dev_stop_update f11 d) = index_ok n d" "index_ok n (dev_mtu_update f12 d) = index_ok n d"
  by (simp_all add: index_ok_defs handshake_at_def)

lemma index_ok_set_keypair [simp]:
  "kp_localIndex x = kp_localIndex (keypair_at d k) \<Longrightarrow> index_ok n (set_keypair k x d) = index_ok n d"
proof -
  assume "kp_localIndex x = kp_localIndex (keypair_at d k)"
  then have "kp_localIndex (keypair_at (set_keypair k x d) j) = kp_localIndex (keypair_at d j)" for j by simp
  then show ?thesis by (simp add: index_ok_defs handshake_at_def del: keypair_at_simps(3))
qed

lemma index_ok_updates [simp]:
  assumes "p < n"
  shows "index_ok n (set_timers p t d) = index_ok n d" "index_ok n (set_queue p q d) = index_ok n d"
    "index_ok n (set_signals p s d) = index_ok n d" "index_ok n (set_held h p d) = index_ok n d"
    "index_ok n (set_awaiting b p d) = index_ok n d" "index_ok n (flush p d) = index_ok n d"
    "index_ok n (set_handshake p ((handshake_at d p)\<lparr>h_lastSentHandshake := ls\<rparr>) d) = index_ok n d"
    "index_ok n (set_handshake p ((handshake_at d p)\<lparr>h_presharedKey := psk\<rparr>) d) = index_ok n d"
    "index_ok n (set_handshake p ((handshake_at d p)\<lparr>h_precomputedStaticStatic := ss\<rparr>) d) = index_ok n d"
  using assms
  by (simp_all add: set_timers_def set_queue_def set_signals_def set_held_def set_awaiting_def flush_def set_handshake_def
    handshake_at_def Let_def)

lemma index_ok_elements [simp]:
  "index_ok n (Drop e d) = index_ok n d" "index_ok n (In_Drop i d) = index_ok n d" "index_ok n (set_replay k f d) = index_ok n d"
  "index_ok n (snd (NewOutboundElement d)) = index_ok n d" "index_ok n (set_net x d) = index_ok n d"
  by (simp_all add: Drop_def In_Drop_def set_replay_def NewOutboundElement_def new_out_def set_net_def)

interpretation indices: outbound_frame "index_ok n" "\<lambda>p. p < n" for n
  by unfold_locales simp_all

section \<open>The operations of the handshake\<close>

text \<open>The random source of the indices delivers, and never the index 0.\<close>

definition good_indices :: "World \<Rightarrow> bool" where
  "good_indices w \<longleftrightarrow> (\<forall>draw \<in> set (w_index w). \<not> snd draw \<and> fst (randUint32 draw) \<noteq> 0)"

lemma NewIndex_good:
  "(\<forall>draw \<in> set draws. \<not> snd draw \<and> fst (randUint32 draw) \<noteq> 0) \<Longrightarrow>
   returning (\<lambda>(i, err, T'). \<not> err \<and> i \<noteq> 0 \<and> T i = None \<and> T' = T(i \<mapsto> hs_entry p)) (NewIndexForHandshake draws p p T)"
  by (induction draws) (auto simp: randUint32_def hs_entry_def)

lemma index_ok_set_handshake [simp]:
  assumes "p < n" "h_localIndex h = h_localIndex (handshake_at d p)" "h_state h = h_state (handshake_at d p)"
  shows "index_ok n (set_handshake p h d) = index_ok n d"
  using assms by (simp add: set_handshake_def handshake_at_def)

lemma index_ok_handshake:
  assumes "index_ok n d" "p < n" "h_state h \<in> indexed_states \<Longrightarrow> h_localIndex h \<noteq> 0"
    "exact T ((\<lambda>q. h_localIndex (handshake_at d q))(p := h_localIndex h)) (\<lambda>q. slot_set (p_keypairs (peer_at d q)))
      (\<lambda>k. kp_localIndex (keypair_at d k))"
  shows "index_ok n (set_handshake p h (dev_indexTable_update (\<lambda>_. T) d))"
proof -
  let ?d = "set_handshake p h (dev_indexTable_update (\<lambda>_. T) d)"
  have "(\<lambda>q. h_localIndex (handshake_at ?d q)) = (\<lambda>q. h_localIndex (handshake_at d q))(p := h_localIndex h)"
    by (auto simp: handshake_at_def set_handshake_def)
  moreover have k: "p_keypairs (peer_at ?d q) = p_keypairs (peer_at d q)" for q by (simp add: set_handshake_def)
  moreover have "handshake_at ?d q = (if q = p then h else handshake_at d q)" for q
    by (simp add: handshake_at_def set_handshake_def)
  moreover have "peer_at ?d q = peer_at d q" if "n \<le> q" for q using that assms(2) by (simp add: set_handshake_def)
  ultimately show ?thesis using assms by (simp add: index_ok_defs set_handshake_def del: peer_at_simps)
qed

lemma index_ok_keep_table:
  "index_ok n d \<Longrightarrow> p < n \<Longrightarrow> h_localIndex h = h_localIndex (handshake_at d p) \<Longrightarrow>
   (h_state h \<in> indexed_states \<Longrightarrow> h_localIndex h \<noteq> 0) \<Longrightarrow> index_ok n (set_handshake p h d)"
  using index_ok_handshake [of n d p h "dev_indexTable d"] by (simp add: index_ok_defs fun_upd_idem)

text \<open>A handshake gives up its index for a new one.\<close>

lemma index_ok_renew:
  assumes "index_ok n d" "p < n" "IndexTable_Delete (h_localIndex (handshake_at d p)) (dev_indexTable d) i = None" "i \<noteq> 0"
    "h_localIndex h = i"
  shows "index_ok n (set_handshake p h
    (dev_indexTable_update (\<lambda>_. (IndexTable_Delete (h_localIndex (handshake_at d p)) (dev_indexTable d))(i \<mapsto> hs_entry p)) d))"
proof (rule index_ok_handshake [OF assms(1,2)])
  let ?H = "\<lambda>q. h_localIndex (handshake_at d q)" and ?S = "\<lambda>q. slot_set (p_keypairs (peer_at d q))"
    and ?L = "\<lambda>k. kp_localIndex (keypair_at d k)"
  have "exact ((dev_indexTable d)(?H p := None)) (?H(p := 0)) ?S ?L"
    using assms(1) by (intro exact_clear) (simp add: index_ok_defs)
  from exact_add [OF this, of p i] assms(3-5)
  show "exact ((IndexTable_Delete (?H p) (dev_indexTable d))(i \<mapsto> hs_entry p)) (?H(p := h_localIndex h)) ?S ?L"
    by (simp add: IndexTable_Delete_def)
qed (simp add: assms(4,5))

lemma write_initiation_index:
  "returning (\<lambda>(m, h'). h_localIndex h' = h_localIndex h) (write_initiation w pk h)"
  by (simp add: write_initiation_def Handshake_mixHash_def Handshake_mixKey_def Let_def case_prod_unfold returningI)

lemma write_response_index:
  "returning (\<lambda>(m, h'). h_localIndex h' = h_localIndex h) (write_response w h)"
  by (simp add: write_response_def Handshake_mixHash_def Handshake_mixKey_def Let_def case_prod_unfold returningI)

lemma index_CreateMessageInitiation:
  assumes "index_ok n d" "p < n" "good_indices w"
  shows "returning (\<lambda>(r, d'). index_ok n d') (CreateMessageInitiation w p d)"
  using assms(1,2)
  by (auto simp: CreateMessageInitiation_def Let_def case_prod_unfold
    intro!: returning_mono [OF NewIndex_good [OF assms(3) [unfolded good_indices_def]]]
      returning_mono [OF write_initiation_index] index_ok_renew)

lemma index_CreateMessageResponse:
  assumes "index_ok n d" "p < n" "good_indices w"
  shows "returning (\<lambda>(r, d'). index_ok n d') (CreateMessageResponse w p d)"
  using assms(1,2)
  by (auto simp: CreateMessageResponse_def Let_def case_prod_unfold
    intro!: returning_mono [OF NewIndex_good [OF assms(3) [unfolded good_indices_def]]]
      returning_mono [OF write_response_index] index_ok_renew)

lemma index_okD:
  assumes "index_ok n d"
  shows "LookupPeer key d = Some p \<Longrightarrow> p < n" "ie_peer (IndexTable_Lookup i (dev_indexTable d)) = Some p \<Longrightarrow> p < n"
    "ie_handshake (IndexTable_Lookup i (dev_indexTable d)) = Some p \<Longrightarrow> p < n"
    "p_isRunning (peer_at d p) \<Longrightarrow> p < n" "t_isPending (get_timer t (timers_at d p)) \<Longrightarrow> p < n"
    "p \<in> trie_peers (dev_allowedips d) \<Longrightarrow> p < n" "hp_next_peer (dev_heap d) = n"
proof -
  have new: "p < n" if "peer_at d p \<noteq> new_Peer" for p using assms that by (auto simp: index_ok_defs not_less [symmetric])
  have ex: "exact (dev_indexTable d) (\<lambda>p. h_localIndex (handshake_at d p)) (\<lambda>p. slot_set (p_keypairs (peer_at d p)))
       (\<lambda>k. kp_localIndex (keypair_at d k))" using assms by (simp add: index_ok_defs)
  have entry: "p < n" if "e = hs_entry p \<or> e = kp_entry p k" "dev_indexTable d i = Some e" for p k e i
  proof -
    note D = exactD(4) [OF ex that(2)] exactD(3) [OF ex] that
    have "peer_at d p \<noteq> new_Peer"
      using D by (auto simp: new_Peer_def new_Handshake_def handshake_at_def slot_set_def)
    then show "p < n" by (rule new)
  qed
  show "LookupPeer key d = Some p \<Longrightarrow> p < n"
    using assms by (auto simp: LookupPeer_def index_ok_defs dest!: map_of_SomeD)
  show "p_isRunning (peer_at d p) \<Longrightarrow> p < n" by (rule new) (auto simp: new_Peer_def)
  have "\<exists>q k. e = hs_entry q \<or> e = kp_entry q k" if "dev_indexTable d i = Some e" for e
    using exactD(4) [OF ex that] by blast
  then have "q < n" if "ie_peer (IndexTable_Lookup i (dev_indexTable d)) = Some q \<or> ie_handshake (IndexTable_Lookup i (dev_indexTable d)) = Some q" for q
    using that entry [of _ q] by (fastforce simp: IndexTable_Lookup_def hs_entry_def kp_entry_def split: option.splits)
  then show "ie_peer (IndexTable_Lookup i (dev_indexTable d)) = Some p \<Longrightarrow> p < n"
    "ie_handshake (IndexTable_Lookup i (dev_indexTable d)) = Some p \<Longrightarrow> p < n" by blast+
  show "t_isPending (get_timer t (timers_at d p)) \<Longrightarrow> p < n"
    by (rule new) (auto simp: new_Peer_def timers_at_def get_timer_def new_Timer_def split: timer_name.splits)
qed (use assms in \<open>auto simp: index_ok_defs\<close>)

lemma index_ConsumeMessageInitiation:
  assumes "index_ok n d"
  shows "returning (\<lambda>(r, d'). index_ok n d' \<and> (\<forall>p. r = Some p \<longrightarrow> p < n)) (ConsumeMessageInitiation w m d)"
  using assms index_okD(1) [OF assms]
  by (auto simp: ConsumeMessageInitiation_def Let_def indexed_states_def
    intro!: returningI index_ok_keep_table split: prod.split sum.split option.split)

lemma index_ConsumeMessageResponse:
  assumes "index_ok n d"
  shows "returning (\<lambda>(r, d'). index_ok n d' \<and> (\<forall>p. r = Some p \<longrightarrow> p < n)) (ConsumeMessageResponse w m d)"
proof -
  have "h_localIndex (handshake_at d p) \<noteq> 0" if "h_state (handshake_at d p) = HandshakeInitiationCreated" for p
    using assms that by (auto simp: index_ok_defs indexed_states_def)
  then show ?thesis
    using assms index_okD(2,3) [OF assms]
    by (auto simp: ConsumeMessageResponse_def Let_def
      intro!: returningI index_ok_keep_table split: prod.split sum.split option.split)
qed

section \<open>The operations on key pairs\<close>

definition drop_key :: "(keypair_ref \<Rightarrow> u32) \<Rightarrow> keypair_ref option \<Rightarrow> IndexTable \<Rightarrow> IndexTable" where
  "drop_key L ko T = (case ko of None \<Rightarrow> T | Some k \<Rightarrow> T(L k := None))"

lemma DeleteKeypair_eq:
  "DeleteKeypair ko d = dev_indexTable_update (\<lambda>_. drop_key (\<lambda>k. kp_localIndex (keypair_at d k)) ko (dev_indexTable d)) d"
  by (simp add: DeleteKeypair_def drop_key_def IndexTable_Delete_def split: option.split)

lemma exact_drop_key:
  "exact T H (S(p := A)) L \<Longrightarrow> set_option ko \<subseteq> A \<Longrightarrow> exact (drop_key L ko T) H (S(p := A - set_option ko)) L"
  using exact_drop [of T H "S(p := A)" L _ p] by (auto simp: drop_key_def split: option.split)

lemma index_ok_slots:
  assumes "index_rest n d" "p < n" "slots_distinct ks" "\<And>k. k \<in> slot_set ks \<Longrightarrow> k < hp_next_keypair (dev_heap d)"
    "exact T (\<lambda>q. h_localIndex (handshake_at d q)) ((\<lambda>q. slot_set (p_keypairs (peer_at d q)))(p := slot_set ks))
      (\<lambda>k. kp_localIndex (keypair_at d k))"
  shows "index_ok n (set_peer p ((peer_at d p)\<lparr>p_keypairs := ks\<rparr>) (dev_indexTable_update (\<lambda>_. T) d))"
proof -
  let ?d = "set_peer p ((peer_at d p)\<lparr>p_keypairs := ks\<rparr>) (dev_indexTable_update (\<lambda>_. T) d)"
  have "handshake_at ?d q = handshake_at d q" for q by (simp add: handshake_at_def)
  moreover have "(\<lambda>q. slot_set (p_keypairs (peer_at ?d q))) = (\<lambda>q. slot_set (p_keypairs (peer_at d q)))(p := slot_set ks)" by (simp add: fun_eq_iff)
  moreover have "p_keypairs (peer_at ?d q) = (if q = p then ks else p_keypairs (peer_at d q))" for q by simp
  moreover have "peer_at ?d q = peer_at d q" if "n \<le> q" for q using that assms(2) by simp
  ultimately show ?thesis using assms by (auto simp: index_ok_defs simp del: peer_at_simps)
qed

text \<open>The key pair \<open>k\<close> is in the table but in none of the three places of its peer yet.\<close>

lemma index_rotate_keypairs:
  assumes "index_rest n d" "p < n" "k < hp_next_keypair (dev_heap d)" "k \<notin> slot_set (p_keypairs (peer_at d p))"
    "exact (dev_indexTable d) (\<lambda>q. h_localIndex (handshake_at d q))
      ((\<lambda>q. slot_set (p_keypairs (peer_at d q)))(p := insert k (slot_set (p_keypairs (peer_at d p)))))
      (\<lambda>k. kp_localIndex (keypair_at d k))"
  shows "index_ok n (rotate_keypairs b k p d)"
proof -
  let ?ks = "p_keypairs (peer_at d p)"
  have dis: "slots_distinct ?ks" and bound: "\<And>k. k \<in> slot_set ?ks \<Longrightarrow> k < hp_next_keypair (dev_heap d)"
    using assms(1) by (auto simp: index_rest_def)
  note e = assms(5)
  note drop2 = exact_drop_key [OF exact_drop_key [OF e]]
  have sub: "set_option (ks_current ?ks) \<subseteq> insert k (slot_set ?ks)" "set_option (ks_previous ?ks) \<subseteq> insert k (slot_set ?ks)"
    "set_option (ks_next ?ks) \<subseteq> insert k (slot_set ?ks)" by (auto simp: slot_set_def)
  have ok: "index_ok n (set_peer p ((peer_at d p)\<lparr>p_keypairs := ks\<rparr>) (dev_indexTable_update (\<lambda>_. T) d))"
    if "slots_distinct ks" "slot_set ks = A" "A \<subseteq> insert k (slot_set ?ks)"
      "exact T (\<lambda>q. h_localIndex (handshake_at d q)) ((\<lambda>q. slot_set (p_keypairs (peer_at d q)))(p := A))
        (\<lambda>k. kp_localIndex (keypair_at d k))" for ks T A
    by (rule index_ok_slots [OF assms(1,2) that(1)]) (use that assms(3) bound in auto)
  consider "b" "ks_next ?ks = None" | "b" "ks_next ?ks \<noteq> None" | "\<not> b" by blast
  then show ?thesis
  proof cases
    case 1
    let ?new = "?ks\<lparr>ks_previous := ks_current ?ks, ks_current := Some k\<rparr>"
    have "slots_distinct ?new" "slot_set ?new = insert k (slot_set ?ks) - set_option (ks_previous ?ks)"
      using dis assms(4) 1(2) by (auto simp: slot_set_def slots_distinct_def)
    from ok [OF this _ exact_drop_key [OF e sub(2)]] show ?thesis
      by (auto simp: rotate_keypairs_def 1 DeleteKeypair_eq Let_def)
  next
    case 2
    let ?new = "?ks\<lparr>ks_next := None, ks_previous := ks_next ?ks, ks_current := Some k\<rparr>"
    have "slots_distinct ?new" "slot_set ?new = insert k (slot_set ?ks) - set_option (ks_current ?ks) - set_option (ks_previous ?ks)"
      "set_option (ks_previous ?ks) \<subseteq> insert k (slot_set ?ks) - set_option (ks_current ?ks)"
      using dis assms(4) by (auto simp: slot_set_def slots_distinct_def)
    from ok [OF this(1,2) _ drop2 [OF sub(1) this(3)]] show ?thesis
      by (auto simp: rotate_keypairs_def 2 DeleteKeypair_eq Let_def)
  next
    case 3
    let ?new = "?ks\<lparr>ks_next := Some k, ks_previous := None\<rparr>"
    have "slots_distinct ?new" "slot_set ?new = insert k (slot_set ?ks) - set_option (ks_next ?ks) - set_option (ks_previous ?ks)"
      "set_option (ks_previous ?ks) \<subseteq> insert k (slot_set ?ks) - set_option (ks_next ?ks)"
      using dis assms(4) by (auto simp: slot_set_def slots_distinct_def)
    from ok [OF this(1,2) _ drop2 [OF sub(3) this(3)]] show ?thesis
      by (auto simp: rotate_keypairs_def 3 DeleteKeypair_eq Let_def)
  qed
qed

lemma index_BeginSymmetricSession:
  assumes "index_ok n d" "p < n"
  shows "returning (\<lambda>(r, d'). index_ok n d') (BeginSymmetricSession w p d)"
proof -
  let ?h = "handshake_at d p" and ?k = "hp_next_keypair (dev_heap d)"
  have ex: "exact (dev_indexTable d) (\<lambda>q. h_localIndex (handshake_at d q)) (\<lambda>q. slot_set (p_keypairs (peer_at d q)))
    (\<lambda>k. kp_localIndex (keypair_at d k))" using assms(1) by (simp add: index_ok_defs)
  have new: "?k \<notin> slot_set (p_keypairs (peer_at d q))" for q using assms(1) by (auto simp: index_ok_defs)
  have rotate: "index_ok n (rotate_keypairs b ?k p (set_handshake p (h\<lparr>h_localIndex := 0\<rparr>)
      (dev_indexTable_update (\<lambda>_. SwapIndexForKeypair (h_localIndex ?h) ?k (dev_indexTable d)) (add_keypair kp d))))"
    if k: "kp_localIndex kp = h_localIndex ?h" "h_localIndex ?h \<noteq> 0" "h_state h = HandshakeZeroed" for b kp h
  proof -
    define d1 where "d1 = set_handshake p (h\<lparr>h_localIndex := 0\<rparr>)
      (dev_indexTable_update (\<lambda>_. SwapIndexForKeypair (h_localIndex ?h) ?k (dev_indexTable d)) (add_keypair kp d))"
    have keys: "p_keypairs (peer_at d1 q) = p_keypairs (peer_at d q)" for q by (simp add: d1_def set_handshake_def)
    have hs: "handshake_at d1 q = (if q = p then h\<lparr>h_localIndex := 0\<rparr> else handshake_at d q)" for q
      by (simp add: d1_def handshake_at_def set_handshake_def)
    have kps: "(\<lambda>k. kp_localIndex (keypair_at d1 k)) = (\<lambda>k. kp_localIndex (keypair_at d k))(?k := h_localIndex ?h)"
      using k(1) by (auto simp: d1_def set_handshake_def)
    have idx: "(\<lambda>q. h_localIndex (handshake_at d1 q)) = (\<lambda>q. h_localIndex (handshake_at d q))(p := 0)"
      using hs by (simp add: fun_eq_iff)
    have table: "dev_indexTable d1 = (dev_indexTable d)(h_localIndex ?h \<mapsto> kp_entry p ?k)"
      using exactD(1) [OF ex k(2)] by (simp add: d1_def set_handshake_def SwapIndexForKeypair_def hs_entry_def kp_entry_def)
    have "peer_at d1 q = peer_at d q" if "n \<le> q" for q using that assms(2) by (simp add: d1_def set_handshake_def)
    moreover have "hp_next_keypair (dev_heap d1) = Suc ?k" "hp_next_peer (dev_heap d1) = hp_next_peer (dev_heap d)"
      "dev_keyMap d1 = dev_keyMap d" "dev_allowedips d1 = dev_allowedips d" by (simp_all add: d1_def set_handshake_def)
    ultimately have "index_rest n d1" "?k < hp_next_keypair (dev_heap d1)"
      using assms(1) k(3) by (auto simp: index_ok_defs keys hs indexed_states_def less_Suc_eq)
    moreover have "exact (dev_indexTable d1) (\<lambda>q. h_localIndex (handshake_at d1 q))
        ((\<lambda>q. slot_set (p_keypairs (peer_at d1 q)))(p := insert ?k (slot_set (p_keypairs (peer_at d1 p)))))
        (\<lambda>k. kp_localIndex (keypair_at d1 k))"
      unfolding table idx kps keys by (rule exact_swap [OF ex k(2) new])
    ultimately show ?thesis
      unfolding d1_def [symmetric] by (intro index_rotate_keypairs assms(2)) (simp_all add: keys new)
  qed
  have "h_localIndex ?h \<noteq> 0" if "session_keys ?h = Some x" for x
    using assms(1) that by (auto simp: index_ok_defs indexed_states_def session_keys_def split: handshake_state.splits)
  then show ?thesis
    using assms(1)
    by (auto simp: BeginSymmetricSession_def new_keypair_def Let_def intro!: returningI rotate split: option.split)
qed

lemma index_ReceivedWithKeypair:
  assumes "index_ok n d" "p < n"
  shows "index_ok n (snd (ReceivedWithKeypair k p d))"
proof (cases "ks_next (p_keypairs (peer_at d p)) = Some k")
  case True
  let ?ks = "p_keypairs (peer_at d p)"
  let ?new = "?ks\<lparr>ks_previous := ks_current ?ks, ks_current := Some k, ks_next := None\<rparr>"
  have ex: "exact (dev_indexTable d) (\<lambda>q. h_localIndex (handshake_at d q)) ((\<lambda>q. slot_set (p_keypairs (peer_at d q)))(p := slot_set ?ks))
    (\<lambda>k. kp_localIndex (keypair_at d k))" and rest: "index_rest n d" using assms(1) by (simp_all add: index_ok_defs fun_upd_idem)
  have ks: "slots_distinct ?ks" "\<And>j. j \<in> slot_set ?ks \<Longrightarrow> j < hp_next_keypair (dev_heap d)" "set_option (ks_previous ?ks) \<subseteq> slot_set ?ks"
    using rest by (auto simp: index_rest_def slot_set_def)
  then have new: "slots_distinct ?new" "slot_set ?ks - set_option (ks_previous ?ks) = slot_set ?new"
    using True by (auto simp: slot_set_def slots_distinct_def)
  have "exact (drop_key (\<lambda>k. kp_localIndex (keypair_at d k)) (ks_previous ?ks) (dev_indexTable d))
      (\<lambda>q. h_localIndex (handshake_at d q)) ((\<lambda>q. slot_set (p_keypairs (peer_at d q)))(p := slot_set ?new))
      (\<lambda>k. kp_localIndex (keypair_at d k))"
    using exact_drop_key [OF ex ks(3)] by (simp only: new(2))
  from index_ok_slots [OF rest assms(2) new(1) _ this] show ?thesis
    using ks(2) new(2) True by (auto simp: ReceivedWithKeypair_def DeleteKeypair_eq Let_def)
qed (use assms in \<open>simp add: ReceivedWithKeypair_def Let_def\<close>)

lemma index_FlushNonceQueue: "index_ok n d \<Longrightarrow> p < n \<Longrightarrow> returning (index_ok n) (FlushNonceQueue p d)"
  by (auto simp: FlushNonceQueue_def Let_def case_prod_unfold intro!: returningI)

lemma index_ZeroAndFlushAll:
  assumes "index_ok n d" "p < n"
  shows "returning (index_ok n) (ZeroAndFlushAll p d)"
proof -
  let ?ks = "p_keypairs (peer_at d p)" and ?L = "\<lambda>k. kp_localIndex (keypair_at d k)"
  let ?none = "\<lparr>ks_current = None, ks_previous = None, ks_next = None\<rparr> :: Keypairs"
  have ex: "exact (dev_indexTable d) (\<lambda>q. h_localIndex (handshake_at d q)) ((\<lambda>q. slot_set (p_keypairs (peer_at d q)))(p := slot_set ?ks)) ?L"
    and rest: "index_rest n d" using assms(1) by (simp_all add: index_ok_defs fun_upd_idem)
  have dis: "slots_distinct ?ks" using rest by (simp add: index_rest_def)
  define T where "T = drop_key ?L (ks_next ?ks) (drop_key ?L (ks_current ?ks) (drop_key ?L (ks_previous ?ks) (dev_indexTable d)))"
  have "exact T (\<lambda>q. h_localIndex (handshake_at d q)) ((\<lambda>q. slot_set (p_keypairs (peer_at d q)))(p :=
      slot_set ?ks - set_option (ks_previous ?ks) - set_option (ks_current ?ks) - set_option (ks_next ?ks))) ?L"
    unfolding T_def using dis
    by (intro exact_drop_key ex) (auto simp: slot_set_def slots_distinct_def)
  moreover have "slot_set ?ks - set_option (ks_previous ?ks) - set_option (ks_current ?ks) - set_option (ks_next ?ks) = slot_set ?none"
    by (auto simp: slot_set_def)
  moreover have "slots_distinct ?none" "\<And>k. k \<notin> slot_set ?none" by (simp_all add: slots_distinct_def slot_set_def)
  ultimately have "index_ok n (set_peer p ((peer_at d p)\<lparr>p_keypairs := ?none\<rparr>) (dev_indexTable_update (\<lambda>_. T) d))" (is "index_ok n ?d")
    by (intro index_ok_slots [OF rest assms(2)]) simp_all
  moreover from this have "exact ((dev_indexTable ?d)(h_localIndex (handshake_at ?d p) := None))
      ((\<lambda>q. h_localIndex (handshake_at ?d q))(p := 0)) (\<lambda>q. slot_set (p_keypairs (peer_at ?d q))) (\<lambda>k. kp_localIndex (keypair_at ?d k))"
    by (intro exact_clear) (simp add: index_ok_defs)
  ultimately have "index_ok n (set_handshake p (Handshake_Clear (handshake_at ?d p))
      (dev_indexTable_update (\<lambda>_. (dev_indexTable ?d)(h_localIndex (handshake_at ?d p) := None)) ?d))"
    by (intro index_ok_handshake [OF _ assms(2)]) (simp_all add: Handshake_Clear_def indexed_states_def)
  from index_FlushNonceQueue [OF this assms(2)] show ?thesis
    by (simp add: ZeroAndFlushAll_def DeleteKeypair_eq T_def IndexTable_Delete_def Let_def handshake_at_def)
qed

section \<open>The routines\<close>

lemma index_SendHandshakeInitiation:
  assumes "index_ok n d" "p < n" "good_indices w"
  shows "returning (\<lambda>(r, d'). index_ok n d') (SendHandshakeInitiation w b p d)"
  using assms(1,2)
  by (auto simp: SendHandshakeInitiation_def Let_def case_prod_unfold
    intro!: returning_mono [OF index_CreateMessageInitiation [OF _ assms(2,3)]] returning_mono [OF indices.view_AddMacs [of p n]]
    split: sum.split)

lemma index_SendHandshakeResponse:
  assumes "index_ok n d" "p < n" "good_indices w"
  shows "returning (\<lambda>(r, d'). index_ok n d') (SendHandshakeResponse w p d)"
  using assms(1,2)
  by (auto simp: SendHandshakeResponse_def Let_def case_prod_unfold
    intro!: returning_mono [OF index_CreateMessageResponse [OF _ assms(2,3)]] returning_mono [OF indices.view_AddMacs [of p n]]
      returning_mono [OF index_BeginSymmetricSession [OF _ assms(2)]]
    split: sum.split option.split)

lemma index_SendHandshakeCookie:
  "index_ok n d \<Longrightarrow> returning (\<lambda>(r, d'). index_ok n d') (SendHandshakeCookie w elem d)"
  by (auto simp: SendHandshakeCookie_def Let_def case_prod_unfold intro!: returningI split: option.split)

lemma index_keepKeyFreshSending:
  assumes "index_ok n d" "p < n" "good_indices w"
  shows "returning (index_ok n) (keepKeyFreshSending w p d)"
  using assms(1,2)
  by (auto simp: keepKeyFreshSending_def Let_def case_prod_unfold
    intro!: returning_mono [OF index_SendHandshakeInitiation [OF _ assms(2,3)]] split: option.split)

lemma index_keepKeyFreshReceiving:
  assumes "index_ok n d" "p < n" "good_indices w"
  shows "returning (index_ok n) (keepKeyFreshReceiving w p d)"
  using assms(1,2)
  by (auto simp: keepKeyFreshReceiving_def Let_def case_prod_unfold
    intro!: returning_mono [OF index_SendHandshakeInitiation [OF _ assms(2,3)]] split: option.split)

lemma index_SendKeepalive: "index_ok n d \<Longrightarrow> p < n \<Longrightarrow> returning (\<lambda>(r, d'). index_ok n d') (SendKeepalive p d)"
  by (auto simp: SendKeepalive_def Let_def case_prod_unfold intro!: returningI)

lemma index_addToOutbound:
  "index_ok n d \<Longrightarrow> p < n \<Longrightarrow> returning (index_ok n) (addToOutboundAndEncryptionQueues p e d)"
  by (auto simp: addToOutboundAndEncryptionQueues_def Let_def case_prod_unfold intro!: returningI)

lemma index_nonce_key:
  assumes "index_ok n d" "p < n" "good_indices w"
  shows "returning (index_ok n) (nonce_key w e p d)"
  using assms(1,2)
  by (auto simp: nonce_key_def assign_nonce_def Let_def case_prod_unfold
    intro!: returning_mono [OF index_SendHandshakeInitiation [OF _ assms(2,3)]] returning_mono [OF index_addToOutbound [OF _ assms(2)]]
    split: option.split)

lemma index_RoutineNonce:
  assumes "index_ok n d" "p < n" "good_indices w"
  shows "returning (index_ok n) (RoutineNonce_packet w p d)" "index_ok n (RoutineNonce_flush p d)"
    "returning (index_ok n) (RoutineNonce_arrived w p d)"
  using assms(1,2)
  by (auto simp: RoutineNonce_packet_def RoutineNonce_flush_def RoutineNonce_arrived_def Let_def
    intro!: index_nonce_key [OF _ assms(2,3)] split: option.split prod.split)

lemma index_route_packet:
  assumes "index_ok n d"
  shows "returning (\<lambda>r. \<forall>p. r = Some p \<longrightarrow> p < n) (route_packet packet d)"
proof -
  have "returning (\<lambda>r. \<forall>p. r = Some p \<longrightarrow> p < n) (LookupIPv4 (dev_allowedips d) a)"
    "returning (\<lambda>r. \<forall>p. r = Some p \<longrightarrow> p < n) (LookupIPv6 (dev_allowedips d) a)" for a
    using index_okD(6) [OF assms]
    by (auto simp: LookupIPv4_def LookupIPv6_def trie_peers_def dest: lookup_entry_peer intro!: returningI)
  then show ?thesis by (auto simp: route_packet_def Let_def intro!: returningI)
qed

lemma index_RoutineReadFromTUN:
  assumes "index_ok n d" "good_indices w"
  shows "returning (index_ok n) (RoutineReadFromTUN w packet d)"
  using assms(1)
  by (auto simp: RoutineReadFromTUN_def Let_def case_prod_unfold
    intro!: returning_mono [OF index_route_packet] returning_mono [OF index_SendHandshakeInitiation [OF _ _ assms(2)]] returning_const
    split: option.split)

lemma index_RoutineEncryption: "index_ok n d \<Longrightarrow> returning (index_ok n) (RoutineEncryption d)"
  by (auto simp: RoutineEncryption_def Let_def intro!: returningI split: option.split prod.split)

lemma index_RoutineSequentialSender:
  assumes "index_ok n d" "p < n" "good_indices w"
  shows "returning (index_ok n) (RoutineSequentialSender w p d)"
  using assms(1,2)
  by (auto simp: RoutineSequentialSender_def Let_def case_prod_unfold
    intro!: index_keepKeyFreshSending [OF _ assms(2,3)] split: option.split)

lemma index_addToInbound:
  "index_ok n d \<Longrightarrow> p < n \<Longrightarrow> returning (\<lambda>(r, d'). index_ok n d') (addToInboundAndDecryptionQueues p e d)"
  by (auto simp: addToInboundAndDecryptionQueues_def Let_def case_prod_unfold intro!: returningI)

lemma index_receive_transport:
  assumes "index_ok n d"
  shows "returning (index_ok n) (receive_transport w packet endpoint d)"
  using assms
  by (auto simp: receive_transport_def new_in_def Let_def case_prod_unfold dest: index_okD(2)
    intro!: returningI [where m = "slice a b x" for a b x] returningI [where m = "ie_peer x" for x]
      returning_mono [OF index_addToInbound [of n]] split: option.split)

lemma index_addToHandshakeQueue: "index_ok n d \<Longrightarrow> returning (\<lambda>(r, d'). index_ok n d') (addToHandshakeQueue e d)"
  by (auto simp: addToHandshakeQueue_def case_prod_unfold intro!: returning_const)

lemma index_RoutineReceiveIncoming:
  assumes "index_ok n d"
  shows "returning (index_ok n) (RoutineReceiveIncoming w packet endpoint d)"
  by (rule returning_RoutineReceiveIncoming [where P = "index_ok n", OF assms])
    (rule index_receive_transport index_addToHandshakeQueue, rule assms)+

lemma index_RoutineDecryption: "index_ok n d \<Longrightarrow> returning (index_ok n) (RoutineDecryption d)"
  by (auto simp: RoutineDecryption_def Let_def case_prod_unfold intro!: returningI split: option.split prod.split)

lemma index_admit_handshake: "index_ok n d \<Longrightarrow> returning (\<lambda>(r, d'). index_ok n d') (admit_handshake w elem d)"
  by (auto simp: admit_handshake_def IsUnderLoad_def Let_def case_prod_unfold
    intro!: returningI [where m = "CheckMAC1 a b" for a b] returningI [where m = "CheckMAC2 a b e g" for a b e g]
      returningI [where m = "Allow a b e" for a b e] returning_mono [OF index_SendHandshakeCookie [of n]])

lemma index_handle_cookie_reply:
  assumes "index_ok n d"
  shows "returning (index_ok n) (handle_cookie_reply w elem d)"
  using assms index_okD(2) [OF assms]
  by (auto simp: handle_cookie_reply_def Let_def case_prod_unfold intro!: returningI split: option.split)

lemma index_SetEndpointFromPacket [simp]: "p < n \<Longrightarrow> index_ok n (SetEndpointFromPacket w e p d) = index_ok n d"
  by (simp add: SetEndpointFromPacket_def)

lemma index_signal_new_keypair: "index_ok n d \<Longrightarrow> p < n \<Longrightarrow> returning (index_ok n) (signal_new_keypair p d)"
  by (auto simp: signal_new_keypair_def Let_def case_prod_unfold intro!: returningI)

lemma index_handle_initiation:
  assumes "index_ok n d" "good_indices w"
  shows "returning (index_ok n) (handle_initiation w elem d)"
  using assms(1)
  by (auto simp: handle_initiation_def Let_def case_prod_unfold
    intro!: returning_mono [OF index_ConsumeMessageInitiation [of n]] returning_mono [OF index_SendHandshakeResponse [of n, OF _ _ assms(2)]]
    split: option.split)

lemma index_handle_response:
  assumes "index_ok n d"
  shows "returning (index_ok n) (handle_response w elem d)"
  using assms(1)
  by (auto simp: handle_response_def Let_def case_prod_unfold
    intro!: returning_mono [OF index_ConsumeMessageResponse [of n]] returning_mono [OF index_BeginSymmetricSession [of n]]
      returning_mono [OF index_SendKeepalive [of n]] index_signal_new_keypair
    split: option.split)

lemma index_RoutineHandshake:
  assumes "index_ok n d" "good_indices w"
  shows "returning (index_ok n) (RoutineHandshake w d)"
  using assms(1)
  by (auto simp: RoutineHandshake_def Let_def case_prod_unfold
    intro!: index_handle_cookie_reply returning_mono [OF index_admit_handshake] index_handle_initiation [OF _ assms(2)] index_handle_response
    split: option.split)

lemma index_deliver:
  assumes "index_ok n d" "p < n" "good_indices w"
  shows "returning (index_ok n) (deliver w p k endpoint packet d)"
  using assms(1,2) index_ReceivedWithKeypair [of n "SetEndpointFromPacket w endpoint p d" p k]
  by (auto simp: deliver_def Let_def case_prod_unfold
    intro!: returning_mono [OF index_signal_new_keypair [OF _ assms(2)]] returning_mono [OF index_keepKeyFreshReceiving [OF _ assms(2,3)]]
      returningI [where m = "strip_and_verify a b e" for a b e] split: option.split)

lemma index_RoutineSequentialReceiver:
  assumes "index_ok n d" "p < n" "good_indices w"
  shows "returning (index_ok n) (RoutineSequentialReceiver w p d)"
  using assms(1,2)
  by (auto simp: RoutineSequentialReceiver_def Let_def case_prod_unfold
    intro!: returningI [where m = "ie_keypair_used x" for x] index_deliver [OF _ assms(2,3)] split: option.split)

section \<open>Timers and control\<close>

lemma index_clear_src [simp]: "p < n \<Longrightarrow> index_ok n (clear_src p d) = index_ok n d"
  by (simp add: clear_src_def)

lemma index_expired:
  assumes "index_ok n d" "p < n" "good_indices w"
  shows "returning (index_ok n) (expiredRetransmitHandshake w p d)" "returning (index_ok n) (expiredSendKeepalive p d)"
    "returning (index_ok n) (expiredNewHandshake w p d)" "returning (index_ok n) (expiredZeroKeyMaterial p d)"
    "returning (index_ok n) (expiredPersistentKeepalive p d)"
  using assms(1,2) index_ZeroAndFlushAll [OF assms(1,2)]
  by (auto simp: expiredRetransmitHandshake_def expiredSendKeepalive_def expiredNewHandshake_def expiredZeroKeyMaterial_def
      expiredPersistentKeepalive_def Let_def case_prod_unfold
    intro!: returning_mono [OF index_SendHandshakeInitiation [OF _ assms(2,3)]] returning_mono [OF index_FlushNonceQueue [OF _ assms(2)]]
      returning_mono [OF index_SendKeepalive [OF _ assms(2)]])

lemma index_timer_fires:
  assumes "index_ok n d" "p < n" "good_indices w"
  shows "returning (index_ok n) (timer_fires w t p d)"
  using assms(1,2)
  by (auto simp: timer_fires_def Let_def intro!: index_expired [OF _ assms(2,3)] split: timer_name.split prod.split)

lemma index_Peer_Start [simp]: "p < n \<Longrightarrow> index_ok n (Peer_Start w p d) = index_ok n d"
  by (simp add: Peer_Start_def Let_def)

lemma index_stop_routines [simp]: "index_ok n d \<Longrightarrow> p < n \<Longrightarrow> index_ok n (stop_routines p d)"
  by (simp add: stop_routines_def Let_def) (rule foldl_invariant, simp_all)

lemma index_Peer_Stop: "index_ok n d \<Longrightarrow> p < n \<Longrightarrow> returning (index_ok n) (Peer_Stop p d)"
  by (auto simp: Peer_Stop_def Let_def intro!: returningI [where m = "close_chan x" for x] returningI [where m = "close_chan_of x" for x]
    index_ZeroAndFlushAll)

lemma index_ok_keyMap:
  "index_ok n d \<Longrightarrow> (\<And>x. x \<in> set (f (dev_keyMap d)) \<Longrightarrow> snd x < n) \<Longrightarrow> index_ok n (dev_keyMap_update f d)"
  by (simp add: index_ok_defs handshake_at_def)

lemma index_ok_allowedips:
  "index_ok n d \<Longrightarrow> trie_peers (f (dev_allowedips d)) \<subseteq> {..<n} \<Longrightarrow> index_ok n (dev_allowedips_update f d)"
  by (auto simp: index_ok_defs handshake_at_def)

lemma index_ok_RemoveByPeer: "index_ok n d \<Longrightarrow> index_ok n (d\<lparr>dev_allowedips := RemoveByPeer (dev_allowedips d) p\<rparr>)"
  using removeByPeer_peers [of "IPv4 (dev_allowedips d)" p] removeByPeer_peers [of "IPv6 (dev_allowedips d)" p] index_okD(6) [of n d]
  by (intro index_ok_allowedips) (auto simp: RemoveByPeer_def trie_peers_def)

lemma index_ok_keyMapD: "index_ok n d \<Longrightarrow> x \<in> set (dev_keyMap d) \<Longrightarrow> snd x < n"
  by (simp add: index_ok_defs)

lemma index_unsafeRemovePeer:
  "index_ok n d \<Longrightarrow> p < n \<Longrightarrow> returning (index_ok n) (unsafeRemovePeer p key d)"
  by (auto simp: unsafeRemovePeer_def intro!: returning_mono [OF index_Peer_Stop [of n]] index_ok_RemoveByPeer index_ok_keyMap
    dest: index_ok_keyMapD)

lemma index_clear_sources [simp]: "index_ok n d \<Longrightarrow> index_ok n (clear_sources d)"
  unfolding clear_sources_def by (rule foldl_invariant) (auto dest: index_ok_keyMapD)

lemma index_Bind:
  assumes "index_ok n d"
  shows "index_ok n (snd (BindUpdate w d))" "index_ok n (snd (BindSetMark w m d))" "index_ok n (snd (BindClose_op w d))"
  using assms
  by (auto simp: BindUpdate_def BindSetMark_def BindClose_op_def unsafeCloseBind_def Let_def split: option.split)

lemma index_change_state:
  assumes "index_ok n d"
  shows "returning (index_ok n) (change_state w d)"
proof -
  let ?d = "d\<lparr>dev_state := (dev_state d)\<lparr>ds_changing := True\<rparr>\<rparr>"
  have up: "index_ok n (foldl (\<lambda>d p. Peer_Start w p d) d1 (map snd (dev_keyMap d1)))" if "index_ok n d1" for d1
    by (rule foldl_invariant [where P = "index_ok n", OF that]) (use that in \<open>auto dest: index_ok_keyMapD\<close>)
  have down: "returning (index_ok n) (for_each Peer_Stop (map snd (dev_keyMap d1)) d1)" if "index_ok n d1" for d1
    by (rule returning_for_each [where P = "index_ok n", OF _ that]) (use that in \<open>auto dest: index_ok_keyMapD intro: index_Peer_Stop\<close>)
  have d: "index_ok n ?d" using assms by simp
  from index_Bind(1,3) [OF d, of w] show ?thesis
    by (auto simp: change_state_def Let_def case_prod_unfold intro!: up returning_mono [OF down])
qed

lemma index_deviceUpdateState: "index_ok n d \<Longrightarrow> returning (index_ok n) (deviceUpdateState w d)"
  by (rule returning_deviceUpdateState) (simp_all add: index_change_state)

lemma index_Device_Up: "index_ok n d \<Longrightarrow> returning (index_ok n) (Device_Up w d)"
  by (simp add: Device_Up_def index_deviceUpdateState)

lemma index_Device_Down: "index_ok n d \<Longrightarrow> returning (index_ok n) (Device_Down w d)"
  by (simp add: Device_Down_def index_deviceUpdateState)

lemma index_remove_locked: "index_ok n d \<Longrightarrow> p < n \<Longrightarrow> returning (index_ok n) (remove_locked p key d)"
  by (simp add: remove_locked_def index_unsafeRemovePeer)

lemma index_precompute_static: "index_ok n d \<Longrightarrow> snd x < n \<Longrightarrow> returning (index_ok n) (precompute_static w sk x d)"
  by (auto simp: precompute_static_def Let_def intro!: index_remove_locked split: prod.split)

lemma index_SetPrivateKey:
  assumes "index_ok n d"
  shows "returning (index_ok n) (SetPrivateKey w sk d)"
proof -
  have remove: "returning (index_ok n) (for_each (\<lambda>(key, p) d. if NoisePublicKey_Equals (h_remoteStatic (handshake_at d p)) pk
      then remove_locked p key d else Some d) (dev_keyMap d) d)" for pk
    by (rule returning_for_each [where P = "index_ok n", OF _ assms])
      (auto dest!: index_ok_keyMapD [OF assms] intro: index_remove_locked split: prod.split)
  have compute: "returning (index_ok n) (for_each (precompute_static w sk) xs d1)" if "index_ok n d1" "\<And>x. x \<in> set xs \<Longrightarrow> snd x < n" for d1 xs
    by (rule returning_for_each [where P = "index_ok n", OF _ that(1)]) (simp add: that(2) index_precompute_static)
  show ?thesis
    unfolding SetPrivateKey_def Let_def returning_simps(3)
    by (rule returning_mono [OF remove]) (auto intro!: compute dest: index_ok_keyMapD)
qed

lemma index_RemovePeer: "index_ok n d \<Longrightarrow> returning (index_ok n) (RemovePeer key d)"
  by (auto simp: RemovePeer_def index_okD(1) [unfolded LookupPeer_def] intro!: index_unsafeRemovePeer split: option.split)

lemma index_RemoveAllPeers:
  assumes "index_ok n d"
  shows "returning (index_ok n) (RemoveAllPeers d)"
proof -
  have "returning (index_ok n) (for_each (\<lambda>(key, p). unsafeRemovePeer p key) (dev_keyMap d) d)"
    by (rule returning_for_each [where P = "index_ok n", OF _ assms])
      (auto dest!: index_ok_keyMapD [OF assms] intro: index_unsafeRemovePeer split: prod.split)
  then show ?thesis by (auto simp: RemoveAllPeers_def intro!: index_ok_keyMap elim!: returning_mono)
qed

lemma index_Device_Close:
  assumes "index_ok n d"
  shows "returning (index_ok n) (Device_Close w d)"
proof -
  note fold = foldl_invariant [where P = "index_ok n"]
  have flush: "index_ok n (FlushPacketQueues (stop_workers d1))" if "index_ok n d1" for d1
  proof -
    have "index_ok n (stop_workers d1)" unfolding stop_workers_def Let_def using that by (simp add: fold)
    then show ?thesis unfolding FlushPacketQueues_def Let_def by (simp add: fold)
  qed
  show ?thesis
    using assms index_Bind(3) [of n "d\<lparr>dev_isClosed := True, dev_state := (dev_state d)\<lparr>ds_changing := True\<rparr>\<rparr>" w]
    by (auto simp: Device_Close_def Let_def flush intro!: returning_mono [OF index_RemoveAllPeers [of n]]
      returningI [where m = "close_chan x" for x] returning_const)
qed

lemma index_RoutineTUNEventReader:
  assumes "index_ok n d"
  shows "returning (\<lambda>(b', d'). index_ok n d') (RoutineTUNEventReader w event b d)"
proof -
  define d1 where "d1 = (if event AND TUNEventMTUUpdate \<noteq> 0 then
      case w_mtu w of None \<Rightarrow> d | Some mtu \<Rightarrow> if dev_mtu d \<noteq> mtu then d\<lparr>dev_mtu := int32 mtu\<rparr> else d else d)"
  have "index_ok n d1" using assms by (simp add: d1_def split: option.split)
  then show ?thesis
    unfolding RoutineTUNEventReader_def d1_def [symmetric]
    by (auto simp: case_prod_unfold Let_def intro!: returning_mono [OF index_Device_Up [of n]] returning_mono [OF index_Device_Down [of n]])
qed

section \<open>New peers and the configuration protocol\<close>

lemma index_add_peer:
  assumes "index_ok n d" "p_handshake x = new_Handshake" "p_keypairs x = p_keypairs new_Peer"
  shows "index_ok (Suc n) (add_peer x d)"
proof -
  have n: "hp_next_peer (dev_heap d) = n" by (rule index_okD(7) [OF assms(1)])
  have unused: "peer_at d n = new_Peer" using assms(1) by (simp add: index_ok_defs)
  have "handshake_at (add_peer x d) q = handshake_at d q" "p_keypairs (peer_at (add_peer x d) q) = p_keypairs (peer_at d q)" for q
    using assms(2,3) n unused by (auto simp: handshake_at_def new_Peer_def)
  moreover have "peer_at (add_peer x d) q = peer_at d q" if "Suc n \<le> q" for q using that n by simp
  ultimately show ?thesis using assms(1) n by (auto simp: index_ok_defs simp del: peer_at_simps)
qed

lemma index_NewPeer:
  assumes "index_ok n d"
  shows "\<exists>m. index_ok m (snd (NewPeer w pk d)) \<and> n \<le> m \<and> (\<forall>p. fst (NewPeer w pk d) = Inr p \<longrightarrow> p < m)"
proof -
  let ?x = "new_Peer\<lparr>p_cookieGenerator := CookieGenerator_Init pk new_CookieGenerator\<rparr>"
  have n: "hp_next_peer (dev_heap d) = n" by (rule index_okD(7) [OF assms])
  have "index_ok (Suc n) (add_peer ?x d)" by (rule index_add_peer [OF assms]) (simp_all add: new_Peer_def)
  then have "index_ok (Suc n) (dev_keyMap_update (\<lambda>_. dev_keyMap d @ [(pk, n)]) (add_peer ?x d))"
    using less_SucI [OF index_ok_keyMapD [OF assms]] by (auto intro!: index_ok_keyMap)
  then have "\<not> dev_isClosed d \<Longrightarrow> \<not> MaxPeers \<le> length (dev_keyMap d) \<Longrightarrow> ?thesis"
    using \<open>index_ok (Suc n) (add_peer ?x d)\<close>
    by (intro exI [of _ "Suc n"]) (auto simp: NewPeer_def new_peer_def Let_def n)
  moreover have "dev_isClosed d \<or> MaxPeers \<le> length (dev_keyMap d) \<Longrightarrow> ?thesis"
    using assms by (intro exI [of _ n]) (auto simp: NewPeer_def)
  ultimately show ?thesis by blast
qed

text \<open>The configuration loop has a peer at hand once it has left the settings of the device.\<close>

definition ipc_ok :: "ipc_vars \<Rightarrow> Device \<Rightarrow> bool" where
  "ipc_ok v d \<longleftrightarrow> (\<exists>n. index_ok n d \<and> (ipc_deviceConfig v \<or> ipc_peer v < n))"

definition ipc_result_ok :: "(int + ipc_vars) \<times> Device \<Rightarrow> bool" where
  "ipc_result_ok r \<longleftrightarrow> (case r of (Inl err, d) \<Rightarrow> \<exists>n. index_ok n d | (Inr v, d) \<Rightarrow> ipc_ok v d)"

lemma ipc_okI: "index_ok n d \<Longrightarrow> ipc_deviceConfig v \<or> ipc_peer v < n \<Longrightarrow> ipc_ok v d"
  by (auto simp: ipc_ok_def)

lemma ipc_result_simps [simp]:
  "ipc_result_ok (Inl err, d) = (\<exists>n. index_ok n d)" "ipc_result_ok (Inr v, d) = ipc_ok v d"
  by (simp_all add: ipc_result_ok_def)

lemma index_dummy_peer: "index_ok n d \<Longrightarrow> index_ok (Suc n) (snd (dummy_peer v d)) \<and> ipc_peer (fst (dummy_peer v d)) < Suc n"
  using index_add_peer [of n d new_Peer] index_okD(7) [of n d] by (simp add: dummy_peer_def new_peer_def new_Peer_def)

lemma index_select_peer:
  assumes "index_ok n d" "\<not> ipc_deviceConfig v"
  shows "ipc_result_ok (select_peer w val v d)"
proof -
  have dummy: "ipc_ok (fst (dummy_peer v d)) (snd (dummy_peer v d))"
    using index_dummy_peer [OF assms(1), of v] by (auto simp: ipc_ok_def)
  show ?thesis
  proof (cases "NoisePublicKey_FromHex (replicate 32 0) val")
    case (Inr pk)
    obtain m where "index_ok m (snd (NewPeer w pk d))" "\<forall>p. fst (NewPeer w pk d) = Inr p \<longrightarrow> p < m"
      using index_NewPeer [OF assms(1)] by metis
    then show ?thesis
      using assms dummy index_okD(1) [OF assms(1), of pk]
      by (cases "NewPeer w pk d") (auto simp: select_peer_def Inr Let_def case_prod_unfold ipc_ok_def split: option.split sum.split)
  qed (use assms in \<open>auto simp: select_peer_def\<close>)
qed

lemma index_device_key:
  assumes "index_ok n d" "ipc_deviceConfig v"
  shows "returning (\<lambda>(r, d'). index_ok n d' \<and> (\<forall>v'. r = Inr v' \<and> \<not> ipc_deviceConfig v' \<longrightarrow> key = ''public_key''))
    (device_key w key val v d)"
proof -
  let ?P = "\<lambda>(r, d'). index_ok n d' \<and> (\<forall>v'. r = Inr v' \<and> \<not> ipc_deviceConfig v' \<longrightarrow> key = ''public_key'')"
  have bind: "index_ok n (snd (BindUpdate w (set_net x d)))" "index_ok n (snd (BindSetMark w m d))" for x m
    using assms(1) index_Bind by auto
  have key: "returning ?P (case RootPrivateKey_FromString val of (sk, Some err) \<Rightarrow> Some (Inl ipcErrorInvalid, d)
      | (sk, None) \<Rightarrow> do { d \<leftarrow> SetPrivateKey w sk d; Some (Inr v, d) })"
    using index_SetPrivateKey [OF assms(1)] assms by (auto elim!: returning_mono split: prod.split option.split)
  have port: "returning ?P (case r of Inl err \<Rightarrow> Some (Inl ipcErrorInvalid, d)
      | Inr m \<Rightarrow> let (err, d) = BindUpdate w (set_net (x m) d) in Some (if err \<noteq> None then Inl ipcErrorPortInUse else Inr v, d))" for r x
    using bind assms by (auto simp: case_prod_unfold Let_def split: sum.split)
  have mark: "returning ?P (case r of Inl err \<Rightarrow> Some (Inl ipcErrorInvalid, d)
      | Inr m \<Rightarrow> let (err, d) = BindSetMark w (x m) d in Some (if err \<noteq> None then Inl ipcErrorPortInUse else Inr v, d))" for r x
    using bind assms by (auto simp: case_prod_unfold Let_def split: sum.split)
  have peers: "returning ?P (if val \<noteq> ''true'' then Some (Inl ipcErrorInvalid, d) else do { d \<leftarrow> RemoveAllPeers d; Some (Inr v, d) })"
    using index_RemoveAllPeers [OF assms(1)] assms by (auto elim!: returning_mono)
  show ?thesis
    unfolding device_key_def by (intro returning_if key port mark peers) (use assms in simp_all)
qed

lemma index_set_keepalive:
  assumes "index_ok n d" "ipc_peer v < n"
  shows "returning ipc_result_ok (set_keepalive val v d)"
  using assms
  by (auto simp: set_keepalive_def Let_def case_prod_unfold
    intro!: ipc_okI [of n] returning_mono [OF index_SendKeepalive [OF _ assms(2)]] split: sum.split)

lemma index_add_allowed_ip:
  assumes "index_ok n d" "ipc_peer v < n"
  shows "returning ipc_result_ok (add_allowed_ip val v d)"
proof -
  have "index_ok n (d\<lparr>dev_allowedips := t\<rparr>)" if "Insert (dev_allowedips d) ip c (ipc_peer v) = Some t" for ip c t
  proof (rule index_ok_allowedips [OF assms(1)])
    show "trie_peers t \<subseteq> {..<n}"
      using that index_okD(6) [OF assms(1)] assms(2)
      by (fastforce simp: Insert_def trie_peers_def split: if_splits dest: insert_entry_peers)
  qed
  then show ?thesis
    using assms by (auto simp: add_allowed_ip_def Let_def intro!: ipc_okI [of n] returningI split: option.split)
qed

lemma index_peer_key:
  assumes "index_ok n d" "\<not> ipc_deviceConfig v" "key = ''public_key'' \<or> ipc_peer v < n"
  shows "returning ipc_result_ok (peer_key w key val v d)"
proof (cases "key = ''public_key''")
  case True
  then show ?thesis using index_select_peer [OF assms(1,2)] by (simp add: peer_key_def Let_def)
next
  case False
  with assms(3) have p: "ipc_peer v < n" by simp
  have dummy: "ipc_ok (fst (dummy_peer v d')) (snd (dummy_peer v d'))" if "index_ok n d'" for d'
    using index_dummy_peer [OF that, of v] by (auto simp: ipc_ok_def)
  have ok: "returning ipc_result_ok (Some (Inr v, d))" "returning ipc_result_ok (Some (Inl e, d))" for e
    using assms(1) p by (auto intro!: ipc_okI [of n])
  have remove: "returning ipc_result_ok (do { d \<leftarrow> (if b then Some d else RemovePeer k d); case dummy_peer v d of (v, d) \<Rightarrow> Some (Inr v, d) })" for b k
    using dummy index_RemovePeer [OF assms(1), of k] assms(1) by (auto simp: case_prod_unfold elim!: returning_mono)
  have psk: "returning ipc_result_ok (case r of Inl err \<Rightarrow> Some (Inl e, d)
      | Inr psk \<Rightarrow> Some (Inr v, set_handshake (ipc_peer v) ((handshake_at d (ipc_peer v))\<lparr>h_presharedKey := psk\<rparr>) d))" for r e
    using assms(1) p by (auto intro!: ipc_okI [of n] split: sum.split)
  have endpoint: "returning ipc_result_ok (case r of None \<Rightarrow> Some (Inl e, d)
      | Some e \<Rightarrow> Some (Inr v, set_peer (ipc_peer v) ((peer_at d (ipc_peer v))\<lparr>p_endpoint := Some e\<rparr>) d))" for r e
    using assms(1) p by (auto intro!: ipc_okI [of n] split: option.split)
  have replace: "returning ipc_result_ok (Some (Inr v, d\<lparr>dev_allowedips := RemoveByPeer (dev_allowedips d) (ipc_peer v)\<rparr>))"
    using index_ok_RemoveByPeer [OF assms(1), of "ipc_peer v"] p by (auto intro: ipc_okI)
  show ?thesis
    unfolding peer_key_def Let_def
    by (intro returning_if ok remove psk endpoint replace index_set_keepalive [OF assms(1) p] index_add_allowed_ip [OF assms(1) p])
      (simp add: False)
qed

lemma index_ipc_line: "ipc_ok v d \<Longrightarrow> returning ipc_result_ok (ipc_line w key val v d)"
proof -
  assume "ipc_ok v d"
  then obtain n where n: "index_ok n d" "ipc_deviceConfig v \<or> ipc_peer v < n" by (auto simp: ipc_ok_def)
  show ?thesis
  proof (cases "ipc_deviceConfig v")
    case True
    show ?thesis
      by (auto simp: ipc_line_def True case_prod_unfold intro!: ipc_okI [of n] returning_mono [OF index_device_key [OF n(1) True]]
        index_peer_key [of n] split: sum.split)
  next
    case False
    then show ?thesis using index_peer_key [OF n(1) False] n by (simp add: ipc_line_def)
  qed
qed

lemma index_ipc_loop: "ipc_ok v d \<Longrightarrow> returning (\<lambda>(r, d'). \<exists>n. index_ok n d') (ipc_loop w lines v d)"
proof (induction lines arbitrary: v d)
  case (Cons line lines)
  then show ?case
    by (auto simp: case_prod_unfold ipc_ok_def [of v] intro!: returning_mono [OF index_ipc_line] split: list.split sum.split)
qed (auto simp: ipc_ok_def)

lemma index_ipcHandle: "index_ok n d \<Longrightarrow> returning (\<lambda>(r, d'). \<exists>n. index_ok n d') (ipcHandle w op lines d)"
  by (auto simp: ipcHandle_def ipcSetOperation_def case_prod_unfold ipc_ok_def intro!: returning_mono [OF index_ipc_loop])

section \<open>All steps\<close>

definition index_inv :: "Device \<Rightarrow> bool" where
  "index_inv d \<longleftrightarrow> (\<exists>n. index_ok n d)"

lemma index_inv_new: "NewDevice w = Some d \<Longrightarrow> index_inv d"
proof -
  assume "NewDevice w = Some d"
  then have "dev_indexTable d = IndexTable_Init" "dev_keyMap d = []" "dev_allowedips d = \<lparr>IPv4 = NilEntry, IPv6 = NilEntry\<rparr>"
    "dev_heap d = dev_heap zero_Device"
    by (auto simp: NewDevice_def Let_def bind_eq_Some_conv Reset_def)
  then have "index_ok 0 d"
    by (auto simp: index_ok_defs exact_def IndexTable_Init_def trie_peers_def zero_Device_def peer_at_def handshake_at_def
      new_Peer_def new_Handshake_def slot_set_def slots_distinct_def indexed_states_def)
  then show ?thesis by (auto simp: index_inv_def)
qed

lemma index_inv_step:
  assumes "index_inv d" "good_indices w" "dev_step w d d'"
  shows "index_inv d'"
proof -
  obtain n where n: "index_ok n d" using assms(1) by (auto simp: index_inv_def)
  note live = index_okD(4,5) [OF n]
  have keep: "index_inv d'" if "m = Some d'" "returning (index_ok n) m" for m
    using that by (auto simp: index_inv_def)
  from assms(3) show ?thesis
  proof cases
    case (step_uapi op lines answer)
    from returningD [OF index_ipcHandle [OF n] this(1)] show ?thesis by (auto simp: index_inv_def)
  next
    case (step_tun_event event setUp setUp')
    from returningD [OF index_RoutineTUNEventReader [OF n] this(1)] show ?thesis by (auto simp: index_inv_def)
  next
    case step_nonce_flush
    then show ?thesis using index_RoutineNonce(2) [OF n live(1) assms(2)] by (auto simp: index_inv_def)
  next
    case step_collect
    then show ?thesis using n by (auto simp: index_inv_def)
  qed (erule keep, rule index_RoutineReadFromTUN index_RoutineNonce index_RoutineEncryption index_RoutineSequentialSender
    index_RoutineReceiveIncoming index_RoutineDecryption index_RoutineHandshake index_RoutineSequentialReceiver index_timer_fires
    index_Device_Close, (rule n assms(2) live | assumption)+)+
qed

interpretation index_invariant: device_invariant good_indices index_inv
  by unfold_locales (auto intro: index_inv_new index_inv_step)



end
