(* ===== verification/Sessions.thy ===== *)
theory Sessions
  imports Steps
begin

unbundle bit_operations_syntax

text \<open>
  Invariants of the device that see nothing of handshakes, indices, timers, sockets and configuration. Such an invariant has
  to be checked on the operations that move packets, derive sessions, start and stop peers; the locale \<open>session_invariant\<close>
  carries it from there through the handshake worker, the timers, the control of the device and the configuration
  protocol to every step. What the invariant may rely on of the device before a step is \<open>given\<close>.
\<close>

section \<open>The interface\<close>

lemma try_recv_closed [simp]: "ch_closed (snd (try_recv c)) = ch_closed c"
  by (auto simp: try_recv_def split: list.splits)

lemma try_send_closed [simp]: "returning (\<lambda>(sent, c'). ch_closed c' = ch_closed c) (try_send x c)"
  by (simp add: try_send_def)

locale session_invariant = handshake_frame P "\<lambda>_. True"
  for P :: "Device \<Rightarrow> bool" +
  fixes given :: "Device \<Rightarrow> bool"
  assumes P_blind [simp]: "P (dev_rate_update f1 d) = P d" "P (dev_cookieChecker_update f2 d) = P d"
    "P (dev_state_update f3 d) = P d" "P (dev_isUp_update f4 d) = P d" "P (dev_net_update f5 d) = P d"
    "P (dev_isClosed_update f6 d) = P d" "P (dev_staticIdentity_update f7 d) = P d" "P (dev_stop_update f8 d) = P d"
    "P (dev_mtu_update f9 d) = P d" "P (dev_keyMap_update f10 d) = P d" "P (dev_allowedips_update f11 d) = P d"
    "P (dev_written_update f12 d) = P d" "P (set_replay k f13 d) = P d"
    "P (set_peer p ((peer_at d p)\<lparr>p_persistentKeepaliveInterval := i\<rparr>) d) = P d"
    "P (set_in e ((in_at d e)\<lparr>ie_locked := b\<rparr>) d) = P d" "P (set_out o' ((out_at d o')\<lparr>oe_locked := b\<rparr>) d) = P d"
    and P_signals [simp]: "ch_closed (sg_newKeypairArrived s) = ch_closed (sg_newKeypairArrived (p_signals (peer_at d p))) \<Longrightarrow>
      ch_closed (sg_flushNonceQueue s) = ch_closed (sg_flushNonceQueue (p_signals (peer_at d p))) \<Longrightarrow> P (set_signals p s d) = P d"
    and P_handshake_queue [simp]: "ch_closed c = ch_closed (dq_handshake (dev_queue d)) \<Longrightarrow>
      P (d\<lparr>dev_queue := (dev_queue d)\<lparr>dq_handshake := c\<rparr>\<rparr>) = P d"
    and P_BeginSymmetricSession: "P d \<Longrightarrow> returning (\<lambda>(r, d'). P d') (BeginSymmetricSession w p d)"
    and P_ReceivedWithKeypair: "P d \<Longrightarrow> P (snd (ReceivedWithKeypair k p d))"
    and P_ZeroAndFlushAll: "P d \<Longrightarrow> returning P (ZeroAndFlushAll p d)"
    and P_SendKeepalive: "P d \<Longrightarrow> returning (\<lambda>(r, d'). P d') (SendKeepalive p d)"
    and P_Peer_Start: "P d \<Longrightarrow> P (Peer_Start w p d)"
    and P_Peer_Stop: "P d \<Longrightarrow> returning P (Peer_Stop p d)"
    and P_add_peer: "P d \<Longrightarrow> P (add_peer (new_Peer\<lparr>p_cookieGenerator := g\<rparr>) d)"
    and P_inbound: "P d \<Longrightarrow> P (set_queue p ((p_queue (peer_at d p))\<lparr>pq_inbound := snd (try_recv (pq_inbound (p_queue (peer_at d p))))\<rparr>) d)"
    and P_outbound: "P d \<Longrightarrow> P (set_queue p ((p_queue (peer_at d p))\<lparr>pq_outbound := snd (try_recv (pq_outbound (p_queue (peer_at d p))))\<rparr>) d)"
    and P_close: "P d \<Longrightarrow> P (FlushPacketQueues (stop_workers d))"
    and P_RoutineReadFromTUN: "P d \<Longrightarrow> given d \<Longrightarrow> returning P (RoutineReadFromTUN w packet d)"
    and P_RoutineNonce: "P d \<Longrightarrow> given d \<Longrightarrow> returning P (RoutineNonce_packet w p d)"
      "P d \<Longrightarrow> given d \<Longrightarrow> P (RoutineNonce_flush p d)" "P d \<Longrightarrow> given d \<Longrightarrow> returning P (RoutineNonce_arrived w p d)"
    and P_RoutineEncryption: "P d \<Longrightarrow> given d \<Longrightarrow> returning P (RoutineEncryption d)"
    and P_receive_transport: "P d \<Longrightarrow> given d \<Longrightarrow> length packet \<le> MaxMessageSize \<Longrightarrow> returning P (receive_transport w packet endpoint d)"
    and P_RoutineDecryption: "P d \<Longrightarrow> given d \<Longrightarrow> returning P (RoutineDecryption d)"
begin

section \<open>Handshakes\<close>

lemma P_initiation: "P d \<Longrightarrow> returning (\<lambda>(r, d'). P d') (SendHandshakeInitiation w b p d)"
  by (rule returning_mono [OF view_SendHandshakeInitiation [OF TrueI]]) auto

lemma P_create: "P d \<Longrightarrow> returning (\<lambda>(r, d'). P d') (CreateMessageResponse w p d)"
  by (rule returning_mono [OF view_CreateMessageResponse [OF TrueI]]) auto

lemma P_macs: "P d \<Longrightarrow> returning (\<lambda>(r, d'). P d') (peer_AddMacs w p packet d)"
  by (rule returning_mono [OF view_AddMacs [OF TrueI]]) auto

lemma P_consume:
  assumes "P d"
  shows "returning (\<lambda>(r, d'). P d') (ConsumeMessageInitiation w m d)" "returning (\<lambda>(r, d'). P d') (ConsumeMessageResponse w m' d)"
  by (rule returning_mono [OF view_ConsumeMessageInitiation] returning_mono [OF view_ConsumeMessageResponse]; use assms in auto)+

lemma P_SendHandshakeResponse: "P d \<Longrightarrow> returning (\<lambda>(r, d'). P d') (SendHandshakeResponse w p d)"
  by (auto simp: SendHandshakeResponse_def Let_def case_prod_unfold
    intro!: returning_mono [OF P_create] returning_mono [OF P_macs] returning_mono [OF P_BeginSymmetricSession] split: sum.split option.split)

lemma P_keepKeyFresh:
  assumes "P d"
  shows "returning P (keepKeyFreshSending w p d)" "returning P (keepKeyFreshReceiving w p d)"
  using assms
  by (auto simp: keepKeyFreshSending_def keepKeyFreshReceiving_def Let_def case_prod_unfold
    intro!: returning_mono [OF P_initiation] split: option.split)

lemma P_SendHandshakeCookie: "P d \<Longrightarrow> returning (\<lambda>(r, d'). P d') (SendHandshakeCookie w elem d)"
  by (auto simp: SendHandshakeCookie_def Let_def case_prod_unfold intro!: returningI split: option.split)

lemma P_admit_handshake: "P d \<Longrightarrow> returning (\<lambda>(r, d'). P d') (admit_handshake w elem d)"
  by (auto simp: admit_handshake_def IsUnderLoad_def Let_def case_prod_unfold
    intro!: returningI [where m = "CheckMAC1 a b" for a b] returningI [where m = "CheckMAC2 a b e g" for a b e g]
      returningI [where m = "Allow a b e" for a b e] returning_mono [OF P_SendHandshakeCookie])

lemma P_handle_cookie_reply: "P d \<Longrightarrow> returning P (handle_cookie_reply w elem d)"
  by (auto simp: handle_cookie_reply_def Let_def case_prod_unfold intro!: returningI split: option.split)

lemma P_SetEndpointFromPacket [simp]: "P (SetEndpointFromPacket w e p d) = P d"
  by (simp add: SetEndpointFromPacket_def)

lemma P_signal_new_keypair: "P d \<Longrightarrow> returning P (signal_new_keypair p d)"
  by (auto simp: signal_new_keypair_def Let_def case_prod_unfold intro!: returning_mono [OF try_send_closed])

lemma P_FlushNonceQueue: "P d \<Longrightarrow> returning P (FlushNonceQueue p d)"
  by (auto simp: FlushNonceQueue_def Let_def case_prod_unfold intro!: returning_mono [OF try_send_closed])

lemma P_handle:
  assumes "P d"
  shows "returning P (handle_initiation w elem d)" "returning P (handle_response w elem d)"
  using assms
  by (auto simp: handle_initiation_def handle_response_def Let_def case_prod_unfold
    intro!: returning_mono [OF P_consume(1)] returning_mono [OF P_consume(2)] returning_mono [OF P_SendHandshakeResponse]
      returning_mono [OF P_BeginSymmetricSession] returning_mono [OF P_SendKeepalive] P_signal_new_keypair split: option.split)

lemma P_RoutineHandshake: "P d \<Longrightarrow> returning P (RoutineHandshake w d)"
  by (auto simp: RoutineHandshake_def Let_def case_prod_unfold
    intro!: P_handle_cookie_reply returning_mono [OF P_admit_handshake] P_handle split: option.split)

section \<open>Datagrams and packets\<close>

lemma P_addToHandshakeQueue: "P d \<Longrightarrow> returning (\<lambda>(r, d'). P d') (addToHandshakeQueue e d)"
  by (auto simp: addToHandshakeQueue_def try_send_def)

lemma P_RoutineReceiveIncoming:
  assumes "P d" "given d" "length packet \<le> MaxMessageSize"
  shows "returning P (RoutineReceiveIncoming w packet endpoint d)"
  by (rule returning_RoutineReceiveIncoming [where P = P]) (simp_all add: assms P_receive_transport P_addToHandshakeQueue)

lemma P_RoutineSequentialSender: "P d \<Longrightarrow> returning P (RoutineSequentialSender w p d)"
  using P_outbound [of d p]
  by (auto simp: RoutineSequentialSender_def Let_def case_prod_unfold intro!: P_keepKeyFresh split: option.split)

lemma P_deliver: "P d \<Longrightarrow> returning P (deliver w p k endpoint packet d)"
  using P_ReceivedWithKeypair [of "SetEndpointFromPacket w endpoint p d" k p]
  by (auto simp: deliver_def Let_def case_prod_unfold
    intro!: returning_mono [OF P_signal_new_keypair] returning_mono [OF P_keepKeyFresh(2)]
      returningI [where m = "strip_and_verify a b e" for a b e] split: option.split)

lemma P_RoutineSequentialReceiver: "P d \<Longrightarrow> returning P (RoutineSequentialReceiver w p d)"
  using P_inbound [of d p]
  by (auto simp: RoutineSequentialReceiver_def Let_def case_prod_unfold
    intro!: returningI [where m = "ie_keypair_used x" for x] P_deliver split: option.split)

section \<open>Timers\<close>

lemma P_clear_src [simp]: "P (clear_src p d) = P d"
  by (simp add: clear_src_def)

lemma P_expired:
  assumes "P d"
  shows "returning P (expiredRetransmitHandshake w p d)" "returning P (expiredSendKeepalive p d)"
    "returning P (expiredNewHandshake w p d)" "returning P (expiredZeroKeyMaterial p d)"
    "returning P (expiredPersistentKeepalive p d)"
  using assms P_ZeroAndFlushAll [OF assms]
  by (auto simp: expiredRetransmitHandshake_def expiredSendKeepalive_def expiredNewHandshake_def expiredZeroKeyMaterial_def
      expiredPersistentKeepalive_def Let_def case_prod_unfold
    intro!: returning_mono [OF P_initiation] returning_mono [OF P_FlushNonceQueue] returning_mono [OF P_SendKeepalive])

lemma P_timer_fires: "P d \<Longrightarrow> returning P (timer_fires w t p d)"
  by (auto simp: timer_fires_def Let_def intro!: P_expired split: timer_name.split prod.split)

section \<open>Control\<close>

lemma P_unsafeRemovePeer: "P d \<Longrightarrow> returning P (unsafeRemovePeer p key d)"
  by (auto simp: unsafeRemovePeer_def intro!: returning_mono [OF P_Peer_Stop])

lemma P_clear_sources [simp]: "P (clear_sources d) = P d"
  unfolding clear_sources_def by (rule foldl_keeps) simp

lemma P_Bind [simp]:
  "P (set_net x d) = P d" "P (snd (BindUpdate w d)) = P d" "P (snd (BindSetMark w m d)) = P d" "P (snd (BindClose_op w d)) = P d"
  by (auto simp: set_net_def BindUpdate_def BindSetMark_def BindClose_op_def unsafeCloseBind_def Let_def split: option.split)

lemma P_change_state: "P d \<Longrightarrow> returning P (change_state w d)"
proof -
  assume ok: "P d"
  have up: "P (foldl (\<lambda>d p. Peer_Start w p d) d1 xs)" if "P d1" for d1 xs
    by (rule foldl_invariant [where P = P, OF that]) (rule P_Peer_Start)
  have down: "returning P (for_each Peer_Stop xs d1)" if "P d1" for d1 xs
    by (rule returning_for_each [where P = P, OF _ that]) (rule P_Peer_Stop)
  show ?thesis
    using ok by (auto simp: change_state_def Let_def case_prod_unfold intro!: up returning_mono [OF down])
qed

lemma P_deviceUpdateState: "P d \<Longrightarrow> returning P (deviceUpdateState w d)"
  by (rule returning_deviceUpdateState) (simp_all add: P_change_state)

lemma P_Device_Up_Down:
  assumes "P d"
  shows "returning P (Device_Up w d)" "returning P (Device_Down w d)"
  using assms by (simp_all add: Device_Up_def Device_Down_def P_deviceUpdateState)

lemma P_SetPrivateKey: "P d \<Longrightarrow> returning P (SetPrivateKey w sk d)"
proof -
  assume ok: "P d"
  have lock: "returning P (remove_locked p key d1)" if "P d1" for p key d1
    using that by (simp add: remove_locked_def P_unsafeRemovePeer)
  have remove: "returning P (for_each (\<lambda>(key, p) d. if NoisePublicKey_Equals (h_remoteStatic (handshake_at d p)) pk
      then remove_locked p key d else Some d) xs d)" for pk xs
    by (rule returning_for_each [where P = P, OF _ ok]) (auto intro: lock split: prod.split)
  have compute: "returning P (for_each (precompute_static w sk) xs d1)" if "P d1" for d1 xs
    by (rule returning_for_each [where P = P, OF _ that])
      (auto simp: precompute_static_def Let_def intro: lock split: prod.split)
  show ?thesis
    unfolding SetPrivateKey_def Let_def returning_simps(3) by (rule returning_mono [OF remove]) (auto intro!: compute)
qed

lemma P_RemovePeer:
  assumes "P d"
  shows "returning P (RemovePeer key d)" "returning P (RemoveAllPeers d)"
proof -
  have all: "returning P (for_each (\<lambda>(key, p). unsafeRemovePeer p key) (dev_keyMap d) d)"
    by (rule returning_for_each [where P = P, OF _ assms]) (auto intro: P_unsafeRemovePeer split: prod.split)
  show "returning P (RemovePeer key d)" "returning P (RemoveAllPeers d)"
    using assms all by (auto simp: RemovePeer_def RemoveAllPeers_def intro!: P_unsafeRemovePeer elim!: returning_mono split: option.split)
qed

lemma P_Device_Close: "P d \<Longrightarrow> returning P (Device_Close w d)"
  by (auto simp: Device_Close_def Let_def P_close intro!: returning_mono [OF P_RemovePeer(2)]
    returningI [where m = "close_chan x" for x] returning_const)

lemma P_RoutineTUNEventReader: "P d \<Longrightarrow> returning (\<lambda>(b', d'). P d') (RoutineTUNEventReader w event b d)"
proof -
  assume ok: "P d"
  define d1 where "d1 = (if event AND TUNEventMTUUpdate \<noteq> 0 then
      case w_mtu w of None \<Rightarrow> d | Some mtu \<Rightarrow> if dev_mtu d \<noteq> mtu then d\<lparr>dev_mtu := int32 mtu\<rparr> else d else d)"
  have "P d1" using ok by (simp add: d1_def split: option.split)
  then show ?thesis
    unfolding RoutineTUNEventReader_def d1_def [symmetric]
    by (auto simp: case_prod_unfold Let_def intro!: returning_mono [OF P_Device_Up_Down(1)] returning_mono [OF P_Device_Up_Down(2)])
qed

section \<open>The configuration protocol\<close>

lemma P_NewPeer: "P d \<Longrightarrow> P (snd (NewPeer w pk d))"
  by (auto simp: NewPeer_def new_peer_def Let_def intro!: P_Peer_Start P_add_peer)

lemma P_dummy_peer: "P d \<Longrightarrow> P (snd (dummy_peer v d))"
  using P_add_peer [of d "p_cookieGenerator new_Peer"] by (simp add: dummy_peer_def new_peer_def)

lemma P_select_peer: "P d \<Longrightarrow> P (snd (select_peer w val v d))"
proof -
  assume ok: "P d"
  from P_NewPeer [OF ok, of w] P_dummy_peer [OF ok, of v] ok show ?thesis
    by (auto simp: select_peer_def Let_def case_prod_unfold split: sum.split option.split prod.split)
qed

lemma P_device_key: "P d \<Longrightarrow> returning (\<lambda>(r, d'). P d') (device_key w key val v d)"
proof -
  assume ok: "P d"
  let ?P = "\<lambda>(r, d'). P d'"
  have key: "returning ?P (case RootPrivateKey_FromString val of (sk, Some err) \<Rightarrow> Some (Inl ipcErrorInvalid, d)
      | (sk, None) \<Rightarrow> do { d \<leftarrow> SetPrivateKey w sk d; Some (Inr v, d) })"
    using P_SetPrivateKey [OF ok] ok by (auto elim!: returning_mono split: prod.split option.split)
  have port: "returning ?P (case r of Inl err \<Rightarrow> Some (Inl ipcErrorInvalid, d)
      | Inr m \<Rightarrow> let (err, d) = BindUpdate w (set_net (x m) d) in Some (if err \<noteq> None then Inl ipcErrorPortInUse else Inr v, d))" for r x
    using ok by (auto simp: case_prod_unfold Let_def split: sum.split)
  have mark: "returning ?P (case r of Inl err \<Rightarrow> Some (Inl ipcErrorInvalid, d)
      | Inr m \<Rightarrow> let (err, d) = BindSetMark w (x m) d in Some (if err \<noteq> None then Inl ipcErrorPortInUse else Inr v, d))" for r x
    using ok by (auto simp: case_prod_unfold Let_def split: sum.split)
  have peers: "returning ?P (if val \<noteq> ''true'' then Some (Inl ipcErrorInvalid, d) else do { d \<leftarrow> RemoveAllPeers d; Some (Inr v, d) })"
    using P_RemovePeer(2) [OF ok] ok by (auto elim!: returning_mono)
  show ?thesis unfolding device_key_def by (intro returning_if key port mark peers) (use ok in simp_all)
qed

lemma P_peer_key: "P d \<Longrightarrow> returning (\<lambda>(r, d'). P d') (peer_key w key val v d)"
proof -
  assume ok: "P d"
  let ?P = "\<lambda>(r, d'). P d'" and ?p = "ipc_peer v"
  have select: "returning ?P (Some (select_peer w val v d))" using P_select_peer [OF ok] by (simp add: case_prod_unfold)
  have same: "returning ?P (Some (r, d))" for r :: "int + ipc_vars" using ok by simp
  have remove: "returning ?P (do { d \<leftarrow> (if b then Some d else RemovePeer k d); case dummy_peer v d of (v, d) \<Rightarrow> Some (Inr v, d) })" for b k
    using P_dummy_peer P_RemovePeer(1) [OF ok, of k] ok by (auto simp: case_prod_unfold elim!: returning_mono)
  have psk: "returning ?P (case r of Inl err \<Rightarrow> Some (Inl e, d)
      | Inr psk \<Rightarrow> Some (Inr v, set_handshake ?p ((handshake_at d ?p)\<lparr>h_presharedKey := psk\<rparr>) d))" for r e
    using ok by (auto split: sum.split)
  have endpoint: "returning ?P (case r of None \<Rightarrow> Some (Inl e, d)
      | Some e \<Rightarrow> Some (Inr v, set_peer ?p ((peer_at d ?p)\<lparr>p_endpoint := Some e\<rparr>) d))" for r e
    using ok by (auto split: option.split)
  have keepalive: "returning ?P (set_keepalive val v d)"
    using ok by (auto simp: set_keepalive_def Let_def case_prod_unfold intro!: returning_mono [OF P_SendKeepalive] split: sum.split)
  have allowed: "returning ?P (add_allowed_ip val v d)"
    using ok by (auto simp: add_allowed_ip_def Let_def intro!: returning_const split: option.split)
  have replace: "returning ?P (Some (Inr v, d\<lparr>dev_allowedips := t\<rparr>))" for t using ok by simp
  show ?thesis
    unfolding peer_key_def Let_def by (intro returning_if select same remove psk endpoint keepalive allowed replace)
qed

lemma P_ipc_loop: "P d \<Longrightarrow> returning (\<lambda>(r, d'). P d') (ipc_loop w lines v d)"
proof (induction lines arbitrary: v d)
  case (Cons line lines)
  have line: "returning (\<lambda>(r, d'). P d') (ipc_line w key val v d)" for key val
    using Cons.prems
    by (auto simp: ipc_line_def case_prod_unfold intro!: returning_mono [OF P_device_key] P_peer_key [unfolded case_prod_unfold]
      split: sum.split)
  with Cons show ?case
    by (auto simp: case_prod_unfold intro!: returning_mono [OF line] split: list.split sum.split)
qed simp

lemma P_ipcHandle: "P d \<Longrightarrow> returning (\<lambda>(r, d'). P d') (ipcHandle w op lines d)"
  by (auto simp: ipcHandle_def ipcSetOperation_def case_prod_unfold intro!: returning_mono [OF P_ipc_loop])

section \<open>All steps\<close>

lemma P_step:
  assumes "P d" "given d" "dev_step w d d'"
  shows "P d'"
proof -
  have keep: "P d'" if "m = Some d'" "returning P m" for m using that by auto
  from assms(3) show ?thesis
  proof cases
    case (step_uapi op lines answer)
    from returningD [OF P_ipcHandle [OF assms(1)] this(1)] show ?thesis by simp
  next
    case (step_tun_event event setUp setUp')
    from returningD [OF P_RoutineTUNEventReader [OF assms(1)] this(1)] show ?thesis by simp
  next
    case (step_datagram packet endpoint)
    from returningD [OF P_RoutineReceiveIncoming [OF assms(1,2) this(1)] this(2)] show ?thesis .
  next
    case step_nonce_flush
    then show ?thesis using P_RoutineNonce(2) [OF assms(1,2)] by simp
  next
    case step_collect
    then show ?thesis using assms(1) by simp
  qed (erule keep, rule P_RoutineReadFromTUN P_RoutineNonce P_RoutineEncryption P_RoutineSequentialSender P_RoutineDecryption
    P_RoutineHandshake P_RoutineSequentialReceiver P_timer_fires P_Device_Close, (rule assms(1,2))+)+
qed

end

end
