(* ===== verification/Nonces.thy ===== *)
theory Nonces
  imports Sessions
begin

unbundle bit_operations_syntax

text \<open>
  No two transport messages of a device are encrypted under the same key pair with the same counter: every packet that
  is given a counter is a different element, an element is given a counter once, and it is handed to encryption once.
\<close>

section \<open>The invariant\<close>

text \<open>The packets of a peer that wait for a counter: the one in the hands of the nonce routine and those of the nonce queue.\<close>

definition waiting_in :: "PeerQueue \<Rightarrow> out_ref list" where
  "waiting_in q = (case pq_held q of None \<Rightarrow> [] | Some e \<Rightarrow> [e]) @ ch_buf (pq_nonce q)"

definition waiting :: "Device \<Rightarrow> peer_ref \<Rightarrow> out_ref list" where
  "waiting d p = waiting_in (p_queue (peer_at d p))"

definition assigned :: "Device \<Rightarrow> out_ref \<Rightarrow> (keypair_ref \<times> u64) option" where
  "assigned d e = map_option (\<lambda>k. (k, oe_nonce (out_at d e))) (oe_keypair (out_at d e))"

definition known_keypairs :: "Device \<Rightarrow> bool" where
  "known_keypairs d \<longleftrightarrow> (\<forall>p k. Some k \<in> {ks_current (p_keypairs (peer_at d p)), ks_previous (p_keypairs (peer_at d p)),
     ks_next (p_keypairs (peer_at d p))} \<longrightarrow> k < hp_next_keypair (dev_heap d))"

definition waiting_ok :: "Device \<Rightarrow> bool" where
  "waiting_ok d \<longleftrightarrow> (\<forall>p. distinct (waiting d p)) \<and>
     (\<forall>p q e. e \<in> set (waiting d p) \<longrightarrow> e \<in> set (waiting d q) \<longrightarrow> p = q) \<and>
     (\<forall>p e. e \<in> set (waiting d p) \<longrightarrow> e < hp_next_out (dev_heap d) \<and> assigned d e = None)"

definition assigned_ok :: "Device \<Rightarrow> bool" where
  "assigned_ok d \<longleftrightarrow> (\<forall>e \<ge> hp_next_out (dev_heap d). assigned d e = None) \<and>
     (\<forall>e k n. assigned d e = Some (k, n) \<longrightarrow> k < hp_next_keypair (dev_heap d) \<and> n < kp_sendNonce (keypair_at d k)) \<and>
     (\<forall>e e' x. assigned d e = Some x \<longrightarrow> assigned d e' = Some x \<longrightarrow> e = e') \<and>
     (\<forall>k. kp_sendNonce (keypair_at d k) \<le> RejectAfterMessages)"

definition encryption_ok :: "Device \<Rightarrow> bool" where
  "encryption_ok d \<longleftrightarrow> distinct (ch_buf (dq_encryption (dev_queue d))) \<and>
     (\<forall>e \<in> set (ch_buf (dq_encryption (dev_queue d))). assigned d e \<noteq> None)"

definition nonce_ok :: "Device \<Rightarrow> bool" where
  "nonce_ok d \<longleftrightarrow> waiting_ok d \<and> assigned_ok d \<and> encryption_ok d \<and> known_keypairs d"

lemmas nonce_ok_defs = nonce_ok_def waiting_ok_def assigned_ok_def encryption_ok_def known_keypairs_def

text \<open>The packet \<open>e\<close> of the peer \<open>p\<close> has no counter yet and waits nowhere but possibly in the hands of the nonce routine.\<close>

definition in_hand :: "out_ref \<Rightarrow> peer_ref \<Rightarrow> Device \<Rightarrow> bool" where
  "in_hand e p d \<longleftrightarrow> nonce_ok d \<and> e < hp_next_out (dev_heap d) \<and> assigned d e = None \<and>
     (\<forall>q. q \<noteq> p \<longrightarrow> e \<notin> set (waiting d q)) \<and> e \<notin> set (ch_buf (pq_nonce (p_queue (peer_at d p))))"

text \<open>Two devices that agree on these agree on both.\<close>

definition nonce_view :: "Device \<Rightarrow> (peer_ref \<Rightarrow> out_ref option \<times> out_ref list) \<times> (out_ref \<Rightarrow> (keypair_ref \<times> u64) option) \<times> nat \<times> nat \<times>
    (keypair_ref \<Rightarrow> u64) \<times> (peer_ref \<Rightarrow> Keypairs) \<times> out_ref list" where
  "nonce_view d = (\<lambda>p. (pq_held (p_queue (peer_at d p)), ch_buf (pq_nonce (p_queue (peer_at d p)))), assigned d, hp_next_out (dev_heap d),
     hp_next_keypair (dev_heap d), \<lambda>k. kp_sendNonce (keypair_at d k), \<lambda>p. p_keypairs (peer_at d p), ch_buf (dq_encryption (dev_queue d)))"

lemma nonce_view_cong:
  assumes "nonce_view d' = nonce_view d"
  shows "nonce_ok d' = nonce_ok d" "in_hand e p d' = in_hand e p d"
proof -
  have v: "\<And>p. pq_held (p_queue (peer_at d' p)) = pq_held (p_queue (peer_at d p))"
    "\<And>p. ch_buf (pq_nonce (p_queue (peer_at d' p))) = ch_buf (pq_nonce (p_queue (peer_at d p)))"
    "assigned d' = assigned d" "hp_next_out (dev_heap d') = hp_next_out (dev_heap d)"
    "hp_next_keypair (dev_heap d') = hp_next_keypair (dev_heap d)" "\<And>k. kp_sendNonce (keypair_at d' k) = kp_sendNonce (keypair_at d k)"
    "\<And>p. p_keypairs (peer_at d' p) = p_keypairs (peer_at d p)"
    "ch_buf (dq_encryption (dev_queue d')) = ch_buf (dq_encryption (dev_queue d))"
    using assms by (auto simp: nonce_view_def fun_eq_iff)
  then have "waiting d' = waiting d" by (simp add: fun_eq_iff waiting_def waiting_in_def)
  with v show "nonce_ok d' = nonce_ok d" "in_hand e p d' = in_hand e p d"
    by (simp_all add: nonce_ok_defs in_hand_def)
qed

lemma nonce_view_set_peer [simp]:
  assumes "p_keypairs x = p_keypairs (peer_at d p)" "pq_held (p_queue x) = pq_held (p_queue (peer_at d p))"
    "ch_buf (pq_nonce (p_queue x)) = ch_buf (pq_nonce (p_queue (peer_at d p)))"
  shows "nonce_view (set_peer p x d) = nonce_view d"
  using assms by (auto simp: nonce_view_def fun_eq_iff assigned_def)

lemma nonce_view_blind [simp]:
  "nonce_view (set_in i y d) = nonce_view d" "nonce_view (add_in y d) = nonce_view d"
  "nonce_view (dev_sent_update f2 d) = nonce_view d" "nonce_view (dev_indexTable_update f13 d) = nonce_view d"
  "nonce_view (dev_written_update f3 d) = nonce_view d" "nonce_view (dev_rate_update f4 d) = nonce_view d"
  "nonce_view (dev_cookieChecker_update f5 d) = nonce_view d" "nonce_view (dev_state_update f6 d) = nonce_view d"
  "nonce_view (dev_isUp_update f7 d) = nonce_view d" "nonce_view (dev_net_update f8 d) = nonce_view d"
  "nonce_view (dev_isClosed_update f9 d) = nonce_view d" "nonce_view (dev_staticIdentity_update f10 d) = nonce_view d"
  "nonce_view (dev_stop_update f11 d) = nonce_view d" "nonce_view (dev_mtu_update f12 d) = nonce_view d"
  "nonce_view (dev_keyMap_update f14 d) = nonce_view d" "nonce_view (dev_allowedips_update f15 d) = nonce_view d"
  by (auto simp: nonce_view_def fun_eq_iff assigned_def)

lemma nonce_view_set_out [simp]:
  "oe_keypair x = oe_keypair (out_at d e) \<Longrightarrow> oe_nonce x = oe_nonce (out_at d e) \<Longrightarrow> nonce_view (set_out e x d) = nonce_view d"
  by (auto simp: nonce_view_def fun_eq_iff assigned_def)

lemma nonce_view_set_keypair [simp]:
  "kp_sendNonce x = kp_sendNonce (keypair_at d k) \<Longrightarrow> nonce_view (set_keypair k x d) = nonce_view d"
  by (auto simp: nonce_view_def fun_eq_iff assigned_def)

lemma nonce_view_queue [simp]:
  "ch_buf (dq_encryption (f (dev_queue d))) = ch_buf (dq_encryption (dev_queue d)) \<Longrightarrow> nonce_view (dev_queue_update f d) = nonce_view d"
  by (auto simp: nonce_view_def fun_eq_iff assigned_def)

lemma nonce_view_updates [simp]:
  "nonce_view (set_timers p t d) = nonce_view d" "nonce_view (set_signals p s d) = nonce_view d"
  "nonce_view (set_awaiting b p d) = nonce_view d" "nonce_view (set_handshake p h d) = nonce_view d"
  "nonce_view (Drop e d) = nonce_view d" "nonce_view (In_Drop i d) = nonce_view d" "nonce_view (set_replay k f d) = nonce_view d"
  "nonce_view (set_net x d) = nonce_view d" "nonce_view (DeleteKeypair key d) = nonce_view d"
  by (simp_all add: set_timers_def set_signals_def set_awaiting_def set_queue_def set_handshake_def Drop_def In_Drop_def set_replay_def
    set_net_def DeleteKeypair_def Let_def split: option.split)

interpretation nonces: handshake_frame nonce_view "\<lambda>_. True"
  by unfold_locales simp_all

lemmas nonce_views = nonce_view_set_peer nonce_view_blind nonce_view_set_out nonce_view_set_keypair nonce_view_queue nonce_view_updates
  nonces.view_timer_events [OF TrueI] nonces.view_Bind_Send nonces.view_SendBuffer

lemmas nonce_ok_blind [simp] = nonce_views [THEN nonce_view_cong(1)]
lemmas in_hand_blind [simp] = nonce_views [THEN nonce_view_cong(2)]

section \<open>The moves of a packet\<close>

lemma waiting_set_queue: "waiting (set_queue p q d) r = (if r = p then waiting_in q else waiting d r)"
  by (simp add: waiting_def set_queue_def)

lemma set_queue_rest [simp]:
  "assigned (set_queue p q d) = assigned d" "known_keypairs (set_queue p q d) = known_keypairs d"
  "hp_next_out (dev_heap (set_queue p q d)) = hp_next_out (dev_heap d)"
  "hp_next_keypair (dev_heap (set_queue p q d)) = hp_next_keypair (dev_heap d)"
  "keypair_at (set_queue p q d) k = keypair_at d k" "dev_queue (set_queue p q d) = dev_queue d"
  "p_queue (peer_at (set_queue p q d) r) = (if r = p then q else p_queue (peer_at d r))"
  by (auto simp: set_queue_def assigned_def known_keypairs_def fun_eq_iff)

lemma assigned_ok_cong:
  "assigned d' = assigned d \<Longrightarrow> hp_next_out (dev_heap d') = hp_next_out (dev_heap d) \<Longrightarrow>
   hp_next_keypair (dev_heap d') = hp_next_keypair (dev_heap d) \<Longrightarrow> (\<And>k. kp_sendNonce (keypair_at d' k) = kp_sendNonce (keypair_at d k)) \<Longrightarrow>
   assigned_ok d' = assigned_ok d"
  by (simp add: assigned_ok_def)

lemma set_queue_ok [simp]:
  "assigned_ok (set_queue p q d) = assigned_ok d" "encryption_ok (set_queue p q d) = encryption_ok d"
  by (simp_all add: assigned_ok_def encryption_ok_def)

lemma waiting_ok_queue:
  assumes "waiting_ok d" "distinct (waiting_in q)"
    "\<And>x r. x \<in> set (waiting_in q) \<Longrightarrow> x \<in> set (waiting d r) \<Longrightarrow> r = p"
    "\<And>x. x \<in> set (waiting_in q) \<Longrightarrow> x < hp_next_out (dev_heap d) \<and> assigned d x = None"
  shows "waiting_ok (set_queue p q d)"
  unfolding waiting_ok_def waiting_set_queue
  using assms by (auto simp: waiting_ok_def split: if_splits)

lemma nonce_enqueue:
  assumes "in_hand e p d" "distinct (waiting_in q)" "set (waiting_in q) \<subseteq> insert e (set (waiting d p))"
  shows "nonce_ok (set_queue p q d)"
proof -
  have e: "e < hp_next_out (dev_heap d)" "assigned d e = None" "\<And>r. e \<in> set (waiting d r) \<Longrightarrow> r = p" and ok: "nonce_ok d"
    using assms(1) by (auto simp: in_hand_def)
  then have w: "\<And>r s x. x \<in> set (waiting d r) \<Longrightarrow> x \<in> set (waiting d s) \<Longrightarrow> r = s"
    "\<And>r x. x \<in> set (waiting d r) \<Longrightarrow> x < hp_next_out (dev_heap d) \<and> assigned d x = None"
    by (auto simp: nonce_ok_def waiting_ok_def)
  have "waiting_ok (set_queue p q d)"
    by (rule waiting_ok_queue) (use ok assms(2,3) e w in \<open>auto simp: nonce_ok_def\<close>)
  then show ?thesis using ok by (simp add: nonce_ok_def)
qed

lemma nonce_shrink:
  assumes "nonce_ok d" "distinct (waiting_in q)" "set (waiting_in q) \<subseteq> set (waiting d p)"
  shows "nonce_ok (set_queue p q d)"
proof -
  have w: "\<And>r s x. x \<in> set (waiting d r) \<Longrightarrow> x \<in> set (waiting d s) \<Longrightarrow> r = s"
    "\<And>r x. x \<in> set (waiting d r) \<Longrightarrow> x < hp_next_out (dev_heap d) \<and> assigned d x = None"
    using assms(1) by (auto simp: nonce_ok_def waiting_ok_def)
  have "waiting_ok (set_queue p q d)"
    by (rule waiting_ok_queue) (use assms w in \<open>auto simp: nonce_ok_def\<close>)
  then show ?thesis using assms(1) by (simp add: nonce_ok_def)
qed

lemma nonce_new:
  assumes "nonce_ok d" "oe_keypair x = None"
  shows "in_hand (hp_next_out (dev_heap d)) p (add_out x d)" "hp_next_out (dev_heap d) \<notin> set (waiting (add_out x d) p)"
proof -
  let ?e = "hp_next_out (dev_heap d)" and ?d = "add_out x d"
  have w: "waiting ?d r = waiting d r" for r by (simp add: waiting_def)
  have none: "assigned d ?e = None" using assms(1) by (simp add: nonce_ok_def assigned_ok_def)
  then have a: "assigned ?d e = assigned d e" for e using assms(2) by (simp add: assigned_def)
  have "waiting_ok ?d" "assigned_ok ?d" "encryption_ok ?d" "known_keypairs ?d"
    using assms(1) by (auto simp: nonce_ok_defs w a less_Suc_eq)
  then have "nonce_ok ?d" by (simp add: nonce_ok_def)
  moreover have new: "?e \<notin> set (waiting d r)" for r using assms(1) by (auto simp: nonce_ok_def waiting_ok_def)
  ultimately show "in_hand ?e p ?d" using none by (auto simp: in_hand_def w a waiting_def waiting_in_def)
  show "?e \<notin> set (waiting ?d p)" using new by (simp add: w)
qed

lemma waiting_held_subset:
  assumes "nonce_ok d"
  shows "distinct (ch_buf (pq_nonce (p_queue (peer_at d p))))"
  using assms by (auto simp: nonce_ok_def waiting_ok_def waiting_def waiting_in_def)

lemma nonce_set_held: "in_hand e p d \<Longrightarrow> nonce_ok (set_held (Some e) p d)"
  unfolding set_held_def Let_def
  by (rule nonce_enqueue [of e]) (auto simp: in_hand_def waiting_in_def waiting_def waiting_held_subset)

lemma nonce_drop_held: "nonce_ok d \<Longrightarrow> nonce_ok (set_held None p d)" "in_hand e p d \<Longrightarrow> in_hand e p (set_held None p d)"
proof -
  have 1: "nonce_ok (set_held None p d)" if "nonce_ok d"
    unfolding set_held_def Let_def
    by (rule nonce_shrink [OF that]) (auto simp: waiting_in_def waiting_def waiting_held_subset [OF that])
  then show "nonce_ok d \<Longrightarrow> nonce_ok (set_held None p d)" .
  show "in_hand e p d \<Longrightarrow> in_hand e p (set_held None p d)"
    using 1 by (auto simp: in_hand_def set_held_def Let_def waiting_set_queue)
qed

lemma nonce_flush: "nonce_ok d \<Longrightarrow> nonce_ok (flush p d)"
  unfolding flush_def Let_def
  by (rule nonce_shrink) (auto simp: waiting_in_def waiting_def split: option.split)

lemma nonce_loop_drop: "nonce_loop cap e queue = Some buf \<Longrightarrow> \<exists>n. buf = drop n queue @ [e]"
proof (induction cap e queue rule: nonce_loop.induct)
  case (1 cap e queue)
  show ?case
  proof (cases "length queue < cap")
    case True
    then show ?thesis using 1(2) by (subst (asm) nonce_loop.simps) (auto intro: exI [of _ 0])
  next
    case False
    then obtain old rest where q: "queue = old # rest" "nonce_loop cap e rest = Some buf"
      using 1(2) by (subst (asm) nonce_loop.simps) (auto split: list.splits)
    from 1(1) [OF False this] obtain n where "buf = drop n rest @ [e]" by blast
    then show ?thesis using q(1) by (intro exI [of _ "Suc n"]) simp
  qed
qed

lemma nonce_addToNonceQueue:
  assumes "in_hand e p d" "e \<notin> set (waiting d p)"
  shows "returning (\<lambda>c. nonce_ok (set_queue p ((p_queue (peer_at d p))\<lparr>pq_nonce := c\<rparr>) d)) (addToNonceQueue e (pq_nonce (p_queue (peer_at d p))))"
proof -
  let ?q = "p_queue (peer_at d p)"
  have dis: "distinct (waiting d p)" using assms(1) by (auto simp: in_hand_def nonce_ok_def waiting_ok_def)
  have "nonce_ok (set_queue p (?q\<lparr>pq_nonce := (pq_nonce ?q)\<lparr>ch_buf := drop n (ch_buf (pq_nonce ?q)) @ [e]\<rparr>\<rparr>) d)" for n
    by (rule nonce_enqueue [OF assms(1)])
      (use dis assms(2) in \<open>auto simp: waiting_in_def waiting_def dest: in_set_dropD split: option.splits\<close>)
  then show ?thesis
    by (auto simp: addToNonceQueue_def intro!: returningI dest!: nonce_loop_drop)
qed

lemma u64_increment: "n < m \<Longrightarrow> n < n + 1 \<and> n + 1 \<le> m" for n m :: u64
proof -
  assume "n < m"
  moreover have "unat m < 2 ^ 64" using unsigned_less [of m, where ?'a = nat] by simp
  ultimately have "unat (n + 1) = unat n + 1" by (simp add: unat_word_ariths(1) word_less_nat_alt)
  with \<open>n < m\<close> show ?thesis by (simp add: word_less_nat_alt word_le_nat_alt)
qed

text \<open>A packet in hand is given the next counter of a key pair.\<close>

lemma nonce_assign:
  assumes "in_hand e p d" "e \<notin> set (waiting d p)" "k < hp_next_keypair (dev_heap d)" "kp_sendNonce (keypair_at d k) < RejectAfterMessages"
    "oe_keypair x = Some k" "oe_nonce x = kp_sendNonce (keypair_at d k)" "kp_sendNonce y = kp_sendNonce (keypair_at d k) + 1"
  shows "nonce_ok (set_out e x (set_keypair k y d))" "e \<notin> set (ch_buf (dq_encryption (dev_queue d)))"
proof -
  let ?n = "kp_sendNonce (keypair_at d k)" and ?d = "set_out e x (set_keypair k y d)"
  have n: "?n < ?n + 1" "?n + 1 \<le> RejectAfterMessages" using u64_increment [OF assms(4)] by auto
  have ok: "waiting_ok d" "assigned_ok d" "encryption_ok d" "known_keypairs d" "assigned d e = None" "e < hp_next_out (dev_heap d)"
    using assms(1) by (simp_all add: in_hand_def nonce_ok_def)
  have w: "waiting ?d r = waiting d r" for r by (simp add: waiting_def)
  have e: "e \<notin> set (waiting d r)" for r using assms(1,2) by (cases "r = p") (auto simp: in_hand_def)
  have a: "assigned ?d f = (if f = e then Some (k, ?n) else assigned d f)" for f using assms(5,6) by (simp add: assigned_def)
  have s: "kp_sendNonce (keypair_at ?d j) = (if j = k then ?n + 1 else kp_sendNonce (keypair_at d j))" for j using assms(7) by simp
  have old: "m < ?n" if "assigned d f = Some (k, m)" for f m using ok(2) that by (auto simp: assigned_ok_def)
  show "e \<notin> set (ch_buf (dq_encryption (dev_queue d)))" using ok(3,5) by (auto simp: encryption_ok_def)
  have "waiting_ok ?d" using ok(1) e by (auto simp: waiting_ok_def w a)
  moreover have "encryption_ok ?d" using ok(3) by (auto simp: encryption_ok_def a)
  moreover have "known_keypairs ?d" using ok(4) by (simp add: known_keypairs_def)
  moreover have "assigned_ok ?d" unfolding assigned_ok_def
  proof (intro conjI allI impI)
    show "kp_sendNonce (keypair_at ?d j) \<le> RejectAfterMessages" for j using ok(2) n(2) by (simp add: assms(7) assigned_ok_def)
    show "assigned ?d f = None" if "hp_next_out (dev_heap ?d) \<le> f" for f using ok(2,6) that by (auto simp: a assigned_ok_def)
    show "j < hp_next_keypair (dev_heap ?d)" "m < kp_sendNonce (keypair_at ?d j)" if "assigned ?d f = Some (j, m)" for f j m
      using that ok(2) assms(3) n(1) less_trans [OF old n(1)] unfolding a s by (auto simp: assigned_ok_def split: if_splits)
    show "f = g" if "assigned ?d f = Some z" "assigned ?d g = Some z" for f g z
      using that ok(2) old [of f ?n] old [of g ?n] by (cases z) (auto simp: a assigned_ok_def split: if_splits)
  qed
  ultimately show "nonce_ok ?d" by (simp add: nonce_ok_def)
qed

lemma nonce_encryption_queue:
  assumes "nonce_ok d" "distinct (ch_buf c)" "\<And>e. e \<in> set (ch_buf c) \<Longrightarrow> assigned d e \<noteq> None"
  shows "nonce_ok (d\<lparr>dev_queue := (dev_queue d)\<lparr>dq_encryption := c\<rparr>\<rparr>)"
  using assms by (auto simp: nonce_ok_defs waiting_def assigned_def)

section \<open>The routines\<close>

lemma nonce_addToOutbound:
  assumes "nonce_ok d" "assigned d e \<noteq> None" "e \<notin> set (ch_buf (dq_encryption (dev_queue d)))"
  shows "returning nonce_ok (addToOutboundAndEncryptionQueues p e d)"
proof -
  let ?q = "p_queue (peer_at d p)"
  have q: "nonce_ok (set_queue p (?q\<lparr>pq_outbound := c\<rparr>) d)" for c
    using assms(1) by (simp add: set_queue_def)
  have "nonce_ok (set_queue p (?q\<lparr>pq_outbound := c\<rparr>) d\<lparr>dev_queue := (dev_queue d)\<lparr>dq_encryption := b\<rparr>\<rparr>)"
    if "try_send e (dq_encryption (dev_queue d)) = Some (True, b)" for b c
  proof -
    have "distinct (ch_buf (dq_encryption (dev_queue d)))" "\<And>f. f \<in> set (ch_buf (dq_encryption (dev_queue d))) \<Longrightarrow> assigned d f \<noteq> None"
      using assms(1) by (auto simp: nonce_ok_def encryption_ok_def)
    then have b: "distinct (ch_buf b)" "\<And>f. f \<in> set (ch_buf b) \<Longrightarrow> assigned d f \<noteq> None"
      using that assms(2,3) by (auto simp: try_send_def split: if_splits)
    show ?thesis using nonce_encryption_queue [OF q b(1), of c, unfolded set_queue_rest] b(2) by blast
  qed
  then show ?thesis
    using assms(1) q
    by (auto simp: addToOutboundAndEncryptionQueues_def Let_def case_prod_unfold intro!: returningI)
qed

lemma nonce_assign_nonce:
  assumes "in_hand e p d" "e \<notin> set (waiting d p)" "k < hp_next_keypair (dev_heap d)" "kp_sendNonce (keypair_at d k) < RejectAfterMessages"
  shows "returning nonce_ok (assign_nonce k e p d)"
proof -
  define d0 where "d0 = set_awaiting False p d"
  have v: "nonce_view d0 = nonce_view d" by (simp add: d0_def)
  let ?n = "kp_sendNonce (keypair_at d0 k)"
  have d0: "in_hand e p d0" "e \<notin> set (waiting d0 p)" "k < hp_next_keypair (dev_heap d0)" "?n < RejectAfterMessages"
    using assms nonce_view_cong(2) [OF v] by (simp_all add: d0_def set_awaiting_def Let_def waiting_set_queue waiting_in_def waiting_def)
  define x where "x = (out_at d0 e)\<lparr>oe_peer := Some p, oe_nonce := ?n, oe_keypair := Some k, oe_dropped := False, oe_locked := True\<rparr>"
  define y where "y = (keypair_at d0 k)\<lparr>kp_sendNonce := ?n + 1\<rparr>"
  have ok: "nonce_ok (set_out e x (set_keypair k y d0))" "e \<notin> set (ch_buf (dq_encryption (dev_queue d0)))"
    using nonce_assign [OF d0, of x y] by (simp_all add: x_def y_def)
  have "set_out e x (set_out e z d) = set_out e x d" for z d by (simp add: set_out_def)
  moreover have "returning nonce_ok (addToOutboundAndEncryptionQueues p e (set_out e x (set_keypair k y d0)))"
    by (rule nonce_addToOutbound [OF ok(1)]) (use ok(2) in \<open>simp_all add: assigned_def x_def\<close>)
  ultimately show ?thesis
    using d0(4) [unfolded not_le [symmetric]] unfolding assign_nonce_def d0_def [symmetric] Let_def by (simp add: x_def y_def)
qed

lemma nonce_nonce_key:
  assumes "in_hand e p d"
  shows "returning nonce_ok (nonce_key w e p d)"
proof (cases "usable_keypair w p d")
  case None
  have "in_hand e p (snd x)" if "nonce_view (snd x) = nonce_view d" for x :: "handshake_send_error option \<times> Device"
    using nonce_view_cong(2) [OF that] assms by simp
  then show ?thesis
    by (auto simp: nonce_key_def None Let_def case_prod_unfold
      intro!: returning_mono [OF nonces.view_SendHandshakeInitiation [OF TrueI]] nonce_set_held)
next
  case (Some k)
  then have "ks_current (p_keypairs (peer_at d p)) = Some k" and sent: "kp_sendNonce (keypair_at d k) < RejectAfterMessages"
    by (auto simp: usable_keypair_def Keypairs_Current_def split: option.splits if_splits)
  then have k: "k < hp_next_keypair (dev_heap d)"
    using assms unfolding in_hand_def nonce_ok_def known_keypairs_def by (metis insertI1)
  have "e \<notin> set (waiting (set_held None p d) p)"
    using assms by (simp add: in_hand_def set_held_def Let_def waiting_set_queue waiting_in_def)
  moreover have "keypair_at (set_held None p d) k = keypair_at d k" "hp_next_keypair (dev_heap (set_held None p d)) = hp_next_keypair (dev_heap d)"
    by (simp_all add: set_held_def Let_def)
  ultimately have "returning nonce_ok (assign_nonce k e p (set_held None p d))"
    using k sent by (intro nonce_assign_nonce nonce_drop_held(2) [OF assms]) simp_all
  then show ?thesis by (auto simp: nonce_key_def Some elim!: returning_mono)
qed

lemma nonce_waitingD:
  assumes "nonce_ok d"
  shows "distinct (waiting d p)" "e \<in> set (waiting d p) \<Longrightarrow> e < hp_next_out (dev_heap d)"
    "e \<in> set (waiting d p) \<Longrightarrow> assigned d e = None" "e \<in> set (waiting d p) \<Longrightarrow> e \<in> set (waiting d q) \<Longrightarrow> q = p"
  using assms unfolding nonce_ok_def waiting_ok_def by blast+

lemma nonce_pop_held:
  assumes "nonce_ok d" "pq_held (p_queue (peer_at d p)) = Some e"
  shows "in_hand e p d"
proof -
  have "waiting d p = e # ch_buf (pq_nonce (p_queue (peer_at d p)))" using assms(2) by (simp add: waiting_def waiting_in_def)
  then show ?thesis using nonce_waitingD [OF assms(1), of p] nonce_waitingD(2-4) [OF assms(1), of e p] assms(1)
    by (auto simp: in_hand_def)
qed

lemma nonce_pop_queue:
  assumes "nonce_ok d" "ch_buf (pq_nonce (p_queue (peer_at d p))) = e # es" "pq_held (p_queue (peer_at d p)) = None"
    "waiting_in q = es" "ch_buf (pq_nonce q) = es"
  shows "in_hand e p (set_queue p q d)"
proof -
  have w: "waiting d p = e # es" using assms(2,3) by (simp add: waiting_def waiting_in_def)
  have "nonce_ok (set_queue p q d)"
    by (rule nonce_shrink [OF assms(1)]) (use nonce_waitingD(1) [OF assms(1), of p] w assms(4) in auto)
  then show ?thesis
    using nonce_waitingD [OF assms(1), of p] nonce_waitingD(2-4) [OF assms(1), of e p] w assms(5)
    by (auto simp: in_hand_def waiting_set_queue)
qed

lemma nonce_RoutineNonce_flush: "nonce_ok d \<Longrightarrow> nonce_ok (RoutineNonce_flush p d)"
  by (auto simp: RoutineNonce_flush_def Let_def intro!: nonce_flush nonce_drop_held split: option.split prod.split)

lemma nonce_RoutineNonce_arrived: "nonce_ok d \<Longrightarrow> returning nonce_ok (RoutineNonce_arrived w p d)"
  by (auto simp: RoutineNonce_arrived_def set_signals_def Let_def intro!: nonce_nonce_key nonce_pop_held split: option.split prod.split)

lemma nonce_RoutineNonce_packet: "nonce_ok d \<Longrightarrow> returning nonce_ok (RoutineNonce_packet w p d)"
  by (auto simp: RoutineNonce_packet_def try_recv_def Let_def waiting_in_def intro!: nonce_nonce_key nonce_pop_queue
    split: option.split list.split)

lemma nonce_SendKeepalive: "nonce_ok d \<Longrightarrow> returning (\<lambda>(r, d'). nonce_ok d') (SendKeepalive p d)"
proof -
  assume ok: "nonce_ok d"
  define d1 where "d1 = snd (NewOutboundElement d)"
  let ?e = "fst (NewOutboundElement d)" and ?q = "p_queue (peer_at d p)"
  have new: "in_hand ?e p d1" "?e \<notin> set (waiting d1 p)" and q: "p_queue (peer_at d1 p) = ?q"
    using nonce_new [OF ok] by (simp_all add: d1_def NewOutboundElement_def new_out_def)
  have w: "waiting d1 p = waiting_in ?q" by (simp add: waiting_def q)
  have dis: "distinct (waiting_in ?q)" using nonce_waitingD(1) [of d1 p] new(1) w by (simp add: in_hand_def)
  have "nonce_ok (set_queue p (?q\<lparr>pq_nonce := c\<rparr>) d1)" if "try_send ?e (pq_nonce ?q) = Some (b, c)" for b c
    by (rule nonce_enqueue [OF new(1)])
      (use that dis new(2) w in \<open>auto simp: waiting_in_def try_send_def split: if_splits option.splits\<close>)
  then show ?thesis
    using ok by (auto simp: SendKeepalive_def Let_def d1_def case_prod_unfold intro!: returningI)
qed

lemma in_hand_set_out_packet [simp]: "in_hand e p (set_out f ((out_at d f)\<lparr>oe_packet := packet\<rparr>) d) = in_hand e p d"
  by simp

lemma nonce_RoutineReadFromTUN: "nonce_ok d \<Longrightarrow> returning nonce_ok (RoutineReadFromTUN w packet d)"
proof -
  assume ok: "nonce_ok d"
  let ?e = "fst (NewOutboundElement d)" and ?d = "snd (NewOutboundElement d)"
  define d1 where "d1 = set_out ?e ((out_at ?d ?e)\<lparr>oe_packet := packet\<rparr>) ?d"
  have ok1: "nonce_ok ?d" using nonce_new [OF ok] by (simp add: NewOutboundElement_def new_out_def in_hand_def)
  have new: "in_hand ?e p d1" "?e \<notin> set (waiting d1 p)" for p
    using nonce_new [OF ok, where p = p] nonce_new(2) [OF ok, of zero_OutboundElement p]
    by (simp_all add: d1_def NewOutboundElement_def new_out_def waiting_def zero_OutboundElement_def)
  have add: "returning (\<lambda>c. nonce_ok (set_queue p ((p_queue (peer_at d2 p))\<lparr>pq_nonce := c\<rparr>) d2)) (addToNonceQueue ?e (pq_nonce (p_queue (peer_at d2 p))))"
    if "nonce_view d2 = nonce_view d1" for d2 p
  proof (rule nonce_addToNonceQueue)
    show "in_hand ?e p d2" using new(1) nonce_view_cong(2) [OF that] by simp
    have "waiting d2 p = waiting d1 p" using that by (simp add: nonce_view_def waiting_def waiting_in_def fun_eq_iff)
    then show "?e \<notin> set (waiting d2 p)" using new(2) by simp
  qed
  have "nonce_ok d1" using new(1) by (simp add: in_hand_def)
  show ?thesis
    using ok1 \<open>nonce_ok d1\<close> add
    by (auto simp: RoutineReadFromTUN_def Let_def case_prod_unfold d1_def [symmetric]
      intro!: returningI [where m = "route_packet a b" for a b] returning_mono [OF nonces.view_SendHandshakeInitiation [OF TrueI]] split: option.split)
qed

lemma nonce_RoutineEncryption: "nonce_ok d \<Longrightarrow> returning nonce_ok (RoutineEncryption d)"
proof -
  assume ok: "nonce_ok d"
  have "nonce_ok (d\<lparr>dev_queue := (dev_queue d)\<lparr>dq_encryption := c\<rparr>\<rparr>)" if "try_recv (dq_encryption (dev_queue d)) = (Some e, c)" for e c
    by (rule nonce_encryption_queue [OF ok])
      (use ok that in \<open>auto simp: nonce_ok_def encryption_ok_def try_recv_def split: list.splits\<close>)
  then show ?thesis
    using ok by (auto simp: RoutineEncryption_def Let_def intro!: returningI split: prod.split option.split)
qed

section \<open>Sessions, timers and control\<close>

lemma nonce_ok_slots:
  assumes "nonce_ok d" "\<And>k. Some k \<in> {ks_current ks, ks_previous ks, ks_next ks} \<Longrightarrow> k < hp_next_keypair (dev_heap d)"
  shows "nonce_ok (set_peer p ((peer_at d p)\<lparr>p_keypairs := ks\<rparr>) d)"
  using assms unfolding nonce_ok_def by (auto simp: waiting_ok_def assigned_ok_def encryption_ok_def known_keypairs_def waiting_def assigned_def)

lemma nonce_known: "nonce_ok d \<Longrightarrow> Some k \<in> {ks_current (p_keypairs (peer_at d p)), ks_previous (p_keypairs (peer_at d p)),
    ks_next (p_keypairs (peer_at d p))} \<Longrightarrow> k < hp_next_keypair (dev_heap d)"
  unfolding nonce_ok_def known_keypairs_def by blast

lemma nonce_add_keypair:
  assumes "nonce_ok d" "kp_sendNonce x = 0"
  shows "nonce_ok (add_keypair x d)"
proof -
  let ?k = "hp_next_keypair (dev_heap d)" and ?d = "add_keypair x d"
  have ok: "waiting_ok d" "assigned_ok d" "encryption_ok d" "known_keypairs d" using assms(1) by (simp_all add: nonce_ok_def)
  have a: "assigned ?d = assigned d" and w: "waiting ?d = waiting d" by (simp_all add: fun_eq_iff assigned_def waiting_def)
  have new: "assigned d e \<noteq> Some (?k, n)" for e n using ok(2) by (auto simp: assigned_ok_def)
  have "assigned_ok ?d" using ok(2) new assms(2) by (auto simp: assigned_ok_def a less_Suc_eq)
  moreover have "known_keypairs ?d" using ok(4) by (auto simp: known_keypairs_def less_Suc_eq)
  moreover have "waiting_ok ?d" "encryption_ok ?d" using ok(1,3) by (simp_all add: waiting_ok_def encryption_ok_def a w)
  ultimately show ?thesis by (simp add: nonce_ok_def)
qed

lemma DeleteKeypair_nonces [simp]:
  "hp_next_keypair (dev_heap (DeleteKeypair x d)) = hp_next_keypair (dev_heap d)" "peer_at (DeleteKeypair x d) q = peer_at d q"
  by (simp_all add: DeleteKeypair_def split: option.split)

lemma nonce_ok_slots_of:
  assumes "nonce_ok d1" "peer_at d1 p = peer_at d p"
    "\<And>j. Some j \<in> {ks_current ks, ks_previous ks, ks_next ks} \<Longrightarrow> j < hp_next_keypair (dev_heap d1)"
  shows "nonce_ok (set_peer p ((peer_at d p)\<lparr>p_keypairs := ks\<rparr>) d1)"
  using nonce_ok_slots [of d1 ks p] assms by auto

lemma nonce_rotate_keypairs:
  assumes "nonce_ok d" "k < hp_next_keypair (dev_heap d)"
  shows "nonce_ok (rotate_keypairs b k p d)"
  using assms nonce_known [OF assms(1), of _ p] unfolding rotate_keypairs_def Let_def
  by (auto intro!: nonce_ok_slots_of)

lemma nonce_BeginSymmetricSession: "nonce_ok d \<Longrightarrow> returning (\<lambda>(r, d'). nonce_ok d') (BeginSymmetricSession w p d)"
  by (auto simp: BeginSymmetricSession_def new_keypair_def Let_def set_handshake_def
    intro!: returningI nonce_rotate_keypairs nonce_add_keypair split: option.split)

lemma nonce_ReceivedWithKeypair: "nonce_ok d \<Longrightarrow> nonce_ok (snd (ReceivedWithKeypair k p d))"
  using nonce_known [of d _ p] by (auto simp: ReceivedWithKeypair_def Let_def intro!: nonce_ok_slots_of)

lemma nonce_FlushNonceQueue: "nonce_ok d \<Longrightarrow> returning nonce_ok (FlushNonceQueue p d)"
  by (auto simp: FlushNonceQueue_def Let_def case_prod_unfold intro!: returningI)

lemma nonce_ZeroAndFlushAll: "nonce_ok d \<Longrightarrow> returning nonce_ok (ZeroAndFlushAll p d)"
  by (auto simp: ZeroAndFlushAll_def Let_def intro!: nonce_FlushNonceQueue nonce_ok_slots_of)

lemma nonce_receive_transport: "nonce_ok d \<Longrightarrow> returning nonce_ok (receive_transport w packet endpoint d)"
proof -
  have inbound: "returning (\<lambda>(r, d'). nonce_ok d') (addToInboundAndDecryptionQueues p e d1)" if "nonce_ok d1" for p e d1
    using that by (auto simp: addToInboundAndDecryptionQueues_def set_queue_def Let_def case_prod_unfold intro!: returningI)
  show "nonce_ok d \<Longrightarrow> ?thesis"
    by (auto simp: receive_transport_def new_in_def Let_def case_prod_unfold
      intro!: returningI [where m = "slice a b x" for a b x] returningI [where m = "ie_peer x" for x] returning_mono [OF inbound] split: option.split)
qed

lemma nonce_RoutineDecryption: "nonce_ok d \<Longrightarrow> returning nonce_ok (RoutineDecryption d)"
  by (auto simp: RoutineDecryption_def Let_def case_prod_unfold intro!: returningI split: option.split prod.split)

lemma nonce_Peer_Start: "nonce_ok d \<Longrightarrow> nonce_ok (Peer_Start w p d)"
  by (auto simp: Peer_Start_def Let_def waiting_in_def make_chan_def intro!: nonce_shrink)

lemma nonce_stop_routines:
  assumes "nonce_ok d"
  shows "nonce_ok (stop_routines p d)"
proof -
  let ?d = "set_awaiting False p (flush p (set_held None p d))"
  let ?f = "\<lambda>d e. if IsDropped e d then d else Drop e d"
  have "nonce_view (foldl ?f d1 xs) = nonce_view d1" for d1 xs
    by (rule foldl_keeps) simp
  moreover have "p_queue (peer_at (foldl ?f d1 xs) p) = p_queue (peer_at d1 p)" for d1 xs
    by (rule foldl_keeps) (simp add: Drop_def)
  moreover have "nonce_ok ?d" using assms by (simp add: nonce_flush nonce_drop_held)
  ultimately have "nonce_ok (set_queue p ((p_queue (peer_at ?d p))\<lparr>pq_outbound := c\<rparr>) (foldl ?f ?d xs))" for c xs
    using nonce_view_cong(1) [of "foldl ?f ?d xs" ?d] by (simp add: set_queue_def)
  then show ?thesis by (simp add: stop_routines_def Let_def)
qed

lemma close_chan_of_buf: "close_chan_of c = Some c' \<Longrightarrow> ch_buf c' = ch_buf c"
  by (auto simp: close_chan_of_def split: if_splits)

lemma nonce_Peer_Stop: "nonce_ok d \<Longrightarrow> returning nonce_ok (Peer_Stop p d)"
  by (auto simp: Peer_Stop_def Let_def set_queue_def close_chan_of_buf
    intro!: returningI [where m = "close_chan x" for x] returningI [where m = "close_chan_of x" for x]
      nonce_ZeroAndFlushAll nonce_stop_routines)

lemma nonce_close: "nonce_ok d \<Longrightarrow> nonce_ok (FlushPacketQueues (stop_workers d))"
proof -
  note fold = foldl_invariant [where P = nonce_ok]
  have empty: "nonce_ok (d1\<lparr>dev_queue := q\<rparr>)" if "nonce_ok d1" "ch_buf (dq_encryption q) = []" for d1 q
    using that by (auto simp: nonce_ok_defs waiting_def assigned_def)
  assume "nonce_ok d"
  then have "nonce_ok (stop_workers d)" unfolding stop_workers_def Let_def by (intro empty fold) simp_all
  then show ?thesis unfolding FlushPacketQueues_def Let_def by (intro empty fold) simp_all
qed

lemma nonce_add_peer:
  assumes "nonce_ok d" "p_queue x = p_queue new_Peer" "p_keypairs x = p_keypairs new_Peer"
  shows "nonce_ok (add_peer x d)"
proof -
  let ?d = "add_peer x d" and ?p = "hp_next_peer (dev_heap d)"
  have w: "waiting ?d r = (if r = ?p then [] else waiting d r)" for r
    using assms(2) by (simp add: waiting_def waiting_in_def new_Peer_def nil_chan_def make_chan_def)
  have a: "assigned ?d = assigned d" by (simp add: fun_eq_iff assigned_def)
  have "waiting_ok ?d" "assigned_ok ?d" "encryption_ok ?d" "known_keypairs ?d"
    using assms(1) assms(3) by (auto simp: nonce_ok_defs w a new_Peer_def)
  then show ?thesis by (simp add: nonce_ok_def)
qed

section \<open>All steps\<close>

lemma nonce_ok_new: "NewDevice w = Some d \<Longrightarrow> nonce_ok d"
proof -
  assume "NewDevice w = Some d"
  then have "dev_heap d = dev_heap zero_Device" "ch_buf (dq_encryption (dev_queue d)) = []"
    by (auto simp: NewDevice_def Let_def bind_eq_Some_conv make_chan_def)
  then show ?thesis
    by (auto simp: nonce_ok_defs waiting_def waiting_in_def assigned_def peer_at_def out_at_def keypair_at_def zero_Device_def
      new_Peer_def zero_OutboundElement_def zero_Keypair_def nil_chan_def make_chan_def)
qed

interpretation nonce_sessions: session_invariant nonce_ok "\<lambda>_. True"
  by unfold_locales (simp_all add: nonce_BeginSymmetricSession nonce_ReceivedWithKeypair nonce_ZeroAndFlushAll nonce_SendKeepalive
    nonce_Peer_Start nonce_Peer_Stop nonce_add_peer nonce_close nonce_RoutineReadFromTUN nonce_RoutineNonce_packet
    nonce_RoutineNonce_flush nonce_RoutineNonce_arrived nonce_RoutineEncryption nonce_receive_transport nonce_RoutineDecryption
    set_queue_def)

interpretation nonce_invariant: device_invariant "\<lambda>_. True" nonce_ok
  by unfold_locales (auto intro: nonce_ok_new nonce_sessions.P_step)



end
