(* ===== verification/Totality.thy ===== *)
theory Totality
  imports Indices Nonces
begin

unbundle bit_operations_syntax

text \<open>
  The invariant \<open>well_typed\<close> of the device under which the workers of the data path and the control of peers never panic:
  queues are open, slices are within their packets, references lead somewhere, and keys and packets have the right size.
\<close>

section \<open>The invariant\<close>

text \<open>
  A running peer has open queues and a stop channel that can be closed; the signals of a peer are never closed. A key pair
  has keys of the right size. A packet that waits for its key pair or for encryption is short enough for a transport
  message, and a message that waits for decryption has the size of one and a key pair.
\<close>

definition peer_open :: "Peer \<Rightarrow> bool" where
  "peer_open x \<longleftrightarrow>
     (p_isRunning x \<longrightarrow> p_stop x = OpenChan \<and> \<not> ch_closed (pq_nonce (p_queue x)) \<and> \<not> ch_closed (pq_outbound (p_queue x)) \<and>
        \<not> ch_closed (pq_inbound (p_queue x))) \<and>
     \<not> ch_closed (sg_newKeypairArrived (p_signals x)) \<and> \<not> ch_closed (sg_flushNonceQueue (p_signals x))"

definition keys_ok :: "Keypair \<Rightarrow> bool" where
  "keys_ok k \<longleftrightarrow> length (kp_send k) = 8 \<and> length (kp_receive k) = 8"

definition fits :: "QueueOutboundElement \<Rightarrow> bool" where
  "fits x \<longleftrightarrow> length (oe_packet x) \<le> MaxContentSize"

definition transport_element :: "Device \<Rightarrow> in_ref \<Rightarrow> bool" where
  "transport_element d e \<longleftrightarrow> e < hp_next_in (dev_heap d) \<and>
     (\<exists>k. ie_keypair_used (in_at d e) = Some k \<and> k < hp_next_keypair (dev_heap d)) \<and>
     length (ie_packet (in_at d e)) \<in> {MessageTransportSize..MaxMessageSize}"

definition queues_ok :: "Device \<Rightarrow> bool" where
  "queues_ok d \<longleftrightarrow>
     \<not> ch_closed (dq_encryption (dev_queue d)) \<and> \<not> ch_closed (dq_decryption (dev_queue d)) \<and> \<not> ch_closed (dq_handshake (dev_queue d)) \<and>
     (\<forall>e \<in> set (ch_buf (dq_encryption (dev_queue d))). fits (out_at d e)) \<and>
     distinct (ch_buf (dq_decryption (dev_queue d))) \<and> (\<forall>e \<in> set (ch_buf (dq_decryption (dev_queue d))). transport_element d e)"

definition well_typed :: "Device \<Rightarrow> bool" where
  "well_typed d \<longleftrightarrow>
     (\<forall>p. peer_open (peer_at d p)) \<and> (\<forall>k < hp_next_keypair (dev_heap d). keys_ok (keypair_at d k)) \<and>
     (\<forall>e. oe_keypair (out_at d e) = None \<longrightarrow> fits (out_at d e)) \<and> queues_ok d"

text \<open>The element that is about to be queued for decryption; and what the index table and the counters provide.\<close>

definition fresh_element :: "in_ref \<Rightarrow> Device \<Rightarrow> bool" where
  "fresh_element e d \<longleftrightarrow> e \<notin> set (ch_buf (dq_decryption (dev_queue d))) \<and> transport_element d e"

definition sound :: "Device \<Rightarrow> bool" where
  "sound d \<longleftrightarrow> nonce_ok d \<and> index_inv d"

lemmas well_typed_defs = well_typed_def queues_ok_def transport_element_def

text \<open>What the invariant does not see.\<close>

lemma typed_set_peer [simp]:
  assumes "p_isRunning x = p_isRunning (peer_at d p)" "p_stop x = p_stop (peer_at d p)"
    "ch_closed (pq_nonce (p_queue x)) = ch_closed (pq_nonce (p_queue (peer_at d p)))"
    "ch_closed (pq_outbound (p_queue x)) = ch_closed (pq_outbound (p_queue (peer_at d p)))"
    "ch_closed (pq_inbound (p_queue x)) = ch_closed (pq_inbound (p_queue (peer_at d p)))"
    "ch_closed (sg_newKeypairArrived (p_signals x)) = ch_closed (sg_newKeypairArrived (p_signals (peer_at d p)))"
    "ch_closed (sg_flushNonceQueue (p_signals x)) = ch_closed (sg_flushNonceQueue (p_signals (peer_at d p)))"
  shows "well_typed (set_peer p x d) = well_typed d"
proof -
  have "peer_open x = peer_open (peer_at d p)" using assms by (simp add: peer_open_def)
  then show ?thesis by (auto simp: well_typed_defs)
qed

lemma well_typed_peer: "well_typed d \<Longrightarrow> peer_open x \<Longrightarrow> well_typed (set_peer p x d)"
  by (simp add: well_typed_defs)

lemma typed_set_out [simp]:
  assumes "oe_packet x = oe_packet (out_at d e)" "oe_keypair x = oe_keypair (out_at d e)"
  shows "well_typed (set_out e x d) = well_typed d"
proof -
  have f: "fits (out_at (set_out e x d) f) = fits (out_at d f)" "oe_keypair (out_at (set_out e x d) f) = oe_keypair (out_at d f)" for f
    using assms by (simp_all add: fits_def)
  show ?thesis unfolding well_typed_defs f by simp
qed

lemma typed_add_out [simp]: "well_typed d \<Longrightarrow> fits x \<Longrightarrow> well_typed (add_out x d)"
  by (auto simp: well_typed_defs)

lemma well_typed_blind [simp]:
  "well_typed (set_timers p t d) = well_typed d" "well_typed (set_handshake p h d) = well_typed d"
  "well_typed (set_awaiting b p d) = well_typed d" "well_typed (set_held h' p d) = well_typed d" "well_typed (flush p d) = well_typed d"
  "well_typed (Drop e d) = well_typed d" "well_typed (DeleteKeypair k d) = well_typed d"
  by (simp_all add: set_timers_def set_handshake_def handshake_at_def set_awaiting_def set_held_def flush_def
    set_queue_def Drop_def DeleteKeypair_def Let_def split: option.split) (simp_all add: well_typed_defs heap_defs)

lemma well_typed_updates [simp]:
  "well_typed (dev_indexTable_update f1 d) = well_typed d" "well_typed (dev_sent_update f2 d) = well_typed d"
  "well_typed (dev_rate_update f3 d) = well_typed d" "well_typed (dev_cookieChecker_update f4 d) = well_typed d"
  "well_typed (dev_state_update f5 d) = well_typed d" "well_typed (dev_isUp_update f6 d) = well_typed d"
  "well_typed (dev_net_update f7 d) = well_typed d" "well_typed (dev_isClosed_update f8 d) = well_typed d"
  "well_typed (dev_staticIdentity_update f9 d) = well_typed d" "well_typed (dev_stop_update f10 d) = well_typed d"
  "well_typed (dev_mtu_update f11 d) = well_typed d" "well_typed (dev_keyMap_update f12 d) = well_typed d"
  "well_typed (dev_allowedips_update f13 d) = well_typed d" "well_typed (dev_written_update f14 d) = well_typed d"
  by (simp_all add: well_typed_defs heap_defs)

lemma typed_set_keypair [simp]:
  assumes "kp_send x = kp_send (keypair_at d k)" "kp_receive x = kp_receive (keypair_at d k)"
  shows "well_typed (set_keypair k x d) = well_typed d"
proof -
  have "keys_ok x = keys_ok (keypair_at d k)" using assms by (simp add: keys_ok_def)
  then show ?thesis by (auto simp: well_typed_defs)
qed

lemma typed_set_in [simp]:
  assumes "ie_packet x = ie_packet (in_at d e)" "ie_keypair_used x = ie_keypair_used (in_at d e)"
  shows "well_typed (set_in e x d) = well_typed d"
proof -
  have "ie_packet (in_at (set_in e x d) f) = ie_packet (in_at d f)" "ie_keypair_used (in_at (set_in e x d) f) = ie_keypair_used (in_at d f)" for f
    using assms by simp_all
  then show ?thesis by (simp add: well_typed_defs)
qed

lemma typed_signals [simp]:
  assumes "ch_closed (sg_newKeypairArrived s) = ch_closed (sg_newKeypairArrived (p_signals (peer_at d p)))"
    "ch_closed (sg_flushNonceQueue s) = ch_closed (sg_flushNonceQueue (p_signals (peer_at d p)))"
  shows "well_typed (set_signals p s d) = well_typed d"
  using assms by (simp add: set_signals_def)

lemma typed_handshake_queue [simp]:
  "ch_closed c = ch_closed (dq_handshake (dev_queue d)) \<Longrightarrow> well_typed (d\<lparr>dev_queue := (dev_queue d)\<lparr>dq_handshake := c\<rparr>\<rparr>) = well_typed d"
  by (simp add: well_typed_defs heap_defs)

interpretation typed_frame: handshake_frame well_typed "\<lambda>_. True"
  by unfold_locales simp_all


section \<open>Sessions\<close>

lemma typed_add_keypair: "well_typed d \<Longrightarrow> keys_ok x \<Longrightarrow> well_typed (add_keypair x d)"
  by (auto simp: well_typed_defs less_Suc_eq)

lemma typed_rotate_keypairs [simp]: "well_typed (rotate_keypairs b k p d) = well_typed d"
  by (simp add: rotate_keypairs_def Let_def)

lemma typed_BeginSymmetricSession: "well_typed d \<Longrightarrow> returning (\<lambda>(r, d'). well_typed d') (BeginSymmetricSession w p d)"
  by (auto simp: BeginSymmetricSession_def new_keypair_def Let_def keys_ok_def aead_New_length
    intro!: returningI typed_add_keypair split: option.split)

lemma typed_ReceivedWithKeypair [simp]: "well_typed (snd (ReceivedWithKeypair k p d)) = well_typed d"
  by (simp add: ReceivedWithKeypair_def Let_def)

text \<open>The signals of a peer are open, so asking for a flush and dropping the keys of a peer never panic.\<close>

lemma typed_signal_open:
  assumes "well_typed d"
  shows "\<not> ch_closed (sg_flushNonceQueue (p_signals (peer_at d p)))" "\<not> ch_closed (sg_newKeypairArrived (p_signals (peer_at d p)))"
  using assms by (simp_all add: well_typed_def peer_open_def)

lemma FlushNonceQueue_total:
  assumes "well_typed d"
  shows "\<exists>d'. FlushNonceQueue p d = Some d' \<and> well_typed d'"
  using assms typed_signal_open(1) [OF assms, of p] by (auto simp: FlushNonceQueue_def try_send_def Let_def)

lemma ZeroAndFlushAll_total: "well_typed d \<Longrightarrow> \<exists>d'. ZeroAndFlushAll p d = Some d' \<and> well_typed d'"
  by (simp add: ZeroAndFlushAll_def Let_def FlushNonceQueue_total)

lemma typed_initiation: "well_typed d \<Longrightarrow> returning (\<lambda>(r, d'). well_typed d') (SendHandshakeInitiation w b p d)"
  by (rule returning_mono [OF typed_frame.view_SendHandshakeInitiation [OF TrueI]]) auto

section \<open>The outbound path\<close>

lemma typed_set_queue [simp]:
  assumes "ch_closed (pq_nonce q) = ch_closed (pq_nonce (p_queue (peer_at d p)))"
    "ch_closed (pq_outbound q) = ch_closed (pq_outbound (p_queue (peer_at d p)))"
    "ch_closed (pq_inbound q) = ch_closed (pq_inbound (p_queue (peer_at d p)))"
  shows "well_typed (set_queue p q d) = well_typed d"
  using assms by (simp add: set_queue_def)

lemma out_at_queue [simp]: "out_at (set_queue p q d) e = out_at d e" "out_at (set_awaiting b p d) e = out_at d e"
  "out_at (set_held h p d) e = out_at d e" "dev_queue (set_queue p q d) = dev_queue d"
  by (simp_all add: set_awaiting_def set_held_def set_queue_def Let_def)

lemma typed_NewOutboundElement [simp]: "well_typed d \<Longrightarrow> well_typed (snd (NewOutboundElement d))"
  by (simp add: NewOutboundElement_def new_out_def fits_def)

lemma typed_fitting: "well_typed d \<Longrightarrow> fits x \<Longrightarrow> well_typed (set_out e x d)"
  by (auto simp: well_typed_defs)

lemma typed_SendKeepalive: "well_typed d \<Longrightarrow> returning (\<lambda>(r, d'). well_typed d') (SendKeepalive p d)"
  by (auto simp: SendKeepalive_def NewOutboundElement_def new_out_def fits_def Let_def case_prod_unfold
    intro!: returning_mono [OF try_send_closed])

lemma addToNonceQueue_closed: "returning (\<lambda>c'. ch_closed c' = ch_closed c) (addToNonceQueue e c)"
  by (auto simp: addToNonceQueue_def intro!: returningI)

lemma typed_RoutineReadFromTUN: "well_typed d \<Longrightarrow> returning well_typed (RoutineReadFromTUN w packet d)"
  by (auto simp: RoutineReadFromTUN_def NewOutboundElement_def new_out_def fits_def Let_def case_prod_unfold
    intro!: returningI [where m = "route_packet a b" for a b] returning_mono [OF addToNonceQueue_closed]
      returning_mono [OF typed_initiation] typed_fitting split: option.split)

lemma try_send_closedD: "try_send x c = Some (b, c') \<Longrightarrow> ch_closed c' = ch_closed c"
  using returningD [OF try_send_closed, of x c] by auto

lemma typed_addToOutbound:
  assumes "well_typed d" "fits (out_at d e)"
  shows "returning well_typed (addToOutboundAndEncryptionQueues p e d)"
proof -
  have "well_typed (d1\<lparr>dev_queue := q\<lparr>dq_encryption := c\<rparr>\<rparr>)"
    if "try_send e (dq_encryption q) = Some (True, c)" "dev_queue d1 = q" "well_typed d1" "fits (out_at d1 e)" for d1 q c
    using that by (auto simp: try_send_def well_typed_defs heap_defs split: if_splits)
  then show ?thesis
    using assms by (auto simp: addToOutboundAndEncryptionQueues_def Let_def case_prod_unfold try_send_closedD intro!: returningI)
qed

lemma typed_assign_nonce: "well_typed d \<Longrightarrow> fits (out_at d e) \<Longrightarrow> returning well_typed (assign_nonce k e p d)"
  by (auto simp: assign_nonce_def Let_def fits_def intro!: typed_addToOutbound typed_fitting)

lemma typed_nonce_key: "well_typed d \<Longrightarrow> fits (out_at d e) \<Longrightarrow> returning well_typed (nonce_key w e p d)"
  by (auto simp: nonce_key_def Let_def case_prod_unfold
    intro!: returning_mono [OF typed_assign_nonce] returning_mono [OF typed_initiation] split: option.split)

lemma typed_waiting:
  assumes "well_typed d" "nonce_ok d" "e \<in> set (waiting d p)"
  shows "fits (out_at d e)"
  using assms nonce_waitingD(3) [OF assms(2,3)] by (simp add: well_typed_def assigned_def)

lemma typed_RoutineNonce:
  assumes "well_typed d" "nonce_ok d"
  shows "returning well_typed (RoutineNonce_packet w p d)" "well_typed (RoutineNonce_flush p d)"
    "returning well_typed (RoutineNonce_arrived w p d)"
proof -
  show "well_typed (RoutineNonce_flush p d)"
    using assms(1) by (simp add: RoutineNonce_flush_def Let_def case_prod_unfold split: option.split)
  have "fits (out_at d e)" if "e \<in> set (ch_buf (pq_nonce (p_queue (peer_at d p)))) \<or> pq_held (p_queue (peer_at d p)) = Some e" for e
    using that typed_waiting [OF assms, of e p] by (auto simp: waiting_def waiting_in_def)
  then show "returning well_typed (RoutineNonce_packet w p d)" "returning well_typed (RoutineNonce_arrived w p d)"
    using assms(1)
    by (auto simp: RoutineNonce_packet_def RoutineNonce_arrived_def try_recv_def Let_def set_signals_def
      intro!: typed_nonce_key split: option.split list.split)
qed

lemma encrypt_element_total:
  assumes "mtu \<noteq> 0" "keys_ok keypair" "length packet \<le> MaxContentSize"
  shows "\<exists>c. encrypt_element mtu keypair nonce packet = Some c"
proof -
  obtain pad where pad: "pad_packet mtu packet = Some (packet @ replicate pad 0)" "pad < 16" by (rule pad_packet_total [OF assms(1)])
  have "length (packet @ replicate pad (0 :: byte)) < 2 ^ 30" using assms(3) pad(2) by (simp add: size_consts)
  then obtain c where "Seal (kp_send keypair) (transport_nonce nonce) (packet @ replicate pad 0) [] = Some c"
    using aead.seal_total [OF _ ok_transport_nonce, of "kp_send keypair"] assms(2) by (fastforce simp: keys_ok_def)
  then show ?thesis by (simp add: encrypt_element_def pad(1) Let_def)
qed

text \<open>The encryption of the next packet: it panics at most when the MTU is zero.\<close>

lemma typed_RoutineEncryption:
  assumes "well_typed d" "nonce_ok d"
  shows "returning well_typed (RoutineEncryption d) \<and> (dev_mtu d \<noteq> 0 \<longrightarrow> (\<exists>d'. RoutineEncryption d = Some d'))"
proof (cases "ch_buf (dq_encryption (dev_queue d))")
  case (Cons e es)
  let ?d = "d\<lparr>dev_queue := (dev_queue d)\<lparr>dq_encryption := (dq_encryption (dev_queue d))\<lparr>ch_buf := es\<rparr>\<rparr>\<rparr>"
  have ok: "well_typed ?d" using assms(1) Cons by (simp add: well_typed_defs heap_defs)
  have at: "out_at ?d f = out_at d f" "keypair_at ?d j = keypair_at d j" for f j by (simp_all add: heap_defs)
  obtain k where k: "oe_keypair (out_at d e) = Some k" "k < hp_next_keypair (dev_heap d)" "e \<notin> set es"
    using assms(2) Cons by (auto simp: nonce_ok_def assigned_ok_def encryption_ok_def assigned_def)
  then have "keys_ok (keypair_at d k)" "fits (out_at d e)" using assms(1) Cons by (simp_all add: well_typed_defs)
  then have "\<exists>c. encrypt_element (dev_mtu d) (keypair_at d k) (oe_nonce (out_at d e)) (oe_packet (out_at d e)) = Some c" if "dev_mtu d \<noteq> 0"
    using encrypt_element_total [OF that] by (simp add: fits_def)
  moreover have "well_typed (set_out e x ?d)" if "oe_keypair x \<noteq> None" for x using ok k(3) that by (auto simp: well_typed_defs)
  ultimately show ?thesis
    using ok by (auto simp: RoutineEncryption_def try_recv_def Cons at k(1) Let_def IsDropped_def intro!: returningI)
qed (use assms(1) in \<open>simp add: RoutineEncryption_def try_recv_def\<close>)

section \<open>Starting and stopping\<close>

lemma typed_Peer_Start: "well_typed d \<Longrightarrow> well_typed (Peer_Start w p d)"
  using typed_signal_open [of d p]
  by (auto simp: Peer_Start_def Let_def set_queue_def set_signals_def set_handshake_def timersInit_def set_timers_def peer_open_def
    make_chan_def intro!: well_typed_peer)

lemma stop_routines_peer [simp]:
  "p_isRunning (peer_at (stop_routines p d) q) = p_isRunning (peer_at d q)"
  "p_signals (peer_at (stop_routines p d) q) = p_signals (peer_at d q)"
  "ch_closed (pq_nonce (p_queue (peer_at (stop_routines p d) q))) = ch_closed (pq_nonce (p_queue (peer_at d q)))"
  "ch_closed (pq_outbound (p_queue (peer_at (stop_routines p d) q))) = ch_closed (pq_outbound (p_queue (peer_at d q)))"
  "ch_closed (pq_inbound (p_queue (peer_at (stop_routines p d) q))) = ch_closed (pq_inbound (p_queue (peer_at d q)))"
  "well_typed (stop_routines p d) = well_typed d"
proof -
  let ?f = "\<lambda>d e. if IsDropped e d then d else Drop e d"
  have f: "well_typed (foldl ?f d1 xs) = well_typed d1" "peer_at (foldl ?f d1 xs) q = peer_at d1 q" for d1 xs q
    by (rule foldl_keeps, simp add: Drop_def)+
  show "p_isRunning (peer_at (stop_routines p d) q) = p_isRunning (peer_at d q)"
    "p_signals (peer_at (stop_routines p d) q) = p_signals (peer_at d q)"
    "ch_closed (pq_nonce (p_queue (peer_at (stop_routines p d) q))) = ch_closed (pq_nonce (p_queue (peer_at d q)))"
    "ch_closed (pq_outbound (p_queue (peer_at (stop_routines p d) q))) = ch_closed (pq_outbound (p_queue (peer_at d q)))"
    "ch_closed (pq_inbound (p_queue (peer_at (stop_routines p d) q))) = ch_closed (pq_inbound (p_queue (peer_at d q)))"
    by (simp_all add: stop_routines_def Let_def f set_queue_def set_awaiting_def set_held_def flush_def)
  show "well_typed (stop_routines p d) = well_typed d" by (simp add: stop_routines_def Let_def f)
qed

lemma Peer_Stop_total:
  assumes "well_typed d"
  shows "\<exists>d'. Peer_Stop p d = Some d' \<and> well_typed d'"
proof (cases "p_isRunning (peer_at d p)")
  case True
  then have o: "p_stop (peer_at d p) = OpenChan" "\<not> ch_closed (pq_nonce (p_queue (peer_at d p)))"
    "\<not> ch_closed (pq_outbound (p_queue (peer_at d p)))" "\<not> ch_closed (pq_inbound (p_queue (peer_at d p)))"
    using assms by (simp_all add: well_typed_def peer_open_def)
  show ?thesis
    using assms True o typed_signal_open [OF assms, of p]
    by (auto simp: Peer_Stop_def Let_def close_chan_of_def timersStop_def set_timers_def set_queue_def peer_open_def
      intro!: ZeroAndFlushAll_total well_typed_peer)
qed (simp add: Peer_Stop_def assms)

lemma typed_add_peer: "well_typed d \<Longrightarrow> peer_open x \<Longrightarrow> well_typed (add_peer x d)"
  by (auto simp: well_typed_defs)

lemma typed_close: "well_typed d \<Longrightarrow> well_typed (FlushPacketQueues (stop_workers d))"
proof -
  have empty: "well_typed (d1\<lparr>dev_queue := q\<rparr>)"
    if "well_typed d1" "ch_buf (dq_decryption q) = [] \<or> dq_decryption q = dq_decryption (dev_queue d1)" "ch_buf (dq_encryption q) = []"
      "\<not> ch_closed (dq_decryption q)" "\<not> ch_closed (dq_handshake q)" "\<not> ch_closed (dq_encryption q)" for d1 q
    using that by (auto simp: well_typed_defs heap_defs)
  have o: "\<not> ch_closed (dq_decryption (dev_queue d1)) \<and> \<not> ch_closed (dq_handshake (dev_queue d1)) \<and> \<not> ch_closed (dq_encryption (dev_queue d1))"
    if "well_typed d1" for d1 using that by (simp add: well_typed_defs)
  let ?f = "\<lambda>d e. if IsDropped e d then d else set_out e ((out_at d e)\<lparr>oe_dropped := True, oe_locked := False\<rparr>) d"
  have f: "well_typed (foldl ?f d1 xs) = well_typed d1" "dev_queue (foldl ?f d1 xs) = dev_queue d1" for d1 xs
    by (rule foldl_keeps, simp)+
  have g: "well_typed (foldl (\<lambda>d e. In_Drop e d) d1 xs) = well_typed d1" "well_typed (foldl (\<lambda>d e. Drop e d) d1 xs) = well_typed d1" for d1 xs
    by (rule foldl_keeps, simp add: In_Drop_def)+
  assume "well_typed d"
  then have "well_typed (stop_workers d)" using o [of d] unfolding stop_workers_def Let_def by (intro empty) (simp_all add: f)
  then show ?thesis using o unfolding FlushPacketQueues_def Let_def by (intro empty) (simp_all add: g)
qed

section \<open>The inbound path\<close>

lemma typed_new_element:
  assumes "well_typed d"
  shows "well_typed (add_in x d)"
proof -
  have "in_at (add_in x d) e = in_at d e" if "e < hp_next_in (dev_heap d)" for e using that by simp
  then show ?thesis using assms by (auto simp: well_typed_defs)
qed

lemma addToInboundAndDecryptionQueues_total:
  assumes "well_typed d" "fresh_element e d" "p_isRunning (peer_at d p)"
  shows "\<exists>b d'. addToInboundAndDecryptionQueues p e d = Some (b, d') \<and> well_typed d'"
proof -
  have "\<not> ch_closed (pq_inbound (p_queue (peer_at d p)))" "\<not> ch_closed (dq_decryption (dev_queue d))"
    using assms by (simp_all add: well_typed_defs peer_open_def)
  moreover have enq: "well_typed (d1\<lparr>dev_queue := q\<lparr>dq_decryption := (dq_decryption q)\<lparr>ch_buf := ch_buf (dq_decryption q) @ [e]\<rparr>\<rparr>\<rparr>)"
    if "dev_queue d1 = q" "well_typed d1" "e \<notin> set (ch_buf (dq_decryption q))" "transport_element d1 e" for d1 q
    using that by (auto simp: well_typed_defs heap_defs)
  moreover have "transport_element (set_queue p q d) e = transport_element d e" for q by (simp add: transport_element_def set_queue_def)
  ultimately show ?thesis
    using assms by (auto simp: addToInboundAndDecryptionQueues_def try_send_def Let_def In_Drop_def fresh_element_def intro!: enq)
qed

lemma sound_keypair:
  assumes "sound d" "ie_keypair (IndexTable_Lookup i (dev_indexTable d)) = Some k"
  shows "k < hp_next_keypair (dev_heap d)" "\<exists>p. ie_peer (IndexTable_Lookup i (dev_indexTable d)) = Some p"
proof -
  obtain e where e: "dev_indexTable d i = Some e" "IndexTable_Lookup i (dev_indexTable d) = e" "ie_keypair e = Some k"
    using assms(2) by (auto simp: IndexTable_Lookup_def split: option.splits)
  from assms(1) have "table_exact d" by (auto simp: sound_def index_inv_def index_ok_def)
  with e obtain p where p: "e = kp_entry p k" "k \<in> slot_set (p_keypairs (peer_at d p))"
    by (auto simp: table_exact_def exact_def hs_entry_def kp_entry_def)
  from p(2) assms(1) show "k < hp_next_keypair (dev_heap d)"
    using nonce_known [of d k p] by (auto simp: slot_set_def sound_def)
  show "\<exists>p. ie_peer (IndexTable_Lookup i (dev_indexTable d)) = Some p" using p e(2) by (simp add: kp_entry_def)
qed

lemma receive_transport_total:
  assumes "well_typed d" "sound d" "length packet \<le> MaxMessageSize"
  shows "\<exists>d'. receive_transport w packet endpoint d = Some d' \<and> well_typed d'"
proof (cases "length packet < MessageTransportSize")
  case False
  let ?i = "le_u32 (take 4 (drop 4 packet))" and ?e = "hp_next_in (dev_heap d)"
  have s: "slice MessageTransportOffsetReceiver MessageTransportOffsetCounter packet = Some (take 4 (drop 4 packet))"
    using False by (simp add: slice_def size_consts MessageTransportOffsetReceiver_def MessageTransportOffsetCounter_def MessageTransportOffsetContent_def)
  show ?thesis
  proof (cases "ie_keypair (IndexTable_Lookup ?i (dev_indexTable d))")
    case (Some k)
    obtain p where p: "ie_peer (IndexTable_Lookup ?i (dev_indexTable d)) = Some p" using sound_keypair(2) [OF assms(2) Some] by auto
    let ?d = "add_in \<lparr>ie_dropped = False, ie_locked = True, ie_packet = packet, ie_counter = 0, ie_keypair_used = Some k,
      ie_endpoint = endpoint\<rparr> d"
    have "well_typed ?d" by (rule typed_new_element [OF assms(1)])
    moreover have "fresh_element ?e ?d"
      using assms(1,3) False sound_keypair(1) [OF assms(2) Some]
      by (auto simp: fresh_element_def well_typed_defs)
    ultimately have "\<exists>b d'. addToInboundAndDecryptionQueues p ?e ?d = Some (b, d') \<and> well_typed d'" if "p_isRunning (peer_at ?d p)"
      using addToInboundAndDecryptionQueues_total that by blast
    then show ?thesis
      using False assms(1) \<open>well_typed ?d\<close>
      by (auto simp: receive_transport_def s Some p new_in_def Let_def)
  qed (use assms(1) False in \<open>simp add: receive_transport_def s Let_def\<close>)
qed (use assms(1) in \<open>simp add: receive_transport_def\<close>)

lemma decrypt_element_total:
  assumes "length (kp_receive keypair) = 8" "length packet \<in> {MessageTransportSize..MaxMessageSize}"
  shows "\<exists>r. decrypt_element keypair packet = Some r"
proof -
  let ?c = "take 8 (drop 8 packet)"
  have s: "slice MessageTransportOffsetCounter MessageTransportOffsetContent packet = Some ?c"
    using assms(2) by (simp add: slice_def size_consts MessageTransportOffsetReceiver_def MessageTransportOffsetCounter_def MessageTransportOffsetContent_def)
  have "ok_nonce (replicate 4 0 @ ?c)" "length (drop MessageTransportOffsetContent packet) < 2 ^ 30"
    using assms(2) by (auto simp: ok_nonce_def NonceSize_def size_consts MessageTransportOffsetReceiver_def MessageTransportOffsetCounter_def MessageTransportOffsetContent_def)
  then obtain r where "Open (kp_receive keypair) (replicate 4 0 @ ?c) (drop MessageTransportOffsetContent packet) [] = Some r"
    using aead.unseal_total [OF assms(1)] by blast
  then show ?thesis by (simp add: decrypt_element_def s Let_def)
qed

lemma RoutineDecryption_total:
  assumes "well_typed d"
  shows "\<exists>d'. RoutineDecryption d = Some d' \<and> well_typed d'"
proof (cases "ch_buf (dq_decryption (dev_queue d))")
  case (Cons e es)
  let ?q = "dq_decryption (dev_queue d)"
  let ?d = "d\<lparr>dev_queue := (dev_queue d)\<lparr>dq_decryption := ?q\<lparr>ch_buf := es\<rparr>\<rparr>\<rparr>"
  have ok: "well_typed ?d" "e \<notin> set es" "transport_element d e"
    using assms Cons by (auto simp: well_typed_defs heap_defs)
  then obtain k where k: "ie_keypair_used (in_at d e) = Some k" "k < hp_next_keypair (dev_heap d)" by (auto simp: transport_element_def)
  then have "length (kp_receive (keypair_at d k)) = 8" using assms by (simp add: well_typed_def keys_ok_def)
  then obtain c r where r: "decrypt_element (keypair_at d k) (ie_packet (in_at d e)) = Some (c, r)"
    using decrypt_element_total [of "keypair_at d k"] ok(3) by (fastforce simp: transport_element_def)
  have at: "in_at ?d f = in_at d f" "keypair_at ?d j = keypair_at d j" for f j by (simp_all add: heap_defs)
  have "well_typed (set_in e x ?d)" for x using ok(1,2) by (auto simp: well_typed_defs)
  then show ?thesis using ok(1) k r by (auto simp: RoutineDecryption_def try_recv_def Cons at Let_def)
qed (use assms in \<open>simp add: RoutineDecryption_def try_recv_def\<close>)

section \<open>All steps\<close>

lemma total_returning: "\<exists>d'. m = Some d' \<and> P d' \<Longrightarrow> returning P m"
  by auto

interpretation typed_sessions: session_invariant well_typed sound
proof unfold_locales
  show "well_typed (set_replay k f d) = well_typed d" for k f d by (simp add: set_replay_def)
  show "well_typed d \<Longrightarrow> well_typed (add_peer (new_Peer\<lparr>p_cookieGenerator := g\<rparr>) d)" for d g
    by (rule typed_add_peer) (simp_all add: peer_open_def new_Peer_def nil_chan_def make_chan_def)
qed (simp_all add: typed_BeginSymmetricSession total_returning [OF ZeroAndFlushAll_total] typed_SendKeepalive typed_Peer_Start
  total_returning [OF Peer_Stop_total] typed_close typed_RoutineReadFromTUN typed_RoutineNonce typed_RoutineEncryption
  total_returning [OF receive_transport_total] total_returning [OF RoutineDecryption_total] sound_def)

lemma well_typed_new: "NewDevice w = Some d \<Longrightarrow> well_typed d"
proof -
  assume "NewDevice w = Some d"
  then have "dev_heap d = dev_heap zero_Device" "dev_queue d = \<lparr>dq_encryption = make_chan QueueOutboundSize,
      dq_decryption = make_chan QueueInboundSize, dq_handshake = make_chan QueueHandshakeSize\<rparr>"
    by (auto simp: NewDevice_def Let_def bind_eq_Some_conv)
  then show ?thesis
    by (simp add: well_typed_defs peer_at_def out_at_def zero_Device_def new_Peer_def peer_open_def zero_OutboundElement_def fits_def
      nil_chan_def make_chan_def)
qed

lemma RoutineReceiveIncoming_returns:
  assumes "receive_transport w packet endpoint d \<noteq> None" "\<And>e. addToHandshakeQueue e d \<noteq> None"
  shows "RoutineReceiveIncoming w packet endpoint d \<noteq> None"
proof -
  have r: "(if a then Some d else if b then t else if c then do { (sent, d) \<leftarrow> q; Some d } else Some d) \<noteq> None"
    if "t \<noteq> None" "q \<noteq> None" for a b c t and q :: "(bool \<times> Device) option"
    using that by auto
  show ?thesis unfolding RoutineReceiveIncoming_def Let_def by (rule r) (rule assms)+
qed

interpretation typed_invariant: device_invariant good_indices "\<lambda>d. well_typed d \<and> sound d"
  by unfold_locales (auto simp: sound_def intro: well_typed_new nonce_ok_new index_inv_new typed_sessions.P_step
    nonce_invariant.inv_step index_invariant.inv_step)



end
