(* ===== verification/Lifecycle.thy ===== *)
theory Lifecycle
  imports Totality
begin

text \<open>
  Bringing the device up and down settles: the operations return, and the sockets and the routines of the peers follow the
  state they leave. Changing the key of the device while a peer is running may block.
\<close>

section \<open>Notions\<close>

definition stopped :: "Device \<Rightarrow> bool" where
  "stopped d \<longleftrightarrow> net_bind (dev_net d) = None \<and> (\<forall>x \<in> set (dev_keyMap d). \<not> p_isRunning (peer_at d (snd x)))"

definition started :: "Device \<Rightarrow> bool" where
  "started d \<longleftrightarrow> net_bind (dev_net d) \<noteq> None \<and> (\<forall>x \<in> set (dev_keyMap d). p_isRunning (peer_at d (snd x)))"

definition control :: "Device \<Rightarrow> (NoisePublicKey \<times> peer_ref) list \<times> DeviceNet \<times> bool \<times> bool" where
  "control d = (dev_keyMap d, dev_net d, dev_isUp d, dev_isClosed d)"

definition running :: "Device \<Rightarrow> peer_ref \<Rightarrow> bool" where
  "running d p = p_isRunning (peer_at d p)"

text \<open>The body of the first loop of \<open>SetPrivateKey\<close>.\<close>

definition remove_equal :: "NoisePublicKey \<Rightarrow> NoisePublicKey \<times> peer_ref \<Rightarrow> Device \<Rightarrow> Device option" where
  "remove_equal pk x d =
     (case x of (key, p) \<Rightarrow> if NoisePublicKey_Equals (h_remoteStatic (handshake_at d p)) pk then remove_locked p key d else Some d)"

section \<open>What starting and stopping peers leaves alone\<close>

lemma control_Peer_Start [simp]: "control (Peer_Start w p d) = control d"
  by (simp add: control_def Peer_Start_def Let_def set_queue_def set_signals_def timersInit_def)

lemma running_Peer_Start [simp]: "\<not> dev_isClosed d \<Longrightarrow> running (Peer_Start w p d) q \<longleftrightarrow> running d q \<or> q = p"
  by (auto simp: running_def Peer_Start_def Let_def set_queue_def set_signals_def set_handshake_def timersInit_def set_timers_def)

lemma start_all:
  assumes "well_typed d" "\<not> dev_isClosed d"
  shows "control (foldl (\<lambda>d p. Peer_Start w p d) d ps) = control d" "well_typed (foldl (\<lambda>d p. Peer_Start w p d) d ps)"
    "running (foldl (\<lambda>d p. Peer_Start w p d) d ps) q \<longleftrightarrow> running d q \<or> q \<in> set ps"
proof -
  show "control (foldl (\<lambda>d p. Peer_Start w p d) d ps) = control d" by (rule foldl_keeps) simp
  show "well_typed (foldl (\<lambda>d p. Peer_Start w p d) d ps)" using assms(1) by (rule foldl_invariant [where P = well_typed]) (rule typed_Peer_Start)
  show "running (foldl (\<lambda>d p. Peer_Start w p d) d ps) q \<longleftrightarrow> running d q \<or> q \<in> set ps"
    using assms(2)
  proof (induction ps arbitrary: d)
    case (Cons p ps)
    have "\<not> dev_isClosed (Peer_Start w p d)" using control_Peer_Start [of w p d] Cons.prems by (simp add: control_def)
    then show ?case using Cons by auto
  qed simp
qed

lemma control_stop_routines [simp]: "control (stop_routines p d) = control d"
proof -
  let ?f = "\<lambda>d e. if IsDropped e d then d else Drop e d"
  have f: "control (foldl ?f d1 xs) = control d1" for d1 xs by (rule foldl_keeps) (simp add: Drop_def control_def)
  have "control (set_queue p q d1) = control d1" for q d1 by (simp add: control_def set_queue_def)
  then show ?thesis by (simp add: stop_routines_def Let_def f set_awaiting_def set_held_def flush_def)
qed

lemma ZeroAndFlushAll_control: "returning (\<lambda>d'. control d' = control d \<and> running d' = running d) (ZeroAndFlushAll p d)"
  by (auto simp: ZeroAndFlushAll_def FlushNonceQueue_def set_signals_def set_handshake_def Let_def control_def running_def case_prod_unfold fun_eq_iff
    intro!: returningI)

lemma control_set_peer [simp]: "control (set_peer p x d) = control d" "control (set_timers p t d) = control d" "control (set_queue p q d) = control d"
  by (simp_all add: control_def set_timers_def set_queue_def)

lemma running_set_peer [simp]:
  "running (set_peer p x d) q = (if q = p then p_isRunning x else running d q)" "running (set_timers p t d) q = running d q"
  "running (set_queue p c d) q = running d q" "running (stop_routines p d) q = running d q"
  by (simp_all add: running_def set_timers_def set_queue_def)

lemma control_timersStop [simp]: "control (timersStop p d) = control d" "running (timersStop p d) q = running d q"
  "p_isRunning (peer_at (timersStop p d) q) = p_isRunning (peer_at d q)"
  by (simp_all add: timersStop_def running_def Let_def)

lemma Peer_Stop_control: "returning (\<lambda>d'. control d' = control d \<and> (\<forall>q. running d' q \<longleftrightarrow> running d q \<and> q \<noteq> p)) (Peer_Stop p d)"
  by (auto simp: Peer_Stop_def Let_def running_def [of d p]
    intro!: returningI [where m = "close_chan x" for x] returningI [where m = "close_chan_of x" for x]
      returning_mono [OF ZeroAndFlushAll_control] split: if_splits)

lemma stop_all:
  assumes "well_typed d"
  shows "\<exists>d'. for_each Peer_Stop ps d = Some d' \<and> well_typed d' \<and> control d' = control d \<and> (\<forall>q. running d' q \<longleftrightarrow> running d q \<and> q \<notin> set ps)"
  using assms
proof (induction ps arbitrary: d)
  case (Cons p ps)
  obtain d1 where d1: "Peer_Stop p d = Some d1" "well_typed d1" using Peer_Stop_total [OF Cons.prems] by auto
  moreover have "control d1 = control d" "running d1 q \<longleftrightarrow> running d q \<and> q \<noteq> p" for q
    using returningD [OF Peer_Stop_control d1(1)] by auto
  moreover obtain d2 where "for_each Peer_Stop ps d1 = Some d2" "well_typed d2" "control d2 = control d1"
    "\<forall>q. running d2 q \<longleftrightarrow> running d1 q \<and> q \<notin> set ps"
    using Cons.IH [OF d1(2)] by auto
  ultimately show ?case by auto
qed simp

section \<open>Changes of state\<close>

lemma settled_state [simp]: "stopped (d\<lparr>dev_state := s\<rparr>) = stopped d" "started (d\<lparr>dev_state := s\<rparr>) = started d"
  by (simp_all add: stopped_def started_def peer_at_def)

lemma change_state_down:
  assumes "well_typed d" "\<not> dev_isUp d"
  shows "\<exists>d'. change_state w d = Some d' \<and> \<not> dev_isUp d' \<and> dev_state d' = \<lparr>ds_changing = False, ds_current = False\<rparr> \<and>
    dev_keyMap d' = dev_keyMap d \<and> stopped d'"
proof -
  let ?d = "snd (BindClose_op w (d\<lparr>dev_state := (dev_state d)\<lparr>ds_changing := True\<rparr>\<rparr>))"
  have b: "well_typed ?d" "control ?d = (dev_keyMap d, (dev_net d)\<lparr>net_bind := None\<rparr>, False, dev_isClosed d)" "dev_keyMap ?d = dev_keyMap d"
    using assms by (simp_all add: BindClose_op_def unsafeCloseBind_def set_net_def Let_def control_def)
  obtain d1 where d1: "for_each Peer_Stop (map snd (dev_keyMap d)) ?d = Some d1" "control d1 = control ?d"
    "\<forall>q. running d1 q \<longleftrightarrow> running ?d q \<and> q \<notin> set (map snd (dev_keyMap d))"
    using stop_all [OF b(1)] by blast
  have k: "dev_keyMap d1 = dev_keyMap d" "net_bind (dev_net d1) = None" "\<not> dev_isUp d1" using d1(2) b(2) by (simp_all add: control_def)
  have "stopped d1" using k d1(3) by (auto simp: stopped_def running_def)
  then show ?thesis using assms(2) d1(1) b(3) k by (simp add: change_state_def Let_def)
qed

lemma control_clear_sources [simp]: "control (clear_sources d) = control d"
  unfolding clear_sources_def by (rule foldl_keeps) (simp add: clear_src_def)

lemma BindUpdate_control:
  assumes "dev_isUp d"
  shows "dev_keyMap (snd (BindUpdate w d)) = dev_keyMap d" "dev_isUp (snd (BindUpdate w d))"
    "dev_isClosed (snd (BindUpdate w d)) = dev_isClosed d"
    "fst (BindUpdate w d) = None \<Longrightarrow> net_bind (dev_net (snd (BindUpdate w d))) \<noteq> None"
proof -
  have c: "dev_keyMap (clear_sources d1) = dev_keyMap d1" "dev_isClosed (clear_sources d1) = dev_isClosed d1"
    "dev_net (clear_sources d1) = dev_net d1" for d1
    using control_clear_sources [of d1] by (simp_all add: control_def)
  show "dev_keyMap (snd (BindUpdate w d)) = dev_keyMap d" "dev_isUp (snd (BindUpdate w d))"
    "dev_isClosed (snd (BindUpdate w d)) = dev_isClosed d"
    "fst (BindUpdate w d) = None \<Longrightarrow> net_bind (dev_net (snd (BindUpdate w d))) \<noteq> None"
    using assms by (auto simp: BindUpdate_def unsafeCloseBind_def set_net_def c Let_def split: option.splits if_splits)
qed

lemma change_state_up:
  assumes "well_typed d" "dev_isUp d" "\<not> dev_isClosed d"
  shows "\<exists>d'. change_state w d = Some d' \<and> well_typed d' \<and> dev_state d' = \<lparr>ds_changing = False, ds_current = True\<rparr> \<and>
    dev_keyMap d' = dev_keyMap d \<and> (dev_isUp d' \<longrightarrow> started d')"
proof -
  let ?d = "d\<lparr>dev_state := (dev_state d)\<lparr>ds_changing := True\<rparr>\<rparr>"
  obtain err d1 where b: "BindUpdate w ?d = (err, d1)" by (cases "BindUpdate w ?d")
  have d1: "well_typed d1" "dev_keyMap d1 = dev_keyMap d" "dev_isUp d1" "\<not> dev_isClosed d1"
    "err = None \<Longrightarrow> net_bind (dev_net d1) \<noteq> None"
    using assms typed_sessions.P_Bind(2) [of w ?d] BindUpdate_control [of ?d w] by (simp_all add: b)
  show ?thesis
  proof (cases err)
    case None
    let ?e = "foldl (\<lambda>d p. Peer_Start w p d) d1 (map snd (dev_keyMap d1))"
    note e = start_all [OF d1(1,4), of w "map snd (dev_keyMap d1)"]
    have "started ?e" using e(1,3) d1(5) [OF None] by (auto simp: started_def control_def running_def)
    then show ?thesis using e(1,2) d1(2) None assms(2) by (simp add: change_state_def Let_def b control_def)
  next
    case (Some x)
    then show ?thesis using d1 assms(2) by (simp add: change_state_def Let_def b)
  qed
qed

lemma settle_down:
  assumes "well_typed d" "\<not> dev_isUp d" "\<not> ds_changing (dev_state d)"
  shows "\<exists>d'. deviceUpdateState w d = Some d' \<and> \<not> dev_isUp d' \<and> \<not> ds_current (dev_state d') \<and> dev_keyMap d' = dev_keyMap d \<and>
    (ds_current (dev_state d) \<longrightarrow> stopped d')"
proof (cases "ds_current (dev_state d)")
  case True
  obtain d1 where d1: "change_state w d = Some d1" "\<not> dev_isUp d1" "dev_state d1 = \<lparr>ds_changing = False, ds_current = False\<rparr>"
    "dev_keyMap d1 = dev_keyMap d" "stopped d1" using change_state_down [OF assms(1,2)] by blast
  then show ?thesis using True assms d1
    by (simp add: deviceUpdateState.simps [of w d] deviceUpdateState.simps [of w d1])
qed (use assms in \<open>simp add: deviceUpdateState.simps\<close>)

lemma settle_up:
  assumes "well_typed d" "dev_isUp d" "\<not> dev_isClosed d" "dev_state d = \<lparr>ds_changing = False, ds_current = False\<rparr>"
  shows "\<exists>d'. deviceUpdateState w d = Some d' \<and> ds_current (dev_state d') = dev_isUp d' \<and> dev_keyMap d' = dev_keyMap d \<and>
    (if dev_isUp d' then started d' else stopped d')"
proof -
  obtain d1 where d1: "change_state w d = Some d1" "well_typed d1" "dev_state d1 = \<lparr>ds_changing = False, ds_current = True\<rparr>"
    "dev_keyMap d1 = dev_keyMap d" "dev_isUp d1 \<longrightarrow> started d1" using change_state_up [OF assms(1-3)] by blast
  have u: "deviceUpdateState w d = deviceUpdateState w d1" using assms d1(1) by (simp add: deviceUpdateState.simps [of w d])
  show ?thesis
  proof (cases "dev_isUp d1")
    case True
    then show ?thesis unfolding u using d1 by (simp add: deviceUpdateState.simps [of w d1])
  next
    case False
    then show ?thesis unfolding u using settle_down [OF d1(2) False, of w] d1(3,4) by auto
  qed
qed



section \<open>Changing the key of the device\<close>

lemma for_each_blocks:
  assumes "x \<in> set xs" "I d" "\<And>d. I d \<Longrightarrow> f x d = None" "\<And>y d d'. y \<in> set xs \<Longrightarrow> I d \<Longrightarrow> f y d = Some d' \<Longrightarrow> I d'"
  shows "for_each f xs d = None"
  using assms
proof (induction xs arbitrary: d)
  case (Cons y ys)
  show ?case
  proof (cases "f y d")
    case (Some d1)
    with Cons.prems have "x \<noteq> y" by auto
    then have "for_each f ys d1 = None" using Cons.prems Some by (intro Cons.IH) (auto 4 3)
    with Some show ?thesis by simp
  qed simp
qed simp

lemma for_each_invariant:
  assumes "I d" "\<And>y d d'. y \<in> set xs \<Longrightarrow> I d \<Longrightarrow> f y d = Some d' \<Longrightarrow> I d'"
  shows "returning I (for_each f xs d)"
  using assms
proof (induction xs arbitrary: d)
  case (Cons y ys)
  show ?case
  proof (cases "f y d")
    case (Some d1)
    then have "returning I (for_each f ys d1)" using Cons.prems by (intro Cons.IH) (auto 4 3)
    with Some show ?thesis by simp
  qed simp
qed simp

lemma remove_locked_effect:
  "remove_locked q k d = Some d' \<Longrightarrow>
    \<not> p_isRunning (peer_at d q) \<and> (\<forall>r. peer_at d' r = peer_at d r) \<and> dev_keyMap d' = filter (\<lambda>x. fst x \<noteq> k) (dev_keyMap d)"
  by (auto simp: remove_locked_def unsafeRemovePeer_def Peer_Stop_def peer_at_def split: if_splits)

lemma precompute_static_effect:
  "precompute_static w sk x d = Some d' \<Longrightarrow> p_isRunning (peer_at d' p) = p_isRunning (peer_at d p)"
  by (auto simp: precompute_static_def Let_def set_handshake_def dest!: remove_locked_effect split: prod.splits if_splits)

lemma remove_equal_keeps:
  assumes "remove_equal pk y d = Some d'" "y = (key, p) \<or> fst y \<noteq> key" "p_isRunning (peer_at d p)" "(key, p) \<in> set (dev_keyMap d)"
  shows "peer_at d' p = peer_at d p \<and> (key, p) \<in> set (dev_keyMap d')"
proof -
  obtain k q where y: "y = (k, q)" by (cases y)
  have "d' = d \<or> remove_locked q k d = Some d'" using assms(1) by (simp add: remove_equal_def y split: if_splits)
  then show ?thesis
  proof
    assume "remove_locked q k d = Some d'"
    from remove_locked_effect [OF this] have e: "\<not> p_isRunning (peer_at d q)" "peer_at d' p = peer_at d p"
      "dev_keyMap d' = filter (\<lambda>x. fst x \<noteq> k) (dev_keyMap d)" by simp_all
    with assms(2,3) have "k \<noteq> key" by (auto simp: y)
    with e(2,3) assms(4) show ?thesis by simp
  qed (simp add: assms(4))
qed

lemma SetPrivateKey_loops:
  "SetPrivateKey w sk d =
     do {
       d \<leftarrow> for_each (remove_equal (root_publicKey w sk)) (dev_keyMap d) d;
       let d = d\<lparr>dev_staticIdentity := \<lparr>si_privateKey = sk, si_publicKey = root_publicKey w sk\<rparr>,
                 dev_cookieChecker := CookieChecker_Init (root_publicKey w sk) (dev_cookieChecker d)\<rparr>;
       for_each (precompute_static w sk) (dev_keyMap d) d
     }"
proof -
  have "(\<lambda>(key, p) d. if NoisePublicKey_Equals (h_remoteStatic (handshake_at d p)) pk then remove_locked p key d else Some d) = remove_equal pk" for pk
    by (auto simp: fun_eq_iff remove_equal_def)
  then show ?thesis by (simp only: SetPrivateKey_def Let_def)
qed

lemma zero_key_blocks:
  assumes "RootPrivateKey_IsZero sk" "p_isRunning (peer_at d p)" "(key, p) \<in> set (dev_keyMap d)"
  shows "for_each (precompute_static w sk) (dev_keyMap d) d = None"
proof (rule for_each_blocks [where I = "\<lambda>d. p_isRunning (peer_at d p)", OF assms(3,2)])
  show "precompute_static w sk (key, p) d1 = None" if "p_isRunning (peer_at d1 p)" for d1
    using that assms(1) by (simp add: precompute_static_def remove_locked_def set_handshake_def isZero_iff)
qed (simp add: precompute_static_effect)



end
