(* ===== verification/Configuration.thy ===== *)
theory Configuration
  imports Steps
begin

text \<open>
  What the configuration protocol does when it adds a peer, and what it reports afterwards.
\<close>

section \<open>Adding a peer\<close>

lemma split_at_none: "sep \<notin> set s \<Longrightarrow> split_at sep s = [s]"
  by (induction s) auto

lemma split_at_pair: "sep \<notin> set key \<Longrightarrow> sep \<notin> set val \<Longrightarrow> split_at sep (key @ sep # val) = [key, val]"
  by (induction key) (auto simp: split_at_none)

lemma hex_no_separator: "CHR ''='' \<notin> set (hex_EncodeToString bs)"
proof -
  have "hexdigit b \<noteq> CHR ''=''" if "unat b < 16" for b
    using fromHexChar_hexdigit [OF that] by (auto simp: fromHexChar_def)
  then have "CHR ''='' \<noteq> hexdigit (drop_bit 4 b)" "CHR ''='' \<noteq> hexdigit (b AND 15)" for b using byte_nibbles(1,2) by metis+
  then show ?thesis by (simp add: hex_EncodeToString_def)
qed

lemma loadExactHex_Encode: "length bs = length dst \<Longrightarrow> loadExactHex dst (hex_EncodeToString bs) = Inr bs"
  by (simp add: loadExactHex_def hex_DecodeString_Encode copy_into_def)

lemma peer_at_keyMap [simp]: "peer_at (dev_keyMap_update f d) p = peer_at d p"
  by (simp add: peer_at_def)

lemma Peer_Start_fields [simp]:
  "h_remoteStatic (p_handshake (peer_at (Peer_Start w p d) q)) = h_remoteStatic (p_handshake (peer_at d q))"
  "h_presharedKey (p_handshake (peer_at (Peer_Start w p d) q)) = h_presharedKey (p_handshake (peer_at d q))"
  "dev_keyMap (Peer_Start w p d) = dev_keyMap d" "\<not> dev_isClosed d \<Longrightarrow> p_isRunning (peer_at (Peer_Start w p d) p)"
  by (auto simp: Peer_Start_def Let_def handshake_at_def set_handshake_def set_queue_def set_signals_def timersInit_def set_timers_def)

lemma NewPeer_adds:
  assumes "\<not> dev_isClosed d" "length (dev_keyMap d) < MaxPeers" "LookupPeer pk d = None" "NewPeer w pk d = (r, d')"
  shows "r = Inr (hp_next_peer (dev_heap d)) \<and> dev_keyMap d' = dev_keyMap d @ [(pk, hp_next_peer (dev_heap d))] \<and>
    h_remoteStatic (handshake_at d' (hp_next_peer (dev_heap d))) = pk \<and>
    h_presharedKey (handshake_at d' (hp_next_peer (dev_heap d))) = replicate 32 0 \<and>
    p_isRunning (peer_at d' (hp_next_peer (dev_heap d))) = dev_isUp d"
proof -
  have n: "h_presharedKey (p_handshake new_Peer) = replicate 32 0" "\<not> p_isRunning new_Peer"
    by (simp_all add: new_Peer_def new_Handshake_def)
  show ?thesis
    using assms n by (cases "dev_isUp d") (auto simp: NewPeer_def new_peer_def LookupPeer_def handshake_at_def set_handshake_def Let_def)
qed

text \<open>
  C40: a set operation with the public key of a peer that the device does not have, and a preshared key for it, succeeds: the device has
  the peer with both keys, the peer is running when the device is up, and a get operation reports both keys.
\<close>

theorem uapi_adds_peer:
  assumes "length pk = 32" "length psk = 32" "pk \<noteq> si_publicKey (dev_staticIdentity d)" "LookupPeer pk d = None"
    "\<not> dev_isClosed d" "length (dev_keyMap d) < MaxPeers"
  shows "\<exists>d' p. ipcHandle w ''set=1'' [''public_key='' @ NoisePublicKey_ToHex pk, ''preshared_key='' @ NoiseSymmetricKey_ToHex psk] d =
      Some ([''errno=0'', []], d') \<and> LookupPeer pk d' = Some p \<and> h_remoteStatic (handshake_at d' p) = pk \<and>
    h_presharedKey (handshake_at d' p) = psk \<and> p_isRunning (peer_at d' p) = dev_isUp d \<and>
    {''public_key='' @ NoisePublicKey_ToHex pk, ''preshared_key='' @ NoiseSymmetricKey_ToHex psk} \<subseteq> set (ipcGetOperation d')"
proof -
  let ?p = "hp_next_peer (dev_heap d)"
  obtain r d1 where n: "NewPeer w pk d = (r, d1)" by (cases "NewPeer w pk d")
  note d1 = NewPeer_adds [OF assms(5,6,4) n]
  let ?d = "set_handshake ?p ((handshake_at d1 ?p)\<lparr>h_presharedKey := psk\<rparr>) d1"
  have s: "split_at (CHR ''='') (''public_key='' @ NoisePublicKey_ToHex pk) = [''public_key'', NoisePublicKey_ToHex pk]"
    "split_at (CHR ''='') (''preshared_key='' @ NoiseSymmetricKey_ToHex psk) = [''preshared_key'', NoiseSymmetricKey_ToHex psk]"
    using split_at_pair [of "CHR ''=''" "''public_key''"] split_at_pair [of "CHR ''=''" "''preshared_key''"] hex_no_separator
    by (simp_all add: NoisePublicKey_ToHex_def NoiseSymmetricKey_ToHex_def)
  have sel: "select_peer w (NoisePublicKey_ToHex pk) v d = (Inr (v\<lparr>ipc_peer := ?p, ipc_dummy := False\<rparr>), d1)" for v
    using assms(1,3,4) d1 n by (simp add: select_peer_def NoisePublicKey_FromHex_def NoisePublicKey_ToHex_def loadExactHex_Encode Let_def)
  let ?v = "\<lparr>ipc_peer = ?p, ipc_dummy = False, ipc_deviceConfig = False\<rparr>"
  have l1: "ipc_line w ''public_key'' (NoisePublicKey_ToHex pk) \<lparr>ipc_peer = 0, ipc_dummy = False, ipc_deviceConfig = True\<rparr> d = Some (Inr ?v, d1)"
    by (simp add: ipc_line_def device_key_def peer_key_def sel)
  have l2: "ipc_line w ''preshared_key'' (NoiseSymmetricKey_ToHex psk) ?v d1 = Some (Inr ?v, ?d)"
    using assms(2) d1
    by (simp add: ipc_line_def peer_key_def NoiseSymmetricKey_FromHex_def NoiseSymmetricKey_ToHex_def loadExactHex_Encode Let_def)
  have "Itoa 0 = ''0''" by code_simp
  then have "ipcHandle w ''set=1'' [''public_key='' @ NoisePublicKey_ToHex pk, ''preshared_key='' @ NoiseSymmetricKey_ToHex psk] d =
      Some ([''errno=0'', []], ?d)"
    by (simp add: ipcHandle_def ipcSetOperation_def s [simplified] l1 l2)
  moreover have k: "dev_keyMap ?d = dev_keyMap d @ [(pk, ?p)]" using d1 by (simp add: set_handshake_def)
  moreover have "LookupPeer pk ?d = Some ?p" using assms(4) k by (simp add: LookupPeer_def map_add_def)
  moreover have x: "h_remoteStatic (handshake_at ?d ?p) = pk" "h_presharedKey (handshake_at ?d ?p) = psk" "p_isRunning (peer_at ?d ?p) = dev_isUp d"
    using d1 by (simp_all add: handshake_at_def set_handshake_def)
  moreover have "{''public_key='' @ NoisePublicKey_ToHex pk, ''preshared_key='' @ NoiseSymmetricKey_ToHex psk} \<subseteq> set (ipcGetOperation ?d)"
  proof -
    have "set (peer_lines ?d ?p) \<subseteq> set (ipcGetOperation ?d)" unfolding ipcGetOperation_def k by auto
    then show ?thesis using x(1,2) by (auto simp: peer_lines_def handshake_at_def Let_def)
  qed
  ultimately show ?thesis by blast
qed

text \<open>Witness of C40: two keys and a new device.\<close>

theorem uapi_adds_peer_witness:
  "\<exists>d d' p. NewDevice toy_World = Some d \<and>
     ipcHandle toy_World ''set=1'' [''public_key='' @ NoisePublicKey_ToHex (replicate 32 7), ''preshared_key='' @ NoiseSymmetricKey_ToHex (replicate 32 9)] d =
       Some ([''errno=0'', []], d') \<and> LookupPeer (replicate 32 7) d' = Some p \<and> h_presharedKey (handshake_at d' p) = replicate 32 9"
proof -
  obtain d where d: "NewDevice toy_World = Some d" by (rule NewDevice_toy)
  have s: "replicate 32 7 \<noteq> si_publicKey (dev_staticIdentity d)" "LookupPeer (replicate 32 7) d = None" "\<not> dev_isClosed d"
    "length (dev_keyMap d) < MaxPeers"
    using d by (auto simp: NewDevice_def Let_def bind_eq_Some_conv zero_Device_def LookupPeer_def MaxPeers_def replicate_eq_replicate)
  have l: "length (replicate 32 (7 :: byte)) = 32" "length (replicate 32 (9 :: byte)) = 32" by simp_all
  from uapi_adds_peer [OF l s, of toy_World] d show ?thesis by blast
qed

end
