(* ===== verification/Curve25519.thy ===== *)
theory Curve25519
  imports Prelude
begin

unbundle bit_operations_syntax

text \<open>
  The scalar multiplication of the vendored package \<^verbatim>\<open>golang.org/x/crypto/curve25519\<close> on the platforms without assembly
  (\<^verbatim>\<open>curve25519.go\<close>, \<^verbatim>\<open>doc.go\<close>): field elements of ten signed 32-bit limbs, their arithmetic with carries in 64 bits, the
  Montgomery ladder and the conversion to and from bytes. The code is proved equal to the ladder with the textbook
  formulas over the integers modulo \<open>2\<^sup>2\<^sup>5\<^sup>5 - 19\<close>, with no overflow anywhere.
\<close>

section \<open>Field elements\<close>

type_synonym i32 = "32 word"
type_synonym i64 = "64 word"
type_synonym fieldElement = "i32 list"

text \<open>The conversions of Go between the two widths: sign extension and truncation.\<close>

abbreviation int64 :: "i32 \<Rightarrow> i64" where "int64 x \<equiv> scast x"
abbreviation int32 :: "i64 \<Rightarrow> i32" where "int32 x \<equiv> ucast x"

definition feZero :: fieldElement where
  "feZero = map (\<lambda>i. 0) [0..<10]"

definition feOne :: fieldElement where
  "feOne = feZero[0 := 1]"

definition feAdd :: "fieldElement \<Rightarrow> fieldElement \<Rightarrow> fieldElement" where
  "feAdd a b = map (\<lambda>i. a ! i + b ! i) [0..<10]"

definition feSub :: "fieldElement \<Rightarrow> fieldElement \<Rightarrow> fieldElement" where
  "feSub a b = map (\<lambda>i. a ! i - b ! i) [0..<10]"

definition feCopy :: "fieldElement \<Rightarrow> fieldElement" where
  "feCopy src = map (\<lambda>i. src ! i) [0..<10]"

definition feCSwap :: "fieldElement \<Rightarrow> fieldElement \<Rightarrow> i32 \<Rightarrow> fieldElement \<times> fieldElement" where
  "feCSwap f g b =
     (let b = - b; t = map (\<lambda>i. b AND (f ! i XOR g ! i)) [0..<10]
      in (map (\<lambda>i. f ! i XOR t ! i) [0..<10], map (\<lambda>i. g ! i XOR t ! i) [0..<10]))"

text \<open>Reading three or four bytes from a position of the input on.\<close>

definition load3 :: "bytes \<Rightarrow> i64" where
  "load3 b = (ucast (b ! 0) OR push_bit 8 (ucast (b ! 1))) OR push_bit 16 (ucast (b ! 2))"

definition load4 :: "bytes \<Rightarrow> i64" where
  "load4 b = ucast (le_u32 b)"

section \<open>Carries\<close>

text \<open>
  One carry between limbs: \<open>carry[i] = (h_i + 1 << (b - 1)) >> b\<close>, added to the next limb, or to limb 0 times 19 for the last
  one, and taken off limb \<open>i\<close>. Limbs have 26 and 25 bits in turn.
\<close>

definition limb_bits :: "nat \<Rightarrow> nat" where
  "limb_bits i = (if even i then 26 else 25)"

definition carry :: "i64 list \<Rightarrow> nat \<Rightarrow> i64 list" where
  "carry h i =
     (let b = limb_bits i; c = signed_drop_bit b (h ! i + push_bit (b - 1) 1);
          h = (if i = 9 then h[0 := h ! 0 + c * 19] else h[Suc i := h ! Suc i + c])
      in h[i := h ! i - push_bit b c])"

text \<open>The order of the carries after a multiplication or squaring, and after the other operations.\<close>

definition carry_product :: "i64 list \<Rightarrow> fieldElement" where
  "carry_product h = map int32 (foldl carry h [0, 4, 1, 5, 2, 6, 3, 7, 4, 8, 9, 0])"

definition carry_parallel :: "i64 list \<Rightarrow> fieldElement" where
  "carry_parallel h = map int32 (foldl carry h [9, 1, 3, 5, 7, 0, 2, 4, 6, 8])"

definition feFromBytes :: "bytes \<Rightarrow> fieldElement" where
  "feFromBytes src =
     carry_parallel
       [load4 src, push_bit 6 (load3 (drop 4 src)), push_bit 5 (load3 (drop 7 src)), push_bit 3 (load3 (drop 10 src)),
        push_bit 2 (load3 (drop 13 src)), load4 (drop 16 src), push_bit 7 (load3 (drop 20 src)),
        push_bit 5 (load3 (drop 23 src)), push_bit 4 (load3 (drop 26 src)), push_bit 2 (load3 (drop 29 src))]"

text \<open>The carries of \<open>feToBytes\<close> do not round, and the last one is dropped.\<close>

definition carry_down :: "fieldElement \<Rightarrow> nat \<Rightarrow> fieldElement" where
  "carry_down h i =
     (let b = limb_bits i; c = signed_drop_bit b (h ! i);
          h = (if i = 9 then h else h[Suc i := h ! Suc i + c])
      in h[i := h ! i - push_bit b c])"

definition fe_quotient :: "fieldElement \<Rightarrow> i32" where
  "fe_quotient h = foldl (\<lambda>q i. signed_drop_bit (limb_bits i) (h ! i + q)) (signed_drop_bit 25 (19 * h ! 9 + push_bit 24 1)) [0..<10]"

definition pack :: "fieldElement \<Rightarrow> bytes" where
  "pack h = map (\<lambda>x. ucast x)
     [h ! 0, signed_drop_bit 8 (h ! 0), signed_drop_bit 16 (h ! 0), signed_drop_bit 24 (h ! 0) OR push_bit 2 (h ! 1),
      signed_drop_bit 6 (h ! 1), signed_drop_bit 14 (h ! 1), signed_drop_bit 22 (h ! 1) OR push_bit 3 (h ! 2),
      signed_drop_bit 5 (h ! 2), signed_drop_bit 13 (h ! 2), signed_drop_bit 21 (h ! 2) OR push_bit 5 (h ! 3),
      signed_drop_bit 3 (h ! 3), signed_drop_bit 11 (h ! 3), signed_drop_bit 19 (h ! 3) OR push_bit 6 (h ! 4),
      signed_drop_bit 2 (h ! 4), signed_drop_bit 10 (h ! 4), signed_drop_bit 18 (h ! 4),
      h ! 5, signed_drop_bit 8 (h ! 5), signed_drop_bit 16 (h ! 5), signed_drop_bit 24 (h ! 5) OR push_bit 1 (h ! 6),
      signed_drop_bit 7 (h ! 6), signed_drop_bit 15 (h ! 6), signed_drop_bit 23 (h ! 6) OR push_bit 3 (h ! 7),
      signed_drop_bit 5 (h ! 7), signed_drop_bit 13 (h ! 7), signed_drop_bit 21 (h ! 7) OR push_bit 4 (h ! 8),
      signed_drop_bit 4 (h ! 8), signed_drop_bit 12 (h ! 8), signed_drop_bit 20 (h ! 8) OR push_bit 6 (h ! 9),
      signed_drop_bit 2 (h ! 9), signed_drop_bit 10 (h ! 9), signed_drop_bit 18 (h ! 9)]"

definition feToBytes :: "fieldElement \<Rightarrow> bytes" where
  "feToBytes h = pack (foldl carry_down (h[0 := h ! 0 + 19 * fe_quotient h]) [0..<10])"

section \<open>Multiplication\<close>

definition feMul_limbs :: "fieldElement \<Rightarrow> fieldElement \<Rightarrow> i64 list" where
  "feMul_limbs f g =
     (let f0 = f ! 0; f1 = f ! 1; f2 = f ! 2; f3 = f ! 3; f4 = f ! 4; f5 = f ! 5; f6 = f ! 6; f7 = f ! 7; f8 = f ! 8;
          f9 = f ! 9; g0 = g ! 0; g1 = g ! 1; g2 = g ! 2; g3 = g ! 3; g4 = g ! 4; g5 = g ! 5; g6 = g ! 6; g7 = g ! 7;
          g8 = g ! 8; g9 = g ! 9; g1_19 = 19 * g1; g2_19 = 19 * g2; g3_19 = 19 * g3; g4_19 = 19 * g4; g5_19 = 19 * g5;
          g6_19 = 19 * g6; g7_19 = 19 * g7; g8_19 = 19 * g8; g9_19 = 19 * g9; f1_2 = 2 * f1; f3_2 = 2 * f3; f5_2 = 2 * f5;
          f7_2 = 2 * f7; f9_2 = 2 * f9; f0g0 = int64 f0 * int64 g0; f0g1 = int64 f0 * int64 g1; f0g2 = int64 f0 * int64 g2;
          f0g3 = int64 f0 * int64 g3; f0g4 = int64 f0 * int64 g4; f0g5 = int64 f0 * int64 g5; f0g6 = int64 f0 * int64 g6;
          f0g7 = int64 f0 * int64 g7; f0g8 = int64 f0 * int64 g8; f0g9 = int64 f0 * int64 g9; f1g0 = int64 f1 * int64 g0;
          f1g1_2 = int64 f1_2 * int64 g1; f1g2 = int64 f1 * int64 g2; f1g3_2 = int64 f1_2 * int64 g3;
          f1g4 = int64 f1 * int64 g4; f1g5_2 = int64 f1_2 * int64 g5; f1g6 = int64 f1 * int64 g6;
          f1g7_2 = int64 f1_2 * int64 g7; f1g8 = int64 f1 * int64 g8; f1g9_38 = int64 f1_2 * int64 g9_19;
          f2g0 = int64 f2 * int64 g0; f2g1 = int64 f2 * int64 g1; f2g2 = int64 f2 * int64 g2; f2g3 = int64 f2 * int64 g3;
          f2g4 = int64 f2 * int64 g4; f2g5 = int64 f2 * int64 g5; f2g6 = int64 f2 * int64 g6; f2g7 = int64 f2 * int64 g7;
          f2g8_19 = int64 f2 * int64 g8_19; f2g9_19 = int64 f2 * int64 g9_19; f3g0 = int64 f3 * int64 g0;
          f3g1_2 = int64 f3_2 * int64 g1; f3g2 = int64 f3 * int64 g2; f3g3_2 = int64 f3_2 * int64 g3;
          f3g4 = int64 f3 * int64 g4; f3g5_2 = int64 f3_2 * int64 g5; f3g6 = int64 f3 * int64 g6;
          f3g7_38 = int64 f3_2 * int64 g7_19; f3g8_19 = int64 f3 * int64 g8_19; f3g9_38 = int64 f3_2 * int64 g9_19;
          f4g0 = int64 f4 * int64 g0; f4g1 = int64 f4 * int64 g1; f4g2 = int64 f4 * int64 g2; f4g3 = int64 f4 * int64 g3;
          f4g4 = int64 f4 * int64 g4; f4g5 = int64 f4 * int64 g5; f4g6_19 = int64 f4 * int64 g6_19;
          f4g7_19 = int64 f4 * int64 g7_19; f4g8_19 = int64 f4 * int64 g8_19; f4g9_19 = int64 f4 * int64 g9_19;
          f5g0 = int64 f5 * int64 g0; f5g1_2 = int64 f5_2 * int64 g1; f5g2 = int64 f5 * int64 g2;
          f5g3_2 = int64 f5_2 * int64 g3; f5g4 = int64 f5 * int64 g4; f5g5_38 = int64 f5_2 * int64 g5_19;
          f5g6_19 = int64 f5 * int64 g6_19; f5g7_38 = int64 f5_2 * int64 g7_19; f5g8_19 = int64 f5 * int64 g8_19;
          f5g9_38 = int64 f5_2 * int64 g9_19; f6g0 = int64 f6 * int64 g0; f6g1 = int64 f6 * int64 g1;
          f6g2 = int64 f6 * int64 g2; f6g3 = int64 f6 * int64 g3; f6g4_19 = int64 f6 * int64 g4_19;
          f6g5_19 = int64 f6 * int64 g5_19; f6g6_19 = int64 f6 * int64 g6_19; f6g7_19 = int64 f6 * int64 g7_19;
          f6g8_19 = int64 f6 * int64 g8_19; f6g9_19 = int64 f6 * int64 g9_19; f7g0 = int64 f7 * int64 g0;
          f7g1_2 = int64 f7_2 * int64 g1; f7g2 = int64 f7 * int64 g2; f7g3_38 = int64 f7_2 * int64 g3_19;
          f7g4_19 = int64 f7 * int64 g4_19; f7g5_38 = int64 f7_2 * int64 g5_19; f7g6_19 = int64 f7 * int64 g6_19;
          f7g7_38 = int64 f7_2 * int64 g7_19; f7g8_19 = int64 f7 * int64 g8_19; f7g9_38 = int64 f7_2 * int64 g9_19;
          f8g0 = int64 f8 * int64 g0; f8g1 = int64 f8 * int64 g1; f8g2_19 = int64 f8 * int64 g2_19;
          f8g3_19 = int64 f8 * int64 g3_19; f8g4_19 = int64 f8 * int64 g4_19; f8g5_19 = int64 f8 * int64 g5_19;
          f8g6_19 = int64 f8 * int64 g6_19; f8g7_19 = int64 f8 * int64 g7_19; f8g8_19 = int64 f8 * int64 g8_19;
          f8g9_19 = int64 f8 * int64 g9_19; f9g0 = int64 f9 * int64 g0; f9g1_38 = int64 f9_2 * int64 g1_19;
          f9g2_19 = int64 f9 * int64 g2_19; f9g3_38 = int64 f9_2 * int64 g3_19; f9g4_19 = int64 f9 * int64 g4_19;
          f9g5_38 = int64 f9_2 * int64 g5_19; f9g6_19 = int64 f9 * int64 g6_19; f9g7_38 = int64 f9_2 * int64 g7_19;
          f9g8_19 = int64 f9 * int64 g8_19; f9g9_38 = int64 f9_2 * int64 g9_19;
          h0 = f0g0 + f1g9_38 + f2g8_19 + f3g7_38 + f4g6_19 + f5g5_38 + f6g4_19 + f7g3_38 + f8g2_19 + f9g1_38;
          h1 = f0g1 + f1g0 + f2g9_19 + f3g8_19 + f4g7_19 + f5g6_19 + f6g5_19 + f7g4_19 + f8g3_19 + f9g2_19;
          h2 = f0g2 + f1g1_2 + f2g0 + f3g9_38 + f4g8_19 + f5g7_38 + f6g6_19 + f7g5_38 + f8g4_19 + f9g3_38;
          h3 = f0g3 + f1g2 + f2g1 + f3g0 + f4g9_19 + f5g8_19 + f6g7_19 + f7g6_19 + f8g5_19 + f9g4_19;
          h4 = f0g4 + f1g3_2 + f2g2 + f3g1_2 + f4g0 + f5g9_38 + f6g8_19 + f7g7_38 + f8g6_19 + f9g5_38;
          h5 = f0g5 + f1g4 + f2g3 + f3g2 + f4g1 + f5g0 + f6g9_19 + f7g8_19 + f8g7_19 + f9g6_19;
          h6 = f0g6 + f1g5_2 + f2g4 + f3g3_2 + f4g2 + f5g1_2 + f6g0 + f7g9_38 + f8g8_19 + f9g7_38;
          h7 = f0g7 + f1g6 + f2g5 + f3g4 + f4g3 + f5g2 + f6g1 + f7g0 + f8g9_19 + f9g8_19;
          h8 = f0g8 + f1g7_2 + f2g6 + f3g5_2 + f4g4 + f5g3_2 + f6g2 + f7g1_2 + f8g0 + f9g9_38;
          h9 = f0g9 + f1g8 + f2g7 + f3g6 + f4g5 + f5g4 + f6g3 + f7g2 + f8g1 + f9g0
      in [h0, h1, h2, h3, h4, h5, h6, h7, h8, h9])"

definition feMul :: "fieldElement \<Rightarrow> fieldElement \<Rightarrow> fieldElement" where
  "feMul f g = carry_product (feMul_limbs f g)"

definition feSquare_limbs :: "fieldElement \<Rightarrow> i64 list" where
  "feSquare_limbs f =
     (let f0 = f ! 0; f1 = f ! 1; f2 = f ! 2; f3 = f ! 3; f4 = f ! 4; f5 = f ! 5; f6 = f ! 6; f7 = f ! 7; f8 = f ! 8;
          f9 = f ! 9; f0_2 = 2 * f0; f1_2 = 2 * f1; f2_2 = 2 * f2; f3_2 = 2 * f3; f4_2 = 2 * f4; f5_2 = 2 * f5; f6_2 = 2 * f6;
          f7_2 = 2 * f7; f5_38 = 38 * f5; f6_19 = 19 * f6; f7_38 = 38 * f7; f8_19 = 19 * f8; f9_38 = 38 * f9;
          f0f0 = int64 f0 * int64 f0; f0f1_2 = int64 f0_2 * int64 f1; f0f2_2 = int64 f0_2 * int64 f2;
          f0f3_2 = int64 f0_2 * int64 f3; f0f4_2 = int64 f0_2 * int64 f4; f0f5_2 = int64 f0_2 * int64 f5;
          f0f6_2 = int64 f0_2 * int64 f6; f0f7_2 = int64 f0_2 * int64 f7; f0f8_2 = int64 f0_2 * int64 f8;
          f0f9_2 = int64 f0_2 * int64 f9; f1f1_2 = int64 f1_2 * int64 f1; f1f2_2 = int64 f1_2 * int64 f2;
          f1f3_4 = int64 f1_2 * int64 f3_2; f1f4_2 = int64 f1_2 * int64 f4; f1f5_4 = int64 f1_2 * int64 f5_2;
          f1f6_2 = int64 f1_2 * int64 f6; f1f7_4 = int64 f1_2 * int64 f7_2; f1f8_2 = int64 f1_2 * int64 f8;
          f1f9_76 = int64 f1_2 * int64 f9_38; f2f2 = int64 f2 * int64 f2; f2f3_2 = int64 f2_2 * int64 f3;
          f2f4_2 = int64 f2_2 * int64 f4; f2f5_2 = int64 f2_2 * int64 f5; f2f6_2 = int64 f2_2 * int64 f6;
          f2f7_2 = int64 f2_2 * int64 f7; f2f8_38 = int64 f2_2 * int64 f8_19; f2f9_38 = int64 f2 * int64 f9_38;
          f3f3_2 = int64 f3_2 * int64 f3; f3f4_2 = int64 f3_2 * int64 f4; f3f5_4 = int64 f3_2 * int64 f5_2;
          f3f6_2 = int64 f3_2 * int64 f6; f3f7_76 = int64 f3_2 * int64 f7_38; f3f8_38 = int64 f3_2 * int64 f8_19;
          f3f9_76 = int64 f3_2 * int64 f9_38; f4f4 = int64 f4 * int64 f4; f4f5_2 = int64 f4_2 * int64 f5;
          f4f6_38 = int64 f4_2 * int64 f6_19; f4f7_38 = int64 f4 * int64 f7_38; f4f8_38 = int64 f4_2 * int64 f8_19;
          f4f9_38 = int64 f4 * int64 f9_38; f5f5_38 = int64 f5 * int64 f5_38; f5f6_38 = int64 f5_2 * int64 f6_19;
          f5f7_76 = int64 f5_2 * int64 f7_38; f5f8_38 = int64 f5_2 * int64 f8_19; f5f9_76 = int64 f5_2 * int64 f9_38;
          f6f6_19 = int64 f6 * int64 f6_19; f6f7_38 = int64 f6 * int64 f7_38; f6f8_38 = int64 f6_2 * int64 f8_19;
          f6f9_38 = int64 f6 * int64 f9_38; f7f7_38 = int64 f7 * int64 f7_38; f7f8_38 = int64 f7_2 * int64 f8_19;
          f7f9_76 = int64 f7_2 * int64 f9_38; f8f8_19 = int64 f8 * int64 f8_19; f8f9_38 = int64 f8 * int64 f9_38;
          f9f9_38 = int64 f9 * int64 f9_38; h0 = f0f0 + f1f9_76 + f2f8_38 + f3f7_76 + f4f6_38 + f5f5_38;
          h1 = f0f1_2 + f2f9_38 + f3f8_38 + f4f7_38 + f5f6_38; h2 = f0f2_2 + f1f1_2 + f3f9_76 + f4f8_38 + f5f7_76 + f6f6_19;
          h3 = f0f3_2 + f1f2_2 + f4f9_38 + f5f8_38 + f6f7_38; h4 = f0f4_2 + f1f3_4 + f2f2 + f5f9_76 + f6f8_38 + f7f7_38;
          h5 = f0f5_2 + f1f4_2 + f2f3_2 + f6f9_38 + f7f8_38; h6 = f0f6_2 + f1f5_4 + f2f4_2 + f3f3_2 + f7f9_76 + f8f8_19;
          h7 = f0f7_2 + f1f6_2 + f2f5_2 + f3f4_2 + f8f9_38; h8 = f0f8_2 + f1f7_4 + f2f6_2 + f3f5_4 + f4f4 + f9f9_38;
          h9 = f0f9_2 + f1f8_2 + f2f7_2 + f3f6_2 + f4f5_2
      in [h0, h1, h2, h3, h4, h5, h6, h7, h8, h9])"

definition feSquare :: "fieldElement \<Rightarrow> fieldElement" where
  "feSquare f = carry_product (feSquare_limbs f)"

definition feMul121666 :: "fieldElement \<Rightarrow> fieldElement" where
  "feMul121666 f = carry_parallel (map (\<lambda>i. int64 (f ! i) * 121666) [0..<10])"

text \<open>The loops \<open>for i = 1; i < n; i++\<close> square \<open>n - 1\<close> times after a first squaring: \<open>n\<close> times in all.\<close>

primrec squarings :: "nat \<Rightarrow> fieldElement \<Rightarrow> fieldElement" where
  "squarings 0 t = t"
| "squarings (Suc n) t = squarings n (feSquare t)"

definition feInvert :: "fieldElement \<Rightarrow> fieldElement" where
  "feInvert z =
     (let t0 = squarings 1 z;
          t1 = squarings 2 t0;
          t1 = feMul z t1;
          t0 = feMul t0 t1;
          t2 = squarings 1 t0;
          t1 = feMul t1 t2;
          t2 = squarings 5 t1;
          t1 = feMul t2 t1;
          t2 = squarings 10 t1;
          t2 = feMul t2 t1;
          t3 = squarings 20 t2;
          t2 = feMul t3 t2;
          t2 = squarings 10 t2;
          t1 = feMul t2 t1;
          t2 = squarings 50 t1;
          t2 = feMul t2 t1;
          t3 = squarings 100 t2;
          t2 = feMul t3 t2;
          t2 = squarings 50 t2;
          t1 = feMul t2 t1;
          t1 = squarings 5 t1
      in feMul t1 t0)"

section \<open>The ladder\<close>

text \<open>The five variables of the loop of \<open>scalarMult\<close>.\<close>

record Ladder =
  l_x2 :: fieldElement
  l_z2 :: fieldElement
  l_x3 :: fieldElement
  l_z3 :: fieldElement
  l_swap :: i32

definition clamp :: "bytes \<Rightarrow> bytes" where
  "clamp e = (let e = e[0 := e ! 0 AND 248]; e = e[31 := e ! 31 AND 127] in e[31 := e ! 31 OR 64])"

definition cswap :: "i32 \<Rightarrow> Ladder \<Rightarrow> Ladder" where
  "cswap b s =
     (let (x2', x3') = feCSwap (l_x2 s) (l_x3 s) b; (z2', z3') = feCSwap (l_z2 s) (l_z3 s) b
      in s\<lparr>l_x2 := x2', l_z2 := z2', l_x3 := x3', l_z3 := z3'\<rparr>)"

definition ladder_step :: "fieldElement \<Rightarrow> Ladder \<Rightarrow> Ladder" where
  "ladder_step x1 s =
     (let tmp0 = feSub (l_x3 s) (l_z3 s);
          tmp1 = feSub (l_x2 s) (l_z2 s);
          x2' = feAdd (l_x2 s) (l_z2 s);
          z2' = feAdd (l_x3 s) (l_z3 s);
          z3' = feMul tmp0 x2';
          z2' = feMul z2' tmp1;
          tmp0 = feSquare tmp1;
          tmp1 = feSquare x2';
          x3' = feAdd z3' z2';
          z2' = feSub z3' z2';
          x2' = feMul tmp1 tmp0;
          tmp1 = feSub tmp1 tmp0;
          z2' = feSquare z2';
          z3' = feMul121666 tmp1;
          x3' = feSquare x3';
          tmp0 = feAdd tmp0 z3';
          z3' = feMul x1 z2';
          z2' = feMul tmp1 tmp0
      in s\<lparr>l_x2 := x2', l_z2 := z2', l_x3 := x3', l_z3 := z3'\<rparr>)"

definition ladder_bit :: "bytes \<Rightarrow> nat \<Rightarrow> i32" where
  "ladder_bit e pos = ucast (drop_bit (pos mod 8) (e ! (pos div 8)) AND 1)"

definition ladder_round :: "bytes \<Rightarrow> fieldElement \<Rightarrow> Ladder \<Rightarrow> nat \<Rightarrow> Ladder" where
  "ladder_round e x1 s pos =
     (let b = ladder_bit e pos; s = cswap (l_swap s XOR b) s
      in ladder_step x1 (s\<lparr>l_swap := b\<rparr>))"

definition scalarMult :: "bytes \<Rightarrow> bytes \<Rightarrow> bytes" where
  "scalarMult inp base =
     (let e = clamp inp;
          x1 = feFromBytes base;
          s = \<lparr>l_x2 = feOne, l_z2 = feZero, l_x3 = feCopy x1, l_z3 = feOne, l_swap = 0\<rparr>;
          s = foldl (ladder_round e x1) s (rev [0..<255]);
          s = cswap (l_swap s) s;
          z = feInvert (l_z2 s);
          x = feMul (l_x2 s) z
      in feToBytes x)"

definition basePoint :: bytes where
  "basePoint = 9 # replicate 31 0"

definition ScalarMult :: "bytes \<Rightarrow> bytes \<Rightarrow> bytes" where
  "ScalarMult inp base = scalarMult inp base"

definition ScalarBaseMult :: "bytes \<Rightarrow> bytes" where
  "ScalarBaseMult inp = ScalarMult inp basePoint"

section \<open>Signed words as integers\<close>

lemma sint_of_int64: "\<bar>n\<bar> < 9223372036854775808 \<Longrightarrow> sint (of_int n :: i64) = n"
  by (simp add: signed_of_int signed_take_bit_int_eq_self)

lemma sint_of_int32: "\<bar>n\<bar> < 2147483648 \<Longrightarrow> sint (of_int n :: i32) = n"
  by (simp add: signed_of_int signed_take_bit_int_eq_self)

lemma int64_of_sint: "int64 x = of_int (sint x)"
  by simp

lemma shift_of_int: "push_bit n (of_int x :: 'a::len word) = of_int (2 ^ n * x)"
  by (simp add: push_bit_eq_mult mult.commute)

lemma sint_carry: "sint (signed_drop_bit n w) = sint w div 2 ^ n"
  by (simp add: sint_signed_drop_bit_eq drop_bit_eq_div)

section \<open>Limbs and their values\<close>

definition p25519 :: int where
  "p25519 = 2 ^ 255 - 19"

definition val :: "int list \<Rightarrow> int" where
  "val h = h ! 0 + 2 ^ 26 * h ! 1 + 2 ^ 51 * h ! 2 + 2 ^ 77 * h ! 3 + 2 ^ 102 * h ! 4 + 2 ^ 128 * h ! 5 + 2 ^ 153 * h ! 6 +
     2 ^ 179 * h ! 7 + 2 ^ 204 * h ! 8 + 2 ^ 230 * h ! 9"

text \<open>Ten limbs within given bounds.\<close>

definition within :: "int list \<Rightarrow> int list \<Rightarrow> bool" where
  "within B h \<longleftrightarrow> list_all2 (\<lambda>b x. \<bar>x\<bar> \<le> b) B h"

definition carryZ :: "int list \<Rightarrow> nat \<Rightarrow> int list" where
  "carryZ h i =
     (let b = limb_bits i; c = (h ! i + 2 ^ (b - 1)) div 2 ^ b;
          h = (if i = 9 then h[0 := h ! 0 + c * 19] else h[Suc i := h ! Suc i + c])
      in h[i := h ! i - 2 ^ b * c])"

text \<open>The bounds after a carry.\<close>

definition carry_bounds :: "int list \<Rightarrow> nat \<Rightarrow> int list" where
  "carry_bounds B i =
     (let b = limb_bits i; c = B ! i div 2 ^ b + 1;
          B = (if i = 9 then B[0 := B ! 0 + c * 19] else B[Suc i := B ! Suc i + c])
      in B[i := 2 ^ (b - 1)])"

lemma carry_digit:
  fixes x :: int
  assumes "\<bar>x\<bar> \<le> B" "0 < b"
  defines "c \<equiv> (x + 2 ^ (b - 1)) div 2 ^ b"
  shows "\<bar>c\<bar> \<le> B div 2 ^ b + 1" "\<bar>x - 2 ^ b * c\<bar> \<le> 2 ^ (b - 1)"
proof -
  define m :: int where "m = 2 ^ (b - 1)"
  have m: "(2 :: int) ^ b = 2 * m" "0 < m" using assms(2) by (simp_all add: m_def flip: power_Suc)
  define r where "r = (x + m) mod (2 * m)"
  have c: "c = (x + m) div (2 * m)" by (simp only: c_def m(1)) (simp add: m_def)
  have r: "x + m = 2 * m * c + r" "0 \<le> r" "r < 2 * m" using m(2) by (simp_all add: r_def c)
  then show "\<bar>x - 2 ^ b * c\<bar> \<le> 2 ^ (b - 1)" unfolding m(1) m_def [symmetric] by linarith
  define k where "k = B div (2 * m)"
  have "B = 2 * m * k + B mod (2 * m)" "B mod (2 * m) < 2 * m" using m(2) by (simp_all add: k_def)
  then have B: "B < 2 * m * (k + 1)" by (simp add: algebra_simps)
  have "2 * m * c < 2 * m * (k + 2)" using r B assms(1) m(2) by (simp add: algebra_simps)
  then have "c < k + 2" using m(2) by simp
  moreover have "2 * m * (- k - 2) < 2 * m * c" using r B assms(1) m(2) by (simp add: algebra_simps)
  then have "- k - 2 < c" using m(2) mult_less_cancel_left_pos [of "2 * m"] by simp
  ultimately show "\<bar>c\<bar> \<le> B div 2 ^ b + 1" by (simp add: m(1) k_def)
qed

lemma withinD: "within B h \<Longrightarrow> i < length B \<Longrightarrow> \<bar>h ! i\<bar> \<le> B ! i" "within B h \<Longrightarrow> length h = length B"
  by (auto simp: within_def list_all2_conv_all_nth)

lemma within_update: "within B h \<Longrightarrow> \<bar>x\<bar> \<le> b \<Longrightarrow> within (B[i := b]) (h[i := x])"
  by (auto simp: within_def intro: list_all2_update_cong)

lemma limb_bits_pos: "0 < limb_bits i" "limb_bits i = 25 \<or> limb_bits i = 26"
  by (auto simp: limb_bits_def)

lemma within_carryZ:
  assumes "within B h" "length B = 10" "i < 10"
  shows "within (carry_bounds B i) (carryZ h i)"
proof -
  let ?b = "limb_bits i" let ?c = "(h ! i + 2 ^ (?b - 1)) div 2 ^ ?b"
  have hi: "\<bar>h ! i\<bar> \<le> B ! i" using withinD [OF assms(1)] assms by simp
  note d = carry_digit [OF hi limb_bits_pos(1) [of i]]
  have j: "\<bar>h ! j\<bar> \<le> B ! j" if "j < 10" for j using withinD [OF assms(1)] assms that by simp
  have l: "length h = 10" using withinD(2) [OF assms(1)] assms(2) by simp
  show ?thesis
  proof (cases "i = 9")
    case True
    have "\<bar>h ! 0 + ?c * 19\<bar> \<le> B ! 0 + (B ! i div 2 ^ ?b + 1) * 19" using d(1) j [of 0] by simp
    then show ?thesis using True d(2) l
      by (auto simp: carryZ_def carry_bounds_def Let_def intro!: within_update assms(1))
  next
    case False
    then have "Suc i < 10" using assms(3) by simp
    then have "\<bar>h ! Suc i + ?c\<bar> \<le> B ! Suc i + (B ! i div 2 ^ ?b + 1)" using d(1) j [of "Suc i"] by linarith
    then show ?thesis using False d(2) l
      by (auto simp: carryZ_def carry_bounds_def Let_def intro!: within_update assms(1))
  qed
qed

text \<open>A carry in 64 bits is exact while the limbs stay below \<open>2\<^sup>6\<^sup>2\<close>.\<close>

lemma sint_list_update: "map sint (xs[i := x]) = (map sint xs)[i := sint x]"
  by (simp add: map_update)

lemma carry_exact:
  assumes "within B (map sint h)" "length B = 10" "i < 10" "\<forall>b \<in> set B. b \<le> 4611686018427387904"
  shows "map sint (carry h i) = carryZ (map sint h) i"
proof -
  let ?b = "limb_bits i" and ?x = "sint (h ! i)" let ?c = "(?x + 2 ^ (?b - 1)) div 2 ^ ?b"
  have l: "length h = 10" using withinD(2) [OF assms(1)] assms(2) by simp
  have j: "\<bar>sint (h ! j)\<bar> \<le> B ! j" "B ! j \<le> 4611686018427387904" if "j < 10" for j
    using withinD(1) [OF assms(1), of j] assms that l by (simp_all add: in_set_conv_nth) (metis nth_mem)
  note d = carry_digit [OF j(1) [OF assms(3)] limb_bits_pos(1) [of i]]
  have p: "\<bar>(2 :: int) ^ (?b - 1)\<bar> \<le> 33554432" using limb_bits_pos(2) [of i] by auto
  have "B ! i div 2 ^ ?b \<le> 2 ^ 62 div 2 ^ 25"
    using limb_bits_pos(2) [of i] j(2) [OF assms(3)] by (auto simp: zdiv_mono1)
  then have c: "\<bar>?c\<bar> \<le> 137438953473" using d(1) by simp
  have "h ! i + push_bit (?b - 1) 1 = of_int (?x + 2 ^ (?b - 1))" by (simp add: push_bit_eq_mult)
  moreover have "\<bar>?x + 2 ^ (?b - 1)\<bar> < 9223372036854775808" using j [OF assms(3)] p by linarith
  ultimately have carry: "sint (signed_drop_bit ?b (h ! i + push_bit (?b - 1) 1)) = ?c"
    by (simp only: sint_carry sint_of_int64)
  define w where "w = signed_drop_bit ?b (h ! i + push_bit (?b - 1) 1)"
  have w1: "sint w = ?c" using carry by (simp add: w_def)
  have "w = of_int (sint w)" by simp
  then have w: "w = of_int ?c" unfolding w1 .
  have "h ! i - push_bit ?b w = of_int (?x - 2 ^ ?b * ?c)" by (simp add: w push_bit_eq_mult mult.commute)
  moreover have "\<bar>?x - 2 ^ ?b * ?c\<bar> < 9223372036854775808" using d(2) p by linarith
  ultimately have down: "sint (h ! i - push_bit ?b w) = ?x - 2 ^ ?b * ?c" by (simp only: sint_of_int64)
  have up: "sint (h ! j + w) = sint (h ! j) + ?c" "sint (h ! j + w * 19) = sint (h ! j) + ?c * 19" if "j < 10" for j
  proof -
    have "h ! j + w = of_int (sint (h ! j) + ?c)" "h ! j + w * 19 = of_int (sint (h ! j) + ?c * 19)" by (simp_all add: w)
    moreover have "\<bar>sint (h ! j) + ?c\<bar> < 9223372036854775808" "\<bar>sint (h ! j) + ?c * 19\<bar> < 9223372036854775808"
      using c j [OF that] by linarith+
    ultimately show "sint (h ! j + w) = sint (h ! j) + ?c" "sint (h ! j + w * 19) = sint (h ! j) + ?c * 19"
      by (simp_all only: sint_of_int64)
  qed
  show ?thesis
    using assms(3) l down up [of 0] up [of "Suc i"] unfolding carry_def carryZ_def Let_def w_def [symmetric]
    by (auto simp: sint_list_update)
qed

text \<open>Carries keep the value modulo the prime.\<close>

lemma val_update:
  assumes "length h = 10" "j < 10"
  shows "val (h[j := x]) = val h + 2 ^ ([0, 26, 51, 77, 102, 128, 153, 179, 204, 230] ! j) * (x - h ! j)"
proof -
  have "j = 0 \<or> j = 1 \<or> j = 2 \<or> j = 3 \<or> j = 4 \<or> j = 5 \<or> j = 6 \<or> j = 7 \<or> j = 8 \<or> j = 9" using assms(2) by arith
  then show ?thesis using assms(1) by (elim disjE) (simp_all add: val_def algebra_simps)
qed

lemma val_carryZ:
  assumes "length h = 10" "i < 10"
  shows "val (carryZ h i) mod p25519 = val h mod p25519"
proof (cases "i = 9")
  case True
  let ?c = "(h ! 9 + 2 ^ 24) div 2 ^ 25"
  have "val (carryZ h i) = val h + ?c * - p25519"
    using True assms(1) by (simp add: carryZ_def Let_def val_update limb_bits_def p25519_def algebra_simps)
  then show ?thesis by (simp only: mod_mult_self1 mod_mult_self2 mult_minus_right) (metis mod_mult_self1 mult_minus_left)
next
  case False
  then have "i = 0 \<or> i = 1 \<or> i = 2 \<or> i = 3 \<or> i = 4 \<or> i = 5 \<or> i = 6 \<or> i = 7 \<or> i = 8" using assms(2) by arith
  then have "val (carryZ h i) = val h"
    using assms(1) by (elim disjE) (simp_all add: carryZ_def Let_def val_update limb_bits_def)
  then show ?thesis by simp
qed

section \<open>Products of field elements\<close>

text \<open>The ten limbs of a product as integers: two odd limbs meet half a bit too low, and what leaves at the top counts 19 times.\<close>

definition productZ :: "int list \<Rightarrow> int list \<Rightarrow> int list" where
  "productZ f g =
     [f ! 0 * g ! 0 + 38 * (f ! 1 * g ! 9) + 19 * (f ! 2 * g ! 8) + 38 * (f ! 3 * g ! 7) + 19 * (f ! 4 * g ! 6) + 38 * (f ! 5 * g ! 5) + 19 * (f ! 6 * g ! 4) + 38 * (f ! 7 * g ! 3) + 19 * (f ! 8 * g ! 2) + 38 * (f ! 9 * g ! 1),
      f ! 0 * g ! 1 + f ! 1 * g ! 0 + 19 * (f ! 2 * g ! 9) + 19 * (f ! 3 * g ! 8) + 19 * (f ! 4 * g ! 7) + 19 * (f ! 5 * g ! 6) + 19 * (f ! 6 * g ! 5) + 19 * (f ! 7 * g ! 4) + 19 * (f ! 8 * g ! 3) + 19 * (f ! 9 * g ! 2),
      f ! 0 * g ! 2 + 2 * (f ! 1 * g ! 1) + f ! 2 * g ! 0 + 38 * (f ! 3 * g ! 9) + 19 * (f ! 4 * g ! 8) + 38 * (f ! 5 * g ! 7) + 19 * (f ! 6 * g ! 6) + 38 * (f ! 7 * g ! 5) + 19 * (f ! 8 * g ! 4) + 38 * (f ! 9 * g ! 3),
      f ! 0 * g ! 3 + f ! 1 * g ! 2 + f ! 2 * g ! 1 + f ! 3 * g ! 0 + 19 * (f ! 4 * g ! 9) + 19 * (f ! 5 * g ! 8) + 19 * (f ! 6 * g ! 7) + 19 * (f ! 7 * g ! 6) + 19 * (f ! 8 * g ! 5) + 19 * (f ! 9 * g ! 4),
      f ! 0 * g ! 4 + 2 * (f ! 1 * g ! 3) + f ! 2 * g ! 2 + 2 * (f ! 3 * g ! 1) + f ! 4 * g ! 0 + 38 * (f ! 5 * g ! 9) + 19 * (f ! 6 * g ! 8) + 38 * (f ! 7 * g ! 7) + 19 * (f ! 8 * g ! 6) + 38 * (f ! 9 * g ! 5),
      f ! 0 * g ! 5 + f ! 1 * g ! 4 + f ! 2 * g ! 3 + f ! 3 * g ! 2 + f ! 4 * g ! 1 + f ! 5 * g ! 0 + 19 * (f ! 6 * g ! 9) + 19 * (f ! 7 * g ! 8) + 19 * (f ! 8 * g ! 7) + 19 * (f ! 9 * g ! 6),
      f ! 0 * g ! 6 + 2 * (f ! 1 * g ! 5) + f ! 2 * g ! 4 + 2 * (f ! 3 * g ! 3) + f ! 4 * g ! 2 + 2 * (f ! 5 * g ! 1) + f ! 6 * g ! 0 + 38 * (f ! 7 * g ! 9) + 19 * (f ! 8 * g ! 8) + 38 * (f ! 9 * g ! 7),
      f ! 0 * g ! 7 + f ! 1 * g ! 6 + f ! 2 * g ! 5 + f ! 3 * g ! 4 + f ! 4 * g ! 3 + f ! 5 * g ! 2 + f ! 6 * g ! 1 + f ! 7 * g ! 0 + 19 * (f ! 8 * g ! 9) + 19 * (f ! 9 * g ! 8),
      f ! 0 * g ! 8 + 2 * (f ! 1 * g ! 7) + f ! 2 * g ! 6 + 2 * (f ! 3 * g ! 5) + f ! 4 * g ! 4 + 2 * (f ! 5 * g ! 3) + f ! 6 * g ! 2 + 2 * (f ! 7 * g ! 1) + f ! 8 * g ! 0 + 38 * (f ! 9 * g ! 9),
      f ! 0 * g ! 9 + f ! 1 * g ! 8 + f ! 2 * g ! 7 + f ! 3 * g ! 6 + f ! 4 * g ! 5 + f ! 5 * g ! 4 + f ! 6 * g ! 3 + f ! 7 * g ! 2 + f ! 8 * g ! 1 + f ! 9 * g ! 0]"

text \<open>Sums and multiples of lists of limbs.\<close>

definition vadd :: "int list \<Rightarrow> int list \<Rightarrow> int list" where
  "vadd a b = map2 (+) a b"

definition vscale :: "int \<Rightarrow> int list \<Rightarrow> int list" where
  "vscale x a = map ((*) x) a"

lemma length_v [simp]: "length (vadd a b) = min (length a) (length b)" "length (vscale x a) = length a"
  by (simp_all add: vadd_def vscale_def)

lemma val_vadd: "length a = 10 \<Longrightarrow> length b = 10 \<Longrightarrow> val (vadd a b) = val a + val b"
  by (simp add: val_def vadd_def algebra_simps)

lemma val_vscale: "length a = 10 \<Longrightarrow> val (vscale x a) = x * val a"
  by (simp add: val_def vscale_def algebra_simps)

text \<open>Multiplying by the weight of a limb shifts the limbs; what leaves at the top comes back times 19.\<close>

lemma shifted_limbs:
  shows "2 ^ 0 * val g = val [g ! 0, g ! 1, g ! 2, g ! 3, g ! 4, g ! 5, g ! 6, g ! 7, g ! 8, g ! 9] + p25519 * (0)"
    "2 ^ 26 * val g = val [38 * g ! 9, g ! 0, 2 * g ! 1, g ! 2, 2 * g ! 3, g ! 4, 2 * g ! 5, g ! 6, 2 * g ! 7, g ! 8] +
      p25519 * (2 ^ 1 * g ! 9)"
    "2 ^ 51 * val g = val [19 * g ! 8, 19 * g ! 9, g ! 0, g ! 1, g ! 2, g ! 3, g ! 4, g ! 5, g ! 6, g ! 7] + p25519 * (2 ^ 0
      * g ! 8 + 2 ^ 26 * g ! 9)"
    "2 ^ 77 * val g = val [38 * g ! 7, 19 * g ! 8, 38 * g ! 9, g ! 0, 2 * g ! 1, g ! 2, 2 * g ! 3, g ! 4, 2 * g ! 5, g ! 6]
      + p25519 * (2 ^ 1 * g ! 7 + 2 ^ 26 * g ! 8 + 2 ^ 52 * g ! 9)"
    "2 ^ 102 * val g = val [19 * g ! 6, 19 * g ! 7, 19 * g ! 8, 19 * g ! 9, g ! 0, g ! 1, g ! 2, g ! 3, g ! 4, g ! 5] +
      p25519 * (2 ^ 0 * g ! 6 + 2 ^ 26 * g ! 7 + 2 ^ 51 * g ! 8 + 2 ^ 77 * g ! 9)"
    "2 ^ 128 * val g = val [38 * g ! 5, 19 * g ! 6, 38 * g ! 7, 19 * g ! 8, 38 * g ! 9, g ! 0, 2 * g ! 1, g ! 2, 2 * g ! 3,
      g ! 4] + p25519 * (2 ^ 1 * g ! 5 + 2 ^ 26 * g ! 6 + 2 ^ 52 * g ! 7 + 2 ^ 77 * g ! 8 + 2 ^ 103 * g ! 9)"
    "2 ^ 153 * val g = val [19 * g ! 4, 19 * g ! 5, 19 * g ! 6, 19 * g ! 7, 19 * g ! 8, 19 * g ! 9, g ! 0, g ! 1, g ! 2, g !
      3] + p25519 * (2 ^ 0 * g ! 4 + 2 ^ 26 * g ! 5 + 2 ^ 51 * g ! 6 + 2 ^ 77 * g ! 7 + 2 ^ 102 * g ! 8 + 2 ^ 128 * g !
      9)"
    "2 ^ 179 * val g = val [38 * g ! 3, 19 * g ! 4, 38 * g ! 5, 19 * g ! 6, 38 * g ! 7, 19 * g ! 8, 38 * g ! 9, g ! 0, 2 * g
      ! 1, g ! 2] + p25519 * (2 ^ 1 * g ! 3 + 2 ^ 26 * g ! 4 + 2 ^ 52 * g ! 5 + 2 ^ 77 * g ! 6 + 2 ^ 103 * g ! 7 + 2 ^
      128 * g ! 8 + 2 ^ 154 * g ! 9)"
    "2 ^ 204 * val g = val [19 * g ! 2, 19 * g ! 3, 19 * g ! 4, 19 * g ! 5, 19 * g ! 6, 19 * g ! 7, 19 * g ! 8, 19 * g ! 9,
      g ! 0, g ! 1] + p25519 * (2 ^ 0 * g ! 2 + 2 ^ 26 * g ! 3 + 2 ^ 51 * g ! 4 + 2 ^ 77 * g ! 5 + 2 ^ 102 * g ! 6 + 2 ^
      128 * g ! 7 + 2 ^ 153 * g ! 8 + 2 ^ 179 * g ! 9)"
    "2 ^ 230 * val g = val [38 * g ! 1, 19 * g ! 2, 38 * g ! 3, 19 * g ! 4, 38 * g ! 5, 19 * g ! 6, 38 * g ! 7, 19 * g ! 8,
      38 * g ! 9, g ! 0] + p25519 * (2 ^ 1 * g ! 1 + 2 ^ 26 * g ! 2 + 2 ^ 52 * g ! 3 + 2 ^ 77 * g ! 4 + 2 ^ 103 * g ! 5
      + 2 ^ 128 * g ! 6 + 2 ^ 154 * g ! 7 + 2 ^ 179 * g ! 8 + 2 ^ 205 * g ! 9)"
  by (simp_all add: val_def p25519_def algebra_simps)

lemma collect_multiples:
  fixes m :: int
  shows "f0 * (r0 + m * k0) + f1 * (r1 + m * k1) + f2 * (r2 + m * k2) + f3 * (r3 + m * k3) + f4 * (r4 + m * k4) + f5 * (r5 + m *
    k5) + f6 * (r6 + m * k6) + f7 * (r7 + m * k7) + f8 * (r8 + m * k8) + f9 * (r9 + m * k9) =
    (f0 * r0 + f1 * r1 + f2 * r2 + f3 * r3 + f4 * r4 + f5 * r5 + f6 * r6 + f7 * r7 + f8 * r8 + f9 * r9) +
    m * (f0 * k0 + f1 * k1 + f2 * k2 + f3 * k3 + f4 * k4 + f5 * k5 + f6 * k6 + f7 * k7 + f8 * k8 + f9 * k9)"
  by (simp add: algebra_simps)

lemma val_productZ: "val (productZ f g) mod p25519 = val f * val g mod p25519"
proof -
  have H: "productZ f g = vadd (vscale (f ! 0) [g ! 0, g ! 1, g ! 2, g ! 3, g ! 4, g ! 5, g ! 6, g ! 7, g ! 8, g ! 9]) (vadd (vscale (f ! 1) [38 *
      g ! 9, g ! 0, 2 * g ! 1, g ! 2, 2 * g ! 3, g ! 4, 2 * g ! 5, g ! 6, 2 * g ! 7, g ! 8]) (vadd (vscale (f ! 2) [19 *
      g ! 8, 19 * g ! 9, g ! 0, g ! 1, g ! 2, g ! 3, g ! 4, g ! 5, g ! 6, g ! 7]) (vadd (vscale (f ! 3) [38 * g ! 7, 19
      * g ! 8, 38 * g ! 9, g ! 0, 2 * g ! 1, g ! 2, 2 * g ! 3, g ! 4, 2 * g ! 5, g ! 6]) (vadd (vscale (f ! 4) [19 * g !
      6, 19 * g ! 7, 19 * g ! 8, 19 * g ! 9, g ! 0, g ! 1, g ! 2, g ! 3, g ! 4, g ! 5]) (vadd (vscale (f ! 5) [38 * g !
      5, 19 * g ! 6, 38 * g ! 7, 19 * g ! 8, 38 * g ! 9, g ! 0, 2 * g ! 1, g ! 2, 2 * g ! 3, g ! 4]) (vadd (vscale (f !
      6) [19 * g ! 4, 19 * g ! 5, 19 * g ! 6, 19 * g ! 7, 19 * g ! 8, 19 * g ! 9, g ! 0, g ! 1, g ! 2, g ! 3]) (vadd
      (vscale (f ! 7) [38 * g ! 3, 19 * g ! 4, 38 * g ! 5, 19 * g ! 6, 38 * g ! 7, 19 * g ! 8, 38 * g ! 9, g ! 0, 2 * g
      ! 1, g ! 2]) (vadd (vscale (f ! 8) [19 * g ! 2, 19 * g ! 3, 19 * g ! 4, 19 * g ! 5, 19 * g ! 6, 19 * g ! 7, 19 * g
      ! 8, 19 * g ! 9, g ! 0, g ! 1]) (vscale (f ! 9) [38 * g ! 1, 19 * g ! 2, 38 * g ! 3, 19 * g ! 4, 38 * g ! 5, 19 *
      g ! 6, 38 * g ! 7, 19 * g ! 8, 38 * g ! 9, g ! 0])))))))))"
    by (simp add: productZ_def vadd_def vscale_def algebra_simps)
  have v: "val (productZ f g) = f ! 0 * val [g ! 0, g ! 1, g ! 2, g ! 3, g ! 4, g ! 5, g ! 6, g ! 7, g ! 8, g ! 9] + f ! 1 * val [38 * g ! 9, g ! 0, 2 *
      g ! 1, g ! 2, 2 * g ! 3, g ! 4, 2 * g ! 5, g ! 6, 2 * g ! 7, g ! 8] + f ! 2 * val [19 * g ! 8, 19 * g ! 9, g ! 0,
      g ! 1, g ! 2, g ! 3, g ! 4, g ! 5, g ! 6, g ! 7] + f ! 3 * val [38 * g ! 7, 19 * g ! 8, 38 * g ! 9, g ! 0, 2 * g !
      1, g ! 2, 2 * g ! 3, g ! 4, 2 * g ! 5, g ! 6] + f ! 4 * val [19 * g ! 6, 19 * g ! 7, 19 * g ! 8, 19 * g ! 9, g !
      0, g ! 1, g ! 2, g ! 3, g ! 4, g ! 5] + f ! 5 * val [38 * g ! 5, 19 * g ! 6, 38 * g ! 7, 19 * g ! 8, 38 * g ! 9, g
      ! 0, 2 * g ! 1, g ! 2, 2 * g ! 3, g ! 4] + f ! 6 * val [19 * g ! 4, 19 * g ! 5, 19 * g ! 6, 19 * g ! 7, 19 * g !
      8, 19 * g ! 9, g ! 0, g ! 1, g ! 2, g ! 3] + f ! 7 * val [38 * g ! 3, 19 * g ! 4, 38 * g ! 5, 19 * g ! 6, 38 * g !
      7, 19 * g ! 8, 38 * g ! 9, g ! 0, 2 * g ! 1, g ! 2] + f ! 8 * val [19 * g ! 2, 19 * g ! 3, 19 * g ! 4, 19 * g ! 5,
      19 * g ! 6, 19 * g ! 7, 19 * g ! 8, 19 * g ! 9, g ! 0, g ! 1] + f ! 9 * val [38 * g ! 1, 19 * g ! 2, 38 * g ! 3,
      19 * g ! 4, 38 * g ! 5, 19 * g ! 6, 38 * g ! 7, 19 * g ! 8, 38 * g ! 9, g ! 0]"
    unfolding H by (simp add: val_vadd val_vscale)
  have "val f * val g = f ! 0 * (2 ^ 0 * val g) + f ! 1 * (2 ^ 26 * val g) + f ! 2 * (2 ^ 51 * val g) + f ! 3 * (2 ^ 77 * val g) + f ! 4 * (2 ^
      102 * val g) + f ! 5 * (2 ^ 128 * val g) + f ! 6 * (2 ^ 153 * val g) + f ! 7 * (2 ^ 179 * val g) + f ! 8 * (2 ^
      204 * val g) + f ! 9 * (2 ^ 230 * val g)"
    by (simp add: val_def [of f] algebra_simps)
  also have "\<dots> = val (productZ f g) + p25519 * (f ! 0 * (0) + f ! 1 * (2 ^ 1 * g ! 9) + f ! 2 * (2 ^ 0 * g ! 8 + 2 ^ 26 * g ! 9) + f ! 3 * (2 ^ 1 * g ! 7 + 2 ^ 26 * g !
      8 + 2 ^ 52 * g ! 9) + f ! 4 * (2 ^ 0 * g ! 6 + 2 ^ 26 * g ! 7 + 2 ^ 51 * g ! 8 + 2 ^ 77 * g ! 9) + f ! 5 * (2 ^ 1
      * g ! 5 + 2 ^ 26 * g ! 6 + 2 ^ 52 * g ! 7 + 2 ^ 77 * g ! 8 + 2 ^ 103 * g ! 9) + f ! 6 * (2 ^ 0 * g ! 4 + 2 ^ 26 *
      g ! 5 + 2 ^ 51 * g ! 6 + 2 ^ 77 * g ! 7 + 2 ^ 102 * g ! 8 + 2 ^ 128 * g ! 9) + f ! 7 * (2 ^ 1 * g ! 3 + 2 ^ 26 * g
      ! 4 + 2 ^ 52 * g ! 5 + 2 ^ 77 * g ! 6 + 2 ^ 103 * g ! 7 + 2 ^ 128 * g ! 8 + 2 ^ 154 * g ! 9) + f ! 8 * (2 ^ 0 * g
      ! 2 + 2 ^ 26 * g ! 3 + 2 ^ 51 * g ! 4 + 2 ^ 77 * g ! 5 + 2 ^ 102 * g ! 6 + 2 ^ 128 * g ! 7 + 2 ^ 153 * g ! 8 + 2 ^
      179 * g ! 9) + f ! 9 * (2 ^ 1 * g ! 1 + 2 ^ 26 * g ! 2 + 2 ^ 52 * g ! 3 + 2 ^ 77 * g ! 4 + 2 ^ 103 * g ! 5 + 2 ^
      128 * g ! 6 + 2 ^ 154 * g ! 7 + 2 ^ 179 * g ! 8 + 2 ^ 205 * g ! 9))"
    unfolding shifted_limbs v by (rule collect_multiples)
  finally show ?thesis by simp
qed

text \<open>The bounds of the operations: results are \<open>tight\<close>, and the sum or difference of two of them is \<open>loose\<close>.\<close>

definition tight_bounds :: "int list" where
  "tight_bounds = [36909875, 18454937, 36909875, 18454937, 36909875, 18454937, 36909875, 18454937, 36909875, 18454937]"

definition tight :: "fieldElement \<Rightarrow> bool" where
  "tight f \<longleftrightarrow> within tight_bounds (map sint f)"

definition loose :: "fieldElement \<Rightarrow> bool" where
  "loose f \<longleftrightarrow> within (map ((*) 2) tight_bounds) (map sint f)"

definition fe_val :: "fieldElement \<Rightarrow> int" where
  "fe_val f = val (map sint f)"

lemma tight_loose: "tight f \<Longrightarrow> loose f"
  by (auto simp: tight_def loose_def tight_bounds_def within_def list_all2_Cons1)

lemma less_10: "i < 10 \<Longrightarrow> i = 0 \<or> i = 1 \<or> i = 2 \<or> i = 3 \<or> i = 4 \<or> i = 5 \<or> i = 6 \<or> i = 7 \<or> i = 8 \<or> i = (9::nat)"
  by arith

lemma looseD:
  assumes "loose f"
  shows "length f = 10" "i < 10 \<Longrightarrow> \<bar>sint (f ! i)\<bar> \<le> (if even i then 73819750 else 36909874)"
proof -
  have l: "length f = 10" using withinD(2) [OF assms [unfolded loose_def]] by (simp add: tight_bounds_def)
  show "length f = 10" by (rule l)
  assume i: "i < 10"
  have "\<bar>map sint f ! i\<bar> \<le> map ((*) 2) tight_bounds ! i"
    using withinD(1) [OF assms [unfolded loose_def]] i by (simp add: tight_bounds_def)
  then show "\<bar>sint (f ! i)\<bar> \<le> (if even i then 73819750 else 36909874)"
    using less_10 [OF i] l by (elim disjE) (simp_all add: tight_bounds_def)
qed

lemma tightD:
  assumes "tight f"
  shows "length f = 10" "i < 10 \<Longrightarrow> \<bar>sint (f ! i)\<bar> \<le> (if even i then 36909875 else 18454937)"
proof -
  have l: "length f = 10" using withinD(2) [OF assms [unfolded tight_def]] by (simp add: tight_bounds_def)
  show "length f = 10" by (rule l)
  assume i: "i < 10"
  have "\<bar>map sint f ! i\<bar> \<le> tight_bounds ! i"
    using withinD(1) [OF assms [unfolded tight_def]] i by (simp add: tight_bounds_def)
  then show "\<bar>sint (f ! i)\<bar> \<le> (if even i then 36909875 else 18454937)"
    using less_10 [OF i] l by (elim disjE) (simp_all add: tight_bounds_def)
qed

section \<open>Chains of carries\<close>

fun safe :: "int list \<Rightarrow> nat list \<Rightarrow> bool" where
  "safe B [] = True"
| "safe B (i # is) = (i < 10 \<and> (\<forall>b \<in> set B. b \<le> 4611686018427387904) \<and> safe (carry_bounds B i) is)"

lemma length_carry_bounds [simp]: "length (carry_bounds B i) = length B"
  by (simp add: carry_bounds_def Let_def)

lemma carries:
  assumes "within B (map sint h)" "length B = 10" "safe B is"
  shows "within (foldl carry_bounds B is) (map sint (foldl carry h is))"
    "val (map sint (foldl carry h is)) mod p25519 = val (map sint h) mod p25519"
proof -
  have "within (foldl carry_bounds B is) (map sint (foldl carry h is)) \<and>
    val (map sint (foldl carry h is)) mod p25519 = val (map sint h) mod p25519"
    using assms
  proof (induction "is" arbitrary: B h)
    case Nil
    then show ?case by (simp only: foldl.simps simp_thms)
  next
    case (Cons i "is")
    then have e: "map sint (carry h i) = carryZ (map sint h) i" by (intro carry_exact [of B]) auto
    have l: "length (map sint h) = 10" using withinD(2) [OF Cons.prems(1)] Cons.prems(2) by simp
    have "within (carry_bounds B i) (map sint (carry h i))"
      unfolding e using Cons.prems by (intro within_carryZ [of B]) auto
    from Cons.IH [OF this] Cons.prems have "within (foldl carry_bounds B (i # is)) (map sint (foldl carry h (i # is)))"
      "val (map sint (foldl carry h (i # is))) mod p25519 = val (map sint (carry h i)) mod p25519" by simp_all
    moreover have "val (map sint (carry h i)) mod p25519 = val (map sint h) mod p25519"
      unfolding e using Cons.prems(3) by (intro val_carryZ [OF l]) simp
    ultimately show ?case by simp
  qed
  then show "within (foldl carry_bounds B is) (map sint (foldl carry h is))"
    "val (map sint (foldl carry h is)) mod p25519 = val (map sint h) mod p25519" by simp_all
qed

lemma sint_int32: "\<bar>sint (x :: i64)\<bar> < 2147483648 \<Longrightarrow> sint (int32 x) = sint x"
proof -
  assume a: "\<bar>sint x\<bar> < 2147483648"
  have "int32 x = (scast x :: i32)" by (rule bit_word_eqI) (auto simp: bit_simps)
  then have "int32 x = of_int (sint x)" by simp
  then show ?thesis using sint_of_int32 [OF a] by simp
qed

lemma truncate_tight:
  assumes "within B (map sint h)" "list_all2 (\<le>) B tight_bounds"
  shows "tight (map int32 h)" "fe_val (map int32 h) = val (map sint h)"
proof -
  have "list_all2 (\<lambda>b x. \<bar>x\<bar> \<le> b) tight_bounds (map sint h)"
    using assms by (force simp: within_def list_all2_conv_all_nth)
  then have t: "within tight_bounds (map sint h)" by (simp only: within_def)
  have "\<bar>sint x\<bar> < 2147483648" if x: "x \<in> set h" for x
  proof -
    obtain i where i: "i < length h" "x = h ! i" using x by (auto simp: in_set_conv_nth)
    moreover have "length h = length tight_bounds" using withinD(2) [OF t] by simp
    ultimately have "\<bar>sint x\<bar> \<le> tight_bounds ! i" "tight_bounds ! i \<in> set tight_bounds" using withinD(1) [OF t, of i] by simp_all
    moreover have "\<forall>b \<in> set tight_bounds. b < 2147483648" by (simp add: tight_bounds_def)
    ultimately show ?thesis by fastforce
  qed
  then have "map sint (map int32 h) = map sint h" by (simp add: sint_int32)
  with t show "tight (map int32 h)" "fe_val (map int32 h) = val (map sint h)"
    by (simp_all only: tight_def fe_val_def)
qed

section \<open>The operations on field elements\<close>

text \<open>The carries after a product bring the limbs back to the tight bounds.\<close>

definition product_bounds :: "int list" where
  "product_bounds = replicate 10 700000000000000000"

lemma carry_product_tight:
  assumes "within product_bounds (map sint h)"
  shows "tight (carry_product h)" "fe_val (carry_product h) mod p25519 = val (map sint h) mod p25519"
proof -
  let ?is = "[0, 4, 1, 5, 2, 6, 3, 7, 4, 8, 9, 0] :: nat list"
  have safe: "safe product_bounds ?is" "list_all2 (\<le>) (foldl carry_bounds product_bounds ?is) tight_bounds"
    by code_simp+
  note c = carries [OF assms _ safe(1)]
  show "tight (carry_product h)" "fe_val (carry_product h) mod p25519 = val (map sint h) mod p25519"
    unfolding carry_product_def using truncate_tight [OF c(1) safe(2)] c(2) by (simp_all add: product_bounds_def)
qed

lemma bounds_arith:
  "\<bar>x\<bar> \<le> a \<Longrightarrow> \<bar>y\<bar> \<le> b \<Longrightarrow> \<bar>x + y\<bar> \<le> a + (b :: int)"
  "\<bar>x\<bar> \<le> a \<Longrightarrow> \<bar>y\<bar> \<le> b \<Longrightarrow> \<bar>x * y\<bar> \<le> a * (b :: int)"
  "\<bar>x\<bar> \<le> a \<Longrightarrow> \<bar>numeral c * x\<bar> \<le> numeral c * (a :: int)"
  by (simp_all add: abs_mult mult_mono)

lemma within_productZ:
  assumes "within A f" "within B g" "length A = 10" "length B = 10"
  shows "within (productZ A B) (productZ f g)"
proof -
  have "\<bar>f ! i\<bar> \<le> A ! i" "\<bar>g ! i\<bar> \<le> B ! i" if "i < 10" for i
    using withinD(1) [OF assms(1)] withinD(1) [OF assms(2)] assms(3,4) that by simp_all
  note limb = this [of 0] this [of 1] this [of 2] this [of 3] this [of 4] this [of 5] this [of 6] this [of 7] this [of 8] this [of 9]
  note limb = limb [simplified]
  show ?thesis
    unfolding within_def productZ_def One_nat_def
    by (rule list.rel_intros conjI | rule bounds_arith(1) | rule bounds_arith(3) | rule bounds_arith(2) | rule limb)+
qed

lemma within_mono: "within B h \<Longrightarrow> list_all2 (\<le>) B C \<Longrightarrow> within C h"
  by (force simp: within_def list_all2_conv_all_nth)

lemma productZ_within:
  assumes "loose f" "loose g"
  shows "within product_bounds (productZ (map sint f) (map sint g))"
proof (rule within_mono [OF within_productZ])
  show "within (map ((*) 2) tight_bounds) (map sint f)" "within (map ((*) 2) tight_bounds) (map sint g)"
    using assms by (simp_all add: loose_def)
  show "list_all2 (\<le>) (productZ (map ((*) 2) tight_bounds) (map ((*) 2) tight_bounds)) product_bounds" by code_simp
qed (simp_all add: tight_bounds_def)

text \<open>The limbs the code computes are those of the integers.\<close>

lemma int64_loose:
  assumes "loose f" "i < 10"
  shows "int64 (f ! i) = of_int (map sint f ! i)" "int64 (2 * f ! i) = 2 * of_int (map sint f ! i)"
    "int64 (19 * f ! i) = 19 * of_int (map sint f ! i)" "odd i \<Longrightarrow> int64 (38 * f ! i) = 38 * of_int (map sint f ! i)"
proof -
  let ?x = "sint (f ! i)"
  have l: "map sint f ! i = ?x" using looseD(1) [OF assms(1)] assms(2) by simp
  have b: "\<bar>?x\<bar> \<le> 73819750" "odd i \<Longrightarrow> \<bar>?x\<bar> \<le> 36909874" using looseD(2) [OF assms] by (auto split: if_splits)
  have m: "int64 (numeral n * f ! i) = numeral n * of_int ?x" if "\<bar>numeral n * ?x\<bar> < 2147483648" for n
  proof -
    have "numeral n * f ! i = of_int (numeral n * ?x)" by simp
    then have "sint (numeral n * f ! i) = numeral n * ?x" by (simp only: sint_of_int32 [OF that])
    moreover have "int64 (numeral n * f ! i) = of_int (sint (numeral n * f ! i))" by simp
    ultimately show ?thesis by (simp only: of_int_mult of_int_numeral)
  qed
  show "int64 (f ! i) = of_int (map sint f ! i)" by (simp add: l)
  show "int64 (2 * f ! i) = 2 * of_int (map sint f ! i)" unfolding l using b(1) by (intro m) simp
  show "int64 (19 * f ! i) = 19 * of_int (map sint f ! i)" unfolding l using b(1) by (intro m) simp
  show "int64 (38 * f ! i) = 38 * of_int (map sint f ! i)" if "odd i" unfolding l using b(2) [OF that] by (intro m) simp
qed

lemma feMul_limbs_of_int:
  assumes "loose f" "loose g"
  shows "feMul_limbs f g = map of_int (productZ (map sint f) (map sint g))"
proof -
  note F = int64_loose [OF assms(1)] and G = int64_loose [OF assms(2)]
  define F where "F = map sint f"
  define G where "G = map sint g"
  note f = F [folded F_def] and g = G [folded G_def]
  show ?thesis
    unfolding F_def [symmetric] G_def [symmetric] feMul_limbs_def Let_def
    by (simp add: f g productZ_def)
qed

lemma feSquare_limbs_of_int:
  assumes "loose f"
  shows "feSquare_limbs f = map of_int (productZ (map sint f) (map sint f))"
proof -
  note F = int64_loose [OF assms(1)]
  define F where "F = map sint f"
  note f = F [folded F_def]
  show ?thesis
    unfolding F_def [symmetric] feSquare_limbs_def Let_def
    by (simp add: f productZ_def)
qed


lemma sint_of_product:
  assumes "loose f" "loose g"
  shows "map sint (map of_int (productZ (map sint f) (map sint g)) :: i64 list) = productZ (map sint f) (map sint g)" (is "_ = ?P")
proof (unfold map_map, rule map_idI)
  fix x assume "x \<in> set ?P"
  then obtain i where i: "i < length ?P" "x = ?P ! i" by (auto simp: in_set_conv_nth)
  note w = productZ_within [OF assms]
  have "length ?P = 10" using withinD(2) [OF w] by (simp add: product_bounds_def)
  then have "\<bar>x\<bar> \<le> 700000000000000000" using withinD(1) [OF w, of i] i by (simp add: product_bounds_def)
  then show "(sint \<circ> (of_int :: int \<Rightarrow> i64)) x = x" by (simp only: comp_apply) (rule sint_of_int64, linarith)
qed

lemma feMul_correct:
  assumes "loose f" "loose g"
  shows "tight (feMul f g)" "fe_val (feMul f g) mod p25519 = fe_val f * fe_val g mod p25519"
proof -
  have e: "map sint (feMul_limbs f g) = productZ (map sint f) (map sint g)"
    unfolding feMul_limbs_of_int [OF assms] by (rule sint_of_product [OF assms])
  note c = carry_product_tight [of "feMul_limbs f g", unfolded e, OF productZ_within [OF assms]]
  then show "tight (feMul f g)" "fe_val (feMul f g) mod p25519 = fe_val f * fe_val g mod p25519"
    by (simp_all add: feMul_def fe_val_def val_productZ)
qed

lemma feSquare_correct:
  assumes "loose f"
  shows "tight (feSquare f)" "fe_val (feSquare f) mod p25519 = fe_val f ^ 2 mod p25519"
proof -
  have "feSquare f = feMul f f"
    unfolding feSquare_def feMul_def feSquare_limbs_of_int [OF assms] feMul_limbs_of_int [OF assms assms] ..
  then show "tight (feSquare f)" "fe_val (feSquare f) mod p25519 = fe_val f ^ 2 mod p25519"
    using feMul_correct [OF assms assms] by (simp_all add: power2_eq_square)
qed

lemma carry_parallel_tight:
  assumes "within B (map sint h)" "length B = 10" "safe B [9, 1, 3, 5, 7, 0, 2, 4, 6, 8]"
    "list_all2 (\<le>) (foldl carry_bounds B [9, 1, 3, 5, 7, 0, 2, 4, 6, 8]) tight_bounds"
  shows "tight (carry_parallel h)" "fe_val (carry_parallel h) mod p25519 = val (map sint h) mod p25519"
  unfolding carry_parallel_def using truncate_tight [OF carries(1) [OF assms(1-3)] assms(4)] carries(2) [OF assms(1-3)]
  by simp_all

lemma feMul121666_correct:
  assumes "loose f"
  shows "tight (feMul121666 f)" "fe_val (feMul121666 f) mod p25519 = 121666 * fe_val f mod p25519"
proof -
  let ?h = "map (\<lambda>i. int64 (f ! i) * 121666) [0..<10]" and ?B = "map (\<lambda>b. 121666 * (2 * b)) tight_bounds"
  have l: "length f = 10" by (rule looseD(1) [OF assms])
  have s: "sint (int64 x * 121666) = 121666 * sint x" if "\<bar>sint x\<bar> \<le> 73819750" for x :: i32
  proof -
    have "int64 x * 121666 = of_int (121666 * sint x)" by simp
    moreover have "\<bar>121666 * sint x\<bar> < 9223372036854775808" using that by simp
    ultimately show ?thesis by (simp only: sint_of_int64)
  qed
  have "\<bar>sint (f ! i)\<bar> \<le> 73819750" if "i < 10" for i using looseD(2) [OF assms that] by (auto split: if_splits)
  then have e: "map sint ?h = vscale 121666 (map sint f)"
    using l by (intro nth_equalityI) (simp_all add: s vscale_def del: scast_eq)
  have w: "within ?B (map sint ?h)"
    unfolding e using assms by (auto simp: within_def loose_def vscale_def list_all2_map1 list_all2_map2 abs_mult elim!: list_all2_mono)
  have b: "safe ?B [9, 1, 3, 5, 7, 0, 2, 4, 6, 8]"
    "list_all2 (\<le>) (foldl carry_bounds ?B [9, 1, 3, 5, 7, 0, 2, 4, 6, 8]) tight_bounds" by code_simp+
  have "length ?B = 10" by (simp add: tight_bounds_def)
  note c = carry_parallel_tight [OF w this b]
  show "tight (feMul121666 f)" "fe_val (feMul121666 f) mod p25519 = 121666 * fe_val f mod p25519"
    unfolding feMul121666_def using c unfolding e by (simp_all add: val_vscale l fe_val_def)
qed

lemma val_pointwise:
  assumes "\<And>i. i < 10 \<Longrightarrow> h ! i = f ! i + g ! i"
  shows "val h = val f + val g"
  using assms by (simp add: val_def algebra_simps)

lemma looseI:
  assumes "length f = 10" "\<And>i. i < 10 \<Longrightarrow> \<bar>sint (f ! i)\<bar> \<le> (if even i then 73819750 else 36909874)"
  shows "loose f"
proof -
  have l: "length tight_bounds = 10" by (simp add: tight_bounds_def)
  have "\<bar>map sint f ! i\<bar> \<le> map ((*) 2) tight_bounds ! i" if "i < 10" for i
    using less_10 [OF that] assms(2) [OF that] assms(1) by (elim disjE) (simp_all add: tight_bounds_def)
  then show ?thesis using assms(1) l by (auto simp only: loose_def within_def list_all2_conv_all_nth length_map)
qed

lemma feAdd_correct:
  assumes "tight f" "tight g"
  shows "loose (feAdd f g)" "fe_val (feAdd f g) = fe_val f + fe_val g"
    "loose (feSub f g)" "fe_val (feSub f g) = fe_val f - fe_val g"
proof -
  note b = tightD(2) [OF assms(1)] tightD(2) [OF assms(2)] and l = tightD(1) [OF assms(1)] tightD(1) [OF assms(2)]
  have s: "sint (f ! i + g ! i) = sint (f ! i) + sint (g ! i)" "sint (f ! i - g ! i) = sint (f ! i) - sint (g ! i)" if "i < 10" for i
  proof -
    have "\<bar>sint (f ! i)\<bar> \<le> 36909875" "\<bar>sint (g ! i)\<bar> \<le> 36909875" using b [OF that] by (auto split: if_splits)
    then have "\<bar>sint (f ! i) + sint (g ! i)\<bar> < 2147483648" "\<bar>sint (f ! i) - sint (g ! i)\<bar> < 2147483648" by linarith+
    moreover have "f ! i + g ! i = of_int (sint (f ! i) + sint (g ! i))" "f ! i - g ! i = of_int (sint (f ! i) - sint (g ! i))" by simp_all
    ultimately show "sint (f ! i + g ! i) = sint (f ! i) + sint (g ! i)" "sint (f ! i - g ! i) = sint (f ! i) - sint (g ! i)"
      by (simp_all only: sint_of_int32)
  qed
  have "\<bar>sint (f ! i) + sint (g ! i)\<bar> \<le> (if even i then 73819750 else 36909874)"
    "\<bar>sint (f ! i) - sint (g ! i)\<bar> \<le> (if even i then 73819750 else 36909874)" if "i < 10" for i
    using b [OF that] by (auto split: if_splits)
  then show "loose (feAdd f g)" "loose (feSub f g)"
    by (auto intro!: looseI simp: feAdd_def feSub_def s)
  show "fe_val (feAdd f g) = fe_val f + fe_val g" "fe_val (feSub f g) = fe_val f - fe_val g"
    unfolding fe_val_def by (simp_all add: val_def feAdd_def feSub_def s l algebra_simps numeral_2_eq_2)
qed

lemma fe_constants:
  "tight feZero" "fe_val feZero = 0" "tight feOne" "fe_val feOne = 1"
  "tight f \<Longrightarrow> feCopy f = f"
proof -
  have o: "map sint feOne = [1, 0, 0, 0, 0, 0, 0, 0, 0, 0]" "map sint feZero = [0, 0, 0, 0, 0, 0, 0, 0, 0, 0]"
    by (simp_all add: feOne_def feZero_def upt_rec)
  then show "tight feZero" "fe_val feZero = 0" "tight feOne" "fe_val feOne = 1"
    by (simp_all add: tight_def fe_val_def within_def tight_bounds_def val_def)
  show "tight f \<Longrightarrow> feCopy f = f" using tightD(1) [of f] map_nth [of f] by (simp add: feCopy_def)
qed

lemma feCSwap_correct:
  assumes "tight f" "tight g"
  shows "feCSwap f g 0 = (f, g)" "feCSwap f g 1 = (g, f)"
proof -
  note l = tightD(1) [OF assms(1)] tightD(1) [OF assms(2)]
  have x: "x XOR (x XOR y) = y" "y XOR (x XOR y) = x" for x y :: i32
    by (simp_all flip: xor.assoc) (simp add: xor.commute [of y x] xor.assoc)
  show "feCSwap f g 0 = (f, g)" "feCSwap f g 1 = (g, f)"
    using l by (auto simp: feCSwap_def Let_def x intro!: nth_equalityI)
qed

end
