(* ===== verification/Curve25519_Ladder.thy ===== *)
theory Curve25519_Ladder
  imports Curve25519
begin

unbundle bit_operations_syntax

text \<open>
  The ladder of \<^verbatim>\<open>curve25519.go\<close> over the field arithmetic of \<open>Curve25519\<close>: field elements as representatives of residues,
  inversion by Fermat's exponent, the reference ladder, the byte formats, and the equality of the code with the reference.
\<close>

section \<open>Field elements that stand for residues\<close>

definition trep :: "fieldElement \<Rightarrow> int \<Rightarrow> bool" where
  "trep f a \<longleftrightarrow> tight f \<and> fe_val f mod p25519 = a mod p25519"

definition lrep :: "fieldElement \<Rightarrow> int \<Rightarrow> bool" where
  "lrep f a \<longleftrightarrow> loose f \<and> fe_val f mod p25519 = a mod p25519"

lemma trep_lrep: "trep f a \<Longrightarrow> lrep f a"
  by (simp add: trep_def lrep_def tight_loose)

lemma rep_cong:
  "trep f a \<Longrightarrow> a mod p25519 = b mod p25519 \<Longrightarrow> trep f b"
  by (simp add: trep_def)

lemma rep_ops:
  "lrep f a \<Longrightarrow> lrep g b \<Longrightarrow> trep (feMul f g) (a * b)"
  "lrep f a \<Longrightarrow> trep (feSquare f) (a ^ 2)"
  "lrep f a \<Longrightarrow> trep (feMul121666 f) (121666 * a)"
  "trep f a \<Longrightarrow> trep g b \<Longrightarrow> lrep (feAdd f g) (a + b)"
  "trep f a \<Longrightarrow> trep g b \<Longrightarrow> lrep (feSub f g) (a - b)"
  "trep feOne 1" "trep feZero 0"
  unfolding trep_def lrep_def
  by (auto simp: feMul_correct feSquare_correct feMul121666_correct feAdd_correct fe_constants
    intro: mod_mult_cong mod_add_cong mod_diff_cong) (metis power_mod mod_mult_right_eq)+

section \<open>Inversion\<close>

lemma squarings_rep: "trep t (z ^ n) \<Longrightarrow> trep (squarings k t) (z ^ (2 ^ k * n))"
proof (induction k arbitrary: t n)
  case (Suc k)
  from rep_ops(2) [OF trep_lrep [OF Suc.prems]] have "trep (feSquare t) (z ^ (2 * n))"
    by (simp add: power_mult mult.commute flip: power_mult)
  from Suc.IH [OF this] show ?case by (simp add: mult.assoc mult.left_commute)
qed simp

lemma mul_rep: "trep f (z ^ m) \<Longrightarrow> trep g (z ^ n) \<Longrightarrow> trep (feMul f g) (z ^ (m + n))"
  using rep_ops(1) [OF trep_lrep trep_lrep] by (simp add: power_add)

lemma feInvert_rep:
  assumes "trep z a"
  shows "trep (feInvert z) (a ^ nat (p25519 - 2))"
proof -
  note z = assms [THEN power_one_right [THEN ssubst, of "trep z"]]
  define t0 where "t0 = squarings 1 z"
  have t0: "trep t0 (a ^ 2)" using squarings_rep [OF z, of 1] by (simp add: t0_def)
  define t1 where "t1 = feMul z (squarings 2 t0)"
  have t1: "trep t1 (a ^ 9)" using mul_rep [OF z squarings_rep [OF t0, of 2]] by (simp add: t1_def)
  define u0 where "u0 = feMul t0 t1"
  have u0: "trep u0 (a ^ 11)" using mul_rep [OF t0 t1] by (simp add: u0_def)
  define u1 where "u1 = feMul t1 (squarings 1 u0)"
  have u1: "trep u1 (a ^ (2 ^ 5 - 1))" using mul_rep [OF t1 squarings_rep [OF u0, of 1]] by (simp add: u1_def)
  define u2 where "u2 = feMul (squarings 5 u1) u1"
  have u2: "trep u2 (a ^ (2 ^ 10 - 1))" using mul_rep [OF squarings_rep [OF u1, of 5] u1] by (simp add: u2_def)
  define u3 where "u3 = feMul (squarings 10 u2) u2"
  have u3: "trep u3 (a ^ (2 ^ 20 - 1))" using mul_rep [OF squarings_rep [OF u2, of 10] u2] by (simp add: u3_def)
  define u4 where "u4 = feMul (squarings 20 u3) u3"
  have u4: "trep u4 (a ^ (2 ^ 40 - 1))" using mul_rep [OF squarings_rep [OF u3, of 20] u3] by (simp add: u4_def)
  define u5 where "u5 = feMul (squarings 10 u4) u2"
  have u5: "trep u5 (a ^ (2 ^ 50 - 1))" using mul_rep [OF squarings_rep [OF u4, of 10] u2] by (simp add: u5_def)
  define u6 where "u6 = feMul (squarings 50 u5) u5"
  have u6: "trep u6 (a ^ (2 ^ 100 - 1))" using mul_rep [OF squarings_rep [OF u5, of 50] u5] by (simp add: u6_def)
  define u7 where "u7 = feMul (squarings 100 u6) u6"
  have u7: "trep u7 (a ^ (2 ^ 200 - 1))" using mul_rep [OF squarings_rep [OF u6, of 100] u6] by (simp add: u7_def)
  define u8 where "u8 = feMul (squarings 50 u7) u5"
  have u8: "trep u8 (a ^ (2 ^ 250 - 1))" using mul_rep [OF squarings_rep [OF u7, of 50] u5] by (simp add: u8_def)
  have "feInvert z = feMul (squarings 5 u8) u0"
    by (simp only: feInvert_def Let_def t0_def t1_def u0_def u1_def u2_def u3_def u4_def u5_def u6_def u7_def u8_def)
  moreover have "nat (p25519 - 2) = 2 ^ 5 * (2 ^ 250 - 1) + 11" by (simp add: p25519_def)
  ultimately show ?thesis using mul_rep [OF squarings_rep [OF u8, of 5] u0] by simp
qed

section \<open>The reference ladder\<close>

text \<open>
  Points of the curve \<open>y\<^sup>2 = x\<^sup>3 + 486662 x\<^sup>2 + x\<close> by a projective x-coordinate, with the textbook formulas for doubling and for
  the sum of two points whose difference has x-coordinate \<open>u\<close>.
\<close>

type_synonym point = "int \<times> int"

definition xDBL :: "point \<Rightarrow> point" where
  "xDBL P = (case P of (X, Z) \<Rightarrow>
     ((X\<^sup>2 - Z\<^sup>2)\<^sup>2 mod p25519, 4 * X * Z * (X\<^sup>2 + 486662 * X * Z + Z\<^sup>2) mod p25519))"

definition xADD :: "int \<Rightarrow> point \<Rightarrow> point \<Rightarrow> point" where
  "xADD u P Q = (case (P, Q) of ((X, Z), (X', Z')) \<Rightarrow>
     (4 * (X * X' - Z * Z')\<^sup>2 mod p25519, 4 * u * (X * Z' - Z * X')\<^sup>2 mod p25519))"

text \<open>The Montgomery ladder over the bits of the scalar, most significant first.\<close>

fun mladder :: "int \<Rightarrow> bool list \<Rightarrow> point \<Rightarrow> point \<Rightarrow> point \<times> point" where
  "mladder u [] P Q = (P, Q)"
| "mladder u (b # bs) P Q = (if b then mladder u bs (xADD u P Q) (xDBL Q) else mladder u bs (xDBL P) (xADD u P Q))"

text \<open>The bits of a number, from bit 254 down, and the x-coordinate of the multiple of a point.\<close>

definition scalar_bits :: "nat \<Rightarrow> bool list" where
  "scalar_bits k = map (bit k) (rev [0..<255])"

definition X25519 :: "nat \<Rightarrow> int \<Rightarrow> int" where
  "X25519 k u = (case fst (mladder u (scalar_bits k) (1, 0) (u, 1)) of (X, Z) \<Rightarrow> X * Z ^ nat (p25519 - 2) mod p25519)"

definition ladder_rep :: "Ladder \<Rightarrow> point \<Rightarrow> point \<Rightarrow> bool" where
  "ladder_rep s P Q \<longleftrightarrow> trep (l_x2 s) (fst P) \<and> trep (l_z2 s) (snd P) \<and> trep (l_x3 s) (fst Q) \<and> trep (l_z3 s) (snd Q)"

lemma ladder_step_rep:
  assumes "ladder_rep s P Q" "trep x1 u"
  shows "ladder_rep (ladder_step x1 s) (xDBL P) (xADD u P Q)" "l_swap (ladder_step x1 s) = l_swap s"
proof -
  obtain X Z X' Z' where pq: "P = (X, Z)" "Q = (X', Z')" by (metis surj_pair)
  have r: "trep (l_x2 s) X" "trep (l_z2 s) Z" "trep (l_x3 s) X'" "trep (l_z3 s) Z'"
    using assms(1) by (simp_all add: ladder_rep_def pq)
  note sums = rep_ops(4) [OF r(1,2)] rep_ops(5) [OF r(1,2)] rep_ops(4) [OF r(3,4)] rep_ops(5) [OF r(3,4)]
  note da = rep_ops(1) [OF sums(4,1)] and cb = rep_ops(1) [OF sums(3,2)] and bb = rep_ops(2) [OF sums(2)] and aa = rep_ops(2) [OF sums(1)]
  note e = rep_ops(5) [OF aa bb]
  have x2: "trep (l_x2 (ladder_step x1 s)) ((X + Z)\<^sup>2 * (X - Z)\<^sup>2)"
    unfolding ladder_step_def Let_def using rep_ops(1) [OF trep_lrep [OF aa] trep_lrep [OF bb]] by simp
  have z2: "trep (l_z2 (ladder_step x1 s)) (((X + Z)\<^sup>2 - (X - Z)\<^sup>2) * ((X - Z)\<^sup>2 + 121666 * ((X + Z)\<^sup>2 - (X - Z)\<^sup>2)))"
    unfolding ladder_step_def Let_def using rep_ops(1) [OF e rep_ops(4) [OF bb rep_ops(3) [OF e]]] by simp
  have x3: "trep (l_x3 (ladder_step x1 s)) (((X' - Z') * (X + Z) + (X' + Z') * (X - Z))\<^sup>2)"
    unfolding ladder_step_def Let_def using rep_ops(2) [OF rep_ops(4) [OF da cb]] by simp
  have z3: "trep (l_z3 (ladder_step x1 s)) (u * ((X' - Z') * (X + Z) - (X' + Z') * (X - Z))\<^sup>2)"
    unfolding ladder_step_def Let_def
    using rep_ops(1) [OF trep_lrep [OF assms(2)] trep_lrep [OF rep_ops(2) [OF rep_ops(5) [OF da cb]]]] by simp
  have eqs: "(X + Z)\<^sup>2 * (X - Z)\<^sup>2 = (X\<^sup>2 - Z\<^sup>2)\<^sup>2"
    "((X + Z)\<^sup>2 - (X - Z)\<^sup>2) * ((X - Z)\<^sup>2 + 121666 * ((X + Z)\<^sup>2 - (X - Z)\<^sup>2)) = 4 * X * Z * (X\<^sup>2 + 486662 * X * Z + Z\<^sup>2)"
    "((X' - Z') * (X + Z) + (X' + Z') * (X - Z))\<^sup>2 = 4 * (X * X' - Z * Z')\<^sup>2"
    "u * ((X' - Z') * (X + Z) - (X' + Z') * (X - Z))\<^sup>2 = 4 * u * (X * Z' - Z * X')\<^sup>2"
    by algebra+
  show "ladder_rep (ladder_step x1 s) (xDBL P) (xADD u P Q)"
    using x2 z2 x3 z3 unfolding eqs by (simp add: ladder_rep_def pq xDBL_def xADD_def trep_def)
  show "l_swap (ladder_step x1 s) = l_swap s" by (simp add: ladder_step_def Let_def)
qed

lemma cswap_rep:
  assumes "ladder_rep s P Q"
  shows "ladder_rep (cswap (of_bool b) s) (if b then Q else P) (if b then P else Q)"
  using assms by (cases b) (simp_all add: cswap_def ladder_rep_def trep_def feCSwap_correct)

text \<open>The state of the loop stands for two points, exchanged when the last bit was 1.\<close>

definition loop_rep :: "Ladder \<Rightarrow> point \<Rightarrow> point \<Rightarrow> bool" where
  "loop_rep s P Q \<longleftrightarrow> (\<exists>b. l_swap s = of_bool b \<and> ladder_rep s (if b then Q else P) (if b then P else Q))"

lemma ladder_round_rep:
  assumes "loop_rep s P Q" "trep x1 u" "ladder_bit e pos = of_bool b"
  shows "loop_rep (ladder_round e x1 s pos) (if b then xADD u P Q else xDBL P) (if b then xDBL Q else xADD u P Q)"
proof -
  obtain a where a: "l_swap s = of_bool a" "ladder_rep s (if a then Q else P) (if a then P else Q)"
    using assms(1) by (auto simp: loop_rep_def)
  have x: "l_swap s XOR ladder_bit e pos = of_bool (a \<noteq> b)" using a(1) assms(3) by auto
  define s1 where "s1 = (cswap (of_bool (a \<noteq> b)) s)\<lparr>l_swap := of_bool b\<rparr>"
  have r: "ladder_rep s1 (if b then Q else P) (if b then P else Q)"
    using cswap_rep [OF a(2), of "a \<noteq> b"] by (cases a; cases b) (simp_all add: s1_def ladder_rep_def)
  have comm: "xADD u Q P = xADD u P Q"
    by (simp add: xADD_def case_prod_unfold power2_commute mult.commute)
  have "ladder_rep (ladder_step x1 s1) (if b then xDBL Q else xDBL P) (xADD u P Q)"
    using ladder_step_rep(1) [OF r assms(2)] comm by (cases b) simp_all
  moreover have "ladder_round e x1 s pos = ladder_step x1 s1"
    unfolding ladder_round_def Let_def x by (simp add: s1_def assms(3))
  ultimately show ?thesis
    using ladder_step_rep(2) [OF r assms(2)] by (auto simp: loop_rep_def s1_def intro!: exI [of _ b])
qed


lemma ladder_bit:
  assumes "length e = 32" "pos < 255"
  shows "ladder_bit e pos = of_bool (bit (le_nat e) pos)"
proof -
  have "bit (le_nat e) pos = bit (e ! (pos div 8)) (pos mod 8)" using bit_le_nat [of e pos] assms by simp
  moreover have "drop_bit (pos mod 8) x AND 1 = (of_bool (bit x (pos mod 8)) :: byte)" for x
    by (simp add: and_one_eq mod2_eq_if bit_iff_odd_drop_bit)
  ultimately show ?thesis by (simp add: ladder_bit_def)
qed

lemma ladder_loop:
  assumes "length e = 32" "trep x1 u" "loop_rep s P Q" "\<forall>i \<in> set ps. i < 255"
  shows "loop_rep (foldl (ladder_round e x1) s ps) (fst (mladder u (map (bit (le_nat e)) ps) P Q))
    (snd (mladder u (map (bit (le_nat e)) ps) P Q))"
  using assms(3,4)
proof (induction ps arbitrary: s P Q)
  case (Cons i ps)
  then have "ladder_bit e i = of_bool (bit (le_nat e) i)" by (intro ladder_bit assms(1)) simp
  from Cons.IH [OF ladder_round_rep [OF Cons.prems(1) assms(2) this]] Cons.prems(2) show ?case by (simp split: if_splits)
qed simp

lemma scalarMult_field:
  assumes "length e = 32" "trep x1 u"
  defines "s \<equiv> foldl (ladder_round e x1) \<lparr>l_x2 = feOne, l_z2 = feZero, l_x3 = feCopy x1, l_z3 = feOne, l_swap = 0\<rparr> (rev [0..<255])"
  shows "trep (feMul (l_x2 (cswap (l_swap s) s)) (feInvert (l_z2 (cswap (l_swap s) s)))) (X25519 (le_nat e) u)"
proof -
  let ?R = "mladder u (scalar_bits (le_nat e)) (1, 0) (u, 1)"
  have c: "feCopy x1 = x1" using assms(2) fe_constants(5) by (simp add: trep_def)
  have "loop_rep \<lparr>l_x2 = feOne, l_z2 = feZero, l_x3 = feCopy x1, l_z3 = feOne, l_swap = 0\<rparr> (1, 0) (u, 1)"
    using assms(2) rep_ops(6,7) by (auto simp: loop_rep_def ladder_rep_def c intro!: exI [of _ False])
  from ladder_loop [OF assms(1,2) this, of "rev [0..<255]"] have "loop_rep s (fst ?R) (snd ?R)"
    by (simp add: s_def scalar_bits_def)
  then obtain b where b: "l_swap s = of_bool b" "ladder_rep s (if b then snd ?R else fst ?R) (if b then fst ?R else snd ?R)"
    by (auto simp: loop_rep_def)
  have "ladder_rep (cswap (l_swap s) s) (fst ?R) (snd ?R)"
    using cswap_rep [OF b(2), of b] b(1) by (cases b) simp_all
  then have "trep (l_x2 (cswap (l_swap s) s)) (fst (fst ?R))" "trep (l_z2 (cswap (l_swap s) s)) (snd (fst ?R))"
    by (simp_all add: ladder_rep_def)
  from rep_ops(1) [OF trep_lrep [OF this(1)] trep_lrep [OF feInvert_rep [OF this(2)]]] show ?thesis
    by (simp add: X25519_def case_prod_unfold trep_def)
qed

section \<open>Bytes\<close>

lemma le_nat_split: "n \<le> length b \<Longrightarrow> le_nat b = le_nat (take n b) + 256 ^ n * le_nat (drop n b)"
  using le_nat_append [of "take n b" "drop n b"] by simp

lemma load4_nat: "load4 b = of_nat (le_nat (take 4 b))"
proof -
  have "le_nat (take 4 b) < 256 ^ 4"
    using le_nat_bound [of "take 4 b"] power_increasing [of "length (take 4 b)" 4 "256 :: nat"] by (auto intro: less_le_trans)
  then show ?thesis by (simp add: load4_def le_u32_def unsigned_of_nat take_bit_nat_eq_self)
qed

lemma load3_nat:
  assumes "3 \<le> length b"
  shows "load3 b = of_nat (le_nat (take 3 b))"
proof -
  obtain x y z r where b: "b = x # y # z # r" using assms by (auto simp: numeral_3_eq_3 Suc_le_length_iff)
  have 1: "(ucast x :: i64) OR push_bit 8 (ucast y) = ucast x + push_bit 8 (ucast y)"
    by (rule disjunctive_add [symmetric]) (auto simp: bit_simps dest!: bit_imp_le_length)
  have 2: "(ucast x OR push_bit 8 (ucast y)) OR push_bit 16 (ucast z) = (ucast x OR push_bit 8 (ucast y)) + push_bit 16 (ucast z :: i64)"
    by (rule disjunctive_add [symmetric]) (auto simp: bit_simps dest!: bit_imp_le_length)
  have "load3 b = ucast x + push_bit 8 (ucast y) + push_bit 16 (ucast z)" 
    unfolding 1 [symmetric] 2 [symmetric] by (simp add: load3_def b)
  then show ?thesis by (simp add: b push_bit_eq_mult numeral_3_eq_3 algebra_simps)
qed

lemma sint_of_nat: "x < 9223372036854775808 \<Longrightarrow> sint (of_nat x :: i64) = int x"
  using sint_of_int64 [of "int x"] by simp

lemma sint_load:
  "sint (load4 b) = int (le_nat (take 4 b))" "le_nat (take 4 b) < 4294967296"
  "3 \<le> length b \<Longrightarrow> n < 38 \<Longrightarrow> sint (push_bit n (load3 b)) = 2 ^ n * int (le_nat (take 3 b))"
  "le_nat (take 3 b) < 16777216"
proof -
  have l: "le_nat (take n b) < 256 ^ n" for n
    using le_nat_bound [of "take n b"] power_increasing [of "length (take n b)" n "256 :: nat"] by (auto intro: less_le_trans)
  from l [of 4] l [of 3] show b: "le_nat (take 4 b) < 4294967296" "le_nat (take 3 b) < 16777216" by simp_all
  from b(1) show "sint (load4 b) = int (le_nat (take 4 b))" by (simp add: load4_nat sint_of_nat)
  assume "3 \<le> length b" "n < 38"
  have "(2 :: nat) ^ n \<le> 2 ^ 37" using \<open>n < 38\<close> by (intro power_increasing) auto
  then have "2 ^ n * le_nat (take 3 b) < 2 ^ 37 * 16777216" using b(2) by (intro mult_le_less_imp_less) auto
  then have s: "sint (of_nat (2 ^ n * le_nat (take 3 b)) :: i64) = int (2 ^ n * le_nat (take 3 b))" by (intro sint_of_nat) simp
  have "push_bit n (load3 b) = of_nat (2 ^ n * le_nat (take 3 b))"
    using \<open>3 \<le> length b\<close> by (simp add: load3_nat push_bit_eq_mult mult.commute)
  then show "sint (push_bit n (load3 b)) = 2 ^ n * int (le_nat (take 3 b))"
    using s by (simp only: of_nat_mult of_nat_power of_nat_numeral)
qed

lemma feFromBytes_rep:
  assumes "length b = 32"
  shows "trep (feFromBytes b) (int (le_nat b))"
proof -
  let ?t4 = "\<lambda>n. int (le_nat (take 4 (drop n b)))" and ?t3 = "\<lambda>n. int (le_nat (take 3 (drop n b)))"
  let ?h = "[load4 b, push_bit 6 (load3 (drop 4 b)), push_bit 5 (load3 (drop 7 b)), push_bit 3 (load3 (drop 10 b)),
        push_bit 2 (load3 (drop 13 b)), load4 (drop 16 b), push_bit 7 (load3 (drop 20 b)),
        push_bit 5 (load3 (drop 23 b)), push_bit 4 (load3 (drop 26 b)), push_bit 2 (load3 (drop 29 b))]"
  let ?B = "[4294967296, 1073741824, 536870912, 134217728, 67108864, 4294967296, 2147483648, 536870912, 268435456, 67108864] :: int list"
  have e: "map sint ?h = [?t4 0, 64 * ?t3 4, 32 * ?t3 7, 8 * ?t3 10, 4 * ?t3 13, ?t4 16, 128 * ?t3 20, 32 * ?t3 23, 16 * ?t3 26, 4 * ?t3 29]"
    using assms by (simp add: sint_load(1,3))
  have lt: "\<bar>?t4 n\<bar> \<le> 4294967296" "\<bar>?t3 n\<bar> \<le> 16777216" for n using sint_load(2,4) [of "drop n b"] by simp_all
  have w: "within ?B (map sint ?h)" unfolding e within_def using lt lt(1) [of 0] by (auto simp: abs_mult)
  have safe: "safe ?B [9, 1, 3, 5, 7, 0, 2, 4, 6, 8]"
    "list_all2 (\<le>) (foldl carry_bounds ?B [9, 1, 3, 5, 7, 0, 2, 4, 6, 8]) tight_bounds" by code_simp+
  define D where "D n = int (le_nat (drop n b))" for n
  have d: "D n = int (le_nat (take k (drop n b))) + 256 ^ k * D (n + k)" if "n + k \<le> 32" for n k
    using arg_cong [OF le_nat_split [of k "drop n b"], of int] that assms by (simp add: add.commute D_def)
  have "D 0 = int (le_nat b)" "D 32 = 0" using assms by (simp_all add: D_def)
  then have "val (map sint ?h) = int (le_nat b)"
    using d [of 0 4] d [of 4 3] d [of 7 3] d [of 10 3] d [of 13 3] d [of 16 4] d [of 20 3] d [of 23 3] d [of 26 3] d [of 29 3]
    unfolding e by (simp add: val_def)
  then show ?thesis
    using carry_parallel_tight [OF w _ safe] by (simp add: trep_def feFromBytes_def)
qed

subsection \<open>The quotient by the prime\<close>

lemma nested_div: "0 < m \<Longrightarrow> (0 :: int) \<le> n \<Longrightarrow> (a + x div m) div n = (m * a + x) div (m * n)"
  by (simp add: zdiv_zmult2_eq)

text \<open>One step of the quotient in 32 bits.\<close>

lemma quotient_step:
  assumes "\<bar>sint x\<bar> \<le> 36909875" "\<bar>sint q\<bar> \<le> 67108864" "b = 25 \<or> b = 26"
  shows "sint (signed_drop_bit b (x + q :: i32)) = (sint x + sint q) div 2 ^ b" "\<bar>(sint x + sint q) div 2 ^ b\<bar> \<le> 67108864"
proof -
  have "x + q = of_int (sint x + sint q)" by simp
  moreover have "\<bar>sint x + sint q\<bar> < 2147483648" using assms by linarith
  ultimately have "sint (x + q) = sint x + sint q" by (simp only: sint_of_int32)
  then show "sint (signed_drop_bit b (x + q :: i32)) = (sint x + sint q) div 2 ^ b" by (simp add: sint_carry)
  have "\<bar>sint x + sint q\<bar> \<le> 104018739" using assms by linarith
  then show "\<bar>(sint x + sint q) div 2 ^ b\<bar> \<le> 67108864" using assms(3) by auto
qed

lemma quotient_fold:
  assumes "tight h" "\<bar>sint q\<bar> \<le> 67108864" "\<forall>i \<in> set is. i < 10"
  shows "sint (foldl (\<lambda>q i. signed_drop_bit (limb_bits i) (h ! i + q)) q is) =
    foldl (\<lambda>q i. (sint (h ! i) + q) div 2 ^ limb_bits i) (sint q) is"
  using assms(2,3)
proof (induction "is" arbitrary: q)
  case (Cons i "is")
  have "\<bar>sint (h ! i)\<bar> \<le> 36909875" using tightD(2) [OF assms(1), of i] Cons.prems(2) by (auto split: if_splits)
  note s = quotient_step [OF this Cons.prems(1) limb_bits_pos(2) [of i]]
  show ?case using Cons.IH [of "signed_drop_bit (limb_bits i) (h ! i + q)"] s Cons.prems(2) by simp
qed simp

lemma upto_9: "[0..<10] = [0, 1, 2, 3, 4, 5, 6, 7, 8, 9 :: nat]"
  by (simp add: upt_conv_Cons)

lemma quotient_eq:
  assumes "tight h"
  shows "sint (fe_quotient h) = (fe_val h + (19 * sint (h ! 9) + 16777216) div 33554432) div 2 ^ 255"
proof -
  let ?q = "signed_drop_bit 25 (19 * h ! 9 + push_bit 24 1)" and ?Q = "(19 * sint (h ! 9) + 16777216) div 33554432"
  have l: "length h = 10" by (rule tightD(1) [OF assms])
  have b: "\<bar>sint (h ! 9)\<bar> \<le> 18454937" using tightD(2) [OF assms, of 9] by simp
  have "19 * h ! 9 + push_bit 24 1 = of_int (19 * sint (h ! 9) + 16777216)" by (simp add: push_bit_eq_mult)
  moreover have "\<bar>19 * sint (h ! 9) + 16777216\<bar> < 2147483648" using b by linarith
  ultimately have "sint (19 * h ! 9 + push_bit 24 1) = 19 * sint (h ! 9) + 16777216" by (simp only: sint_of_int32)
  then have q: "sint ?q = ?Q" by (simp add: sint_carry)
  have "\<bar>sint ?q\<bar> \<le> 67108864" unfolding q using b by auto
  from quotient_fold [OF assms this, of "[0..<10]"]
  have "sint (fe_quotient h) = foldl (\<lambda>q i. (sint (h ! i) + q) div 2 ^ limb_bits i) ?Q [0..<10]"
    by (simp only: fe_quotient_def q) simp
  also have "\<dots> = (fe_val h + ?Q) div 2 ^ 255"
    by (simp add: upto_9 limb_bits_def nested_div fe_val_def val_def l algebra_simps)
  finally show ?thesis .
qed


lemma fe_val_bounds:
  assumes "tight h"
  shows "\<bar>fe_val h\<bar> < 2 ^ 255 - 2 ^ 200" "0 \<le> fe_val h \<Longrightarrow> 0 \<le> sint (h ! 9)" "fe_val h < 0 \<Longrightarrow> sint (h ! 9) \<le> 0"
proof -
  have l: "length h = 10" by (rule tightD(1) [OF assms])
  note b = tightD(2) [OF assms]
  note b = b [of 0, simplified] b [of 1, simplified] b [of 2, simplified] b [of 3, simplified] b [of 4, simplified]
    b [of 5, simplified] b [of 6, simplified] b [of 7, simplified] b [of 8, simplified] b [of 9, simplified]
  have v: "fe_val h = sint (h ! 0) + 67108864 * sint (h ! Suc 0) + 2 ^ 51 * sint (h ! 2) + 2 ^ 77 * sint (h ! 3) + 2 ^ 102 * sint (h ! 4) +
     2 ^ 128 * sint (h ! 5) + 2 ^ 153 * sint (h ! 6) + 2 ^ 179 * sint (h ! 7) + 2 ^ 204 * sint (h ! 8) + 2 ^ 230 * sint (h ! 9)"
    by (simp add: fe_val_def val_def l)
  show "\<bar>fe_val h\<bar> < 2 ^ 255 - 2 ^ 200" unfolding v abs_less_iff using b [unfolded abs_le_iff] by simp
  note b = b [unfolded abs_le_iff]
  show "0 \<le> sint (h ! 9)" if "0 \<le> fe_val h"
  proof (rule ccontr)
    assume "\<not> 0 \<le> sint (h ! 9)"
    then have "sint (h ! 9) \<le> - 1" by simp
    then show False using that b unfolding v by simp
  qed
  show "sint (h ! 9) \<le> 0" if "fe_val h < 0"
  proof (rule ccontr)
    assume "\<not> sint (h ! 9) \<le> 0"
    then have "1 \<le> sint (h ! 9)" by simp
    then show False using that b unfolding v by simp
  qed
qed

lemma quotient_div:
  assumes "tight h"
  shows "sint (fe_quotient h) = fe_val h div p25519"
proof -
  let ?Q = "(19 * sint (h ! 9) + 16777216) div 33554432"
  note v = fe_val_bounds [OF assms]
  have b: "\<bar>sint (h ! 9)\<bar> \<le> 18454937" using tightD(2) [OF assms, of 9] by simp
  then have Q: "\<bar>?Q\<bar> \<le> 67108864" by auto
  show ?thesis
  proof (cases "0 \<le> fe_val h")
    case True
    then have "0 \<le> ?Q" using v(2) by simp
    then have "(fe_val h + ?Q) div 2 ^ 255 = 0" using True v(1) Q by (intro div_pos_pos_trivial) auto
    moreover have "fe_val h div p25519 = 0" using True v(1) by (intro div_pos_pos_trivial) (auto simp: p25519_def)
    ultimately show ?thesis by (simp add: quotient_eq [OF assms])
  next
    case False
    then have "?Q \<le> 0" using v(3) by simp
    then have "(fe_val h + ?Q) div 2 ^ 255 = - 1"
      using False v(1) Q by (intro int_div_pos_eq [where r = "fe_val h + ?Q + 2 ^ 255"]) auto
    moreover have "fe_val h div p25519 = - 1"
      using False v(1) by (intro int_div_pos_eq [where r = "fe_val h + p25519"]) (auto simp: p25519_def)
    ultimately show ?thesis by (simp add: quotient_eq [OF assms])
  qed
qed


subsection \<open>The final carries\<close>

text \<open>Limb \<open>n\<close> with the carry it receives, the carry it passes on, and the digit that remains.\<close>

fun carried :: "(nat \<Rightarrow> int) \<Rightarrow> nat \<Rightarrow> int" where
  "carried H 0 = H 0"
| "carried H (Suc n) = H (Suc n) + carried H n div 2 ^ limb_bits n"

definition digit :: "(nat \<Rightarrow> int) \<Rightarrow> nat \<Rightarrow> int" where
  "digit H n = carried H n mod 2 ^ limb_bits n"

lemma carried_bound:
  assumes "\<And>i. i \<le> n \<Longrightarrow> \<bar>H i\<bar> \<le> 67108864"
  shows "\<bar>carried H n\<bar> \<le> 134217728" "\<bar>carried H n div 2 ^ limb_bits n\<bar> \<le> 4"
proof -
  have d: "\<bar>x div 2 ^ limb_bits n\<bar> \<le> 4" if "\<bar>x\<bar> \<le> 134217728" for x :: int and n
    using limb_bits_pos(2) [of n] that by auto
  show c: "\<bar>carried H n\<bar> \<le> 134217728" using assms
  proof (induction n)
    case (Suc n)
    then have "\<bar>carried H n\<bar> \<le> 134217728" by simp
    from d [OF this, of n] Suc.prems [of "Suc n"] show ?case by simp
  qed fastforce
  show "\<bar>carried H n div 2 ^ limb_bits n\<bar> \<le> 4" by (rule d [OF c])
qed

lemma carry_down_fold:
  assumes "length h = 10" "\<And>i. i < 10 \<Longrightarrow> \<bar>sint (h ! i)\<bar> \<le> 67108864" "n \<le> 10"
  defines "H \<equiv> \<lambda>i. sint (h ! i)" and "g \<equiv> foldl carry_down h [0..<n]"
  shows "length g = 10 \<and> (\<forall>i < n. sint (g ! i) = digit H i) \<and> (n < 10 \<longrightarrow> sint (g ! n) = carried H n) \<and>
    (\<forall>i. n < i \<longrightarrow> i < 10 \<longrightarrow> g ! i = h ! i)"
  using assms(3) unfolding g_def
proof (induction n)
  case 0
  then show ?case using assms(1) by (simp add: H_def)
next
  case (Suc n)
  define g where "g = foldl carry_down h [0..<n]"
  have n: "n < 10" and l: "length g = 10" and dig: "\<forall>i < n. sint (g ! i) = digit H i" and cur: "sint (g ! n) = carried H n"
    and rest: "\<forall>i. n < i \<longrightarrow> i < 10 \<longrightarrow> g ! i = h ! i"
    using Suc by (simp_all add: g_def)
  let ?b = "limb_bits n" define c where "c = signed_drop_bit ?b (g ! n)"
  have Hb: "\<And>i. i \<le> n \<Longrightarrow> \<bar>H i\<bar> \<le> 67108864" using assms(2) n by (simp add: H_def)
  note cb = carried_bound [of n H, OF Hb]
  have c: "sint c = carried H n div 2 ^ ?b" by (simp add: c_def sint_carry cur)
  have "g ! n - push_bit ?b c = of_int (sint (g ! n) - 2 ^ ?b * sint c)" by (simp add: push_bit_eq_mult mult.commute)
  moreover have "sint (g ! n) - 2 ^ ?b * sint c = digit H n" by (simp add: cur c digit_def minus_mult_div_eq_mod)
  moreover have "\<bar>digit H n\<bar> < 2147483648"
    using limb_bits_pos(2) [of n] by (auto simp: digit_def intro: order_less_trans [OF pos_mod_bound])
  ultimately have low: "sint (g ! n - push_bit ?b c) = digit H n" by (simp only: sint_of_int32)
  have up: "sint (h ! Suc n + c) = carried H (Suc n)" if "Suc n < 10"
  proof -
    have "h ! Suc n + c = of_int (H (Suc n) + sint c)" by (simp add: H_def)
    moreover have "\<bar>H (Suc n) + sint c\<bar> < 2147483648" using assms(2) [OF that] cb(2) unfolding c H_def by linarith
    ultimately show ?thesis by (simp only: sint_of_int32 c carried.simps)
  qed
  have g': "foldl carry_down h [0..<Suc n] = (if n = 9 then g else g[Suc n := g ! Suc n + c])[n := g ! n - push_bit ?b c]"
    by (simp add: g_def [symmetric] carry_down_def Let_def c_def)
  show ?case unfolding g' using l n dig rest low up by (auto simp: less_Suc_eq nth_list_update)
qed

subsection \<open>Writing the bytes\<close>

lemma nonneg_word: "sint (w :: i32) = int a \<Longrightarrow> w = of_nat a"
proof -
  assume a: "sint w = int a"
  have "w = of_int (sint w)" by simp
  then show ?thesis unfolding a by simp
qed

lemma shifted_word:
  assumes "sint (w :: i32) = int a"
  shows "signed_drop_bit n w = of_nat (a div 2 ^ n)"
proof (rule nonneg_word)
  show "sint (signed_drop_bit n w) = int (a div 2 ^ n)" by (simp add: sint_carry assms zdiv_int)
qed

lemma merged_word:
  assumes "x < 2 ^ k"
  shows "(of_nat x :: i32) OR push_bit k (of_nat y) = of_nat (x + 2 ^ k * y)"
proof -
  have "bit x n \<Longrightarrow> n < k" for n
    using assms by (metis bit_take_bit_iff take_bit_nat_eq_self)
  then have "(of_nat x :: i32) OR push_bit k (of_nat y) = of_nat x + push_bit k (of_nat y)"
    by (intro disjunctive_add [symmetric]) (fastforce simp: bit_simps)
  then show ?thesis by (simp add: push_bit_eq_mult mult.commute)
qed

lemma low_byte: "unat (ucast (of_nat x :: i32) :: byte) = x mod 256"
proof -
  have "(ucast (of_nat x :: i32) :: byte) = of_nat x" by (rule bit_word_eqI) (simp add: bit_simps)
  then show ?thesis by (simp add: unat_of_nat)
qed

text \<open>A limb cut into a first part of \<open>f\<close> bits, two bytes and a rest.\<close>

lemma split_limb:
  fixes a :: nat
  shows "a = a mod 2 ^ f + 2 ^ f * (a div 2 ^ f mod 256) + 2 ^ (f + 8) * (a div 2 ^ (f + 8) mod 256) + 2 ^ (f + 16) * (a div 2 ^ (f + 16))"
proof -
  have s: "x div 2 ^ n = x div 2 ^ n mod 256 + 256 * (x div 2 ^ (n + 8))" for x n :: nat
    by (simp add: power_add div_mult2_eq)
  have "a = a mod 2 ^ f + 2 ^ f * (a div 2 ^ f)" by simp
  also have "a div 2 ^ f = a div 2 ^ f mod 256 + 256 * (a div 2 ^ (f + 8))" by (rule s)
  also have "a div 2 ^ (f + 8) = a div 2 ^ (f + 8) mod 256 + 256 * (a div 2 ^ (f + 16))" using s [of a "f + 8"] by (simp add: add.assoc)
  finally show ?thesis by (simp add: algebra_simps power_add)
qed

text \<open>The byte that two limbs share.\<close>

lemma shared_byte:
  fixes x y :: nat
  assumes "x < 2 ^ k" "k \<le> 8"
  shows "(x + 2 ^ k * y) mod 256 = x + 2 ^ k * (y mod 2 ^ (8 - k))"
proof -
  have p: "(256 :: nat) = 2 ^ k * 2 ^ (8 - k)" using assms(2) by (simp flip: power_add)
  have "(x + 2 ^ k * y) mod (2 ^ k * 2 ^ (8 - k)) = 2 ^ k * (((x + 2 ^ k * y) div 2 ^ k) mod 2 ^ (8 - k)) + (x + 2 ^ k * y) mod 2 ^ k"
    by (simp add: mod_mult2_eq)
  then show ?thesis unfolding p using assms(1) by simp
qed

lemma le_nat_foldr: "le_nat bs = foldr (\<lambda>x y. x + 256 * y) (map unat bs) 0"
  by (induction bs) simp_all

text \<open>The bytes of ten limbs that are cut at the byte boundaries.\<close>

lemma assemble:
  fixes m0 :: nat
  shows "foldr (\<lambda>x y. x + 256 * y)
    [m0, x0, y0, r0 + 2 ^ 2 * m1, x1, y1, r1 + 2 ^ 3 * m2, x2, y2, r2 + 2 ^ 5 * m3, x3, y3, r3 + 2 ^ 6 * m4, x4, y4, 
      r4, m5, x5, y5, r5 + 2 ^ 1 * m6, x6, y6, r6 + 2 ^ 3 * m7, x7, y7, r7 + 2 ^ 4 * m8, x8, y8, r8 + 2 ^ 6 * m9, x9, 
      y9, r9] 0 =
    2 ^ 0 * (m0 + 2 ^ 8 * x0 + 2 ^ 16 * y0 + 2 ^ 24 * r0) + 2 ^ 26 * (m1 + 2 ^ 6 * x1 + 2 ^ 14 * y1 + 2 ^ 22 * r1) + 2 ^
      51 * (m2 + 2 ^ 5 * x2 + 2 ^ 13 * y2 + 2 ^ 21 * r2) + 2 ^ 77 * (m3 + 2 ^ 3 * x3 + 2 ^ 11 * y3 + 2 ^ 19 * r3) + 2
      ^ 102 * (m4 + 2 ^ 2 * x4 + 2 ^ 10 * y4 + 2 ^ 18 * r4) + 2 ^ 128 * (m5 + 2 ^ 8 * x5 + 2 ^ 16 * y5 + 2 ^ 24 * r5)
      + 2 ^ 153 * (m6 + 2 ^ 7 * x6 + 2 ^ 15 * y6 + 2 ^ 23 * r6) + 2 ^ 179 * (m7 + 2 ^ 5 * x7 + 2 ^ 13 * y7 + 2 ^ 21 *
      r7) + 2 ^ 204 * (m8 + 2 ^ 4 * x8 + 2 ^ 12 * y8 + 2 ^ 20 * r8) + 2 ^ 230 * (m9 + 2 ^ 2 * x9 + 2 ^ 10 * y9 + 2 ^
      18 * r9)"
  by (simp add: algebra_simps)

lemma pack_value:
  assumes "length h = 10" "\<And>i. i < 10 \<Longrightarrow> sint (h ! i) = int (a i)" "\<And>i. i < 10 \<Longrightarrow> a i < 2 ^ limb_bits i"
  shows "int (le_nat (pack h)) = val (map (int \<circ> a) [0..<10])"
proof -
  note b = assms(3) [of 0] assms(3) [of 1] assms(3) [of 2] assms(3) [of 3] assms(3) [of 4]
    assms(3) [of 5] assms(3) [of 6] assms(3) [of 7] assms(3) [of 8] assms(3) [of 9]
  note b = b [unfolded limb_bits_def, simplified]
  have d: "a 0 div 2 ^ 24 < 2 ^ 2" "a 1 div 2 ^ 22 < 2 ^ 3" "a 2 div 2 ^ 21 < 2 ^ 5" "a 3 div 2 ^ 19 < 2 ^ 6"
    "a 5 div 2 ^ 24 < 2 ^ 1" "a 6 div 2 ^ 23 < 2 ^ 3" "a 7 div 2 ^ 21 < 2 ^ 4" "a 8 div 2 ^ 20 < 2 ^ 6"
    "a 4 div 2 ^ 18 < 256" "a 9 div 2 ^ 18 < 256"
    using b by (simp_all add: less_mult_imp_div_less)
  have w: "h ! i = of_nat (a i)" "signed_drop_bit n (h ! i) = of_nat (a i div 2 ^ n)" if "i < 10" for i n
    using nonneg_word [OF assms(2) [OF that]] shifted_word [OF assms(2) [OF that]] by simp_all
  have low: "unat (ucast (h ! i) :: byte) = a i mod 2 ^ 8" "unat (ucast (signed_drop_bit n (h ! i)) :: byte) = a i div 2 ^ n mod 256"
    if "i < 10" for i n
    unfolding w(2) [OF that] using w(1) [OF that] by (simp_all add: low_byte)
  have shared: "unat (ucast (signed_drop_bit n (h ! i) OR push_bit k (h ! j)) :: byte) = a i div 2 ^ n + 2 ^ k * (a j mod 2 ^ (8 - k))"
    if "a i div 2 ^ n < 2 ^ k" "k \<le> 8" "i < 10" "j < 10" for i j k n
    unfolding w(2) [OF that(3)] w(1) [OF that(4)] merged_word [OF that(1)] low_byte by (rule shared_byte [OF that(1,2)])
  have i: "0 < (10 :: nat)" "1 < (10 :: nat)" "2 < (10 :: nat)" "3 < (10 :: nat)" "4 < (10 :: nat)" "5 < (10 :: nat)" "6 < (10 :: nat)" "7 < (10 :: nat)" "8 < (10 :: nat)" "9 < (10 :: nat)"
    and k: "1 \<le> (8 :: nat)" "2 \<le> (8 :: nat)" "3 \<le> (8 :: nat)" "4 \<le> (8 :: nat)" "5 \<le> (8 :: nat)" "6 \<le> (8 :: nat)"
    and e: "(8 :: nat) - 1 = 7" "(8 :: nat) - 2 = 6" "(8 :: nat) - 3 = 5" "(8 :: nat) - 4 = 4" "(8 :: nat) - 5 = 3" "(8 :: nat) - 6 = 2"
    by simp_all
  note whole = split_limb [of _ 8, symmetric, unfolded numeral_plus_numeral add_num_simps]
    split_limb [of _ 7, symmetric, unfolded numeral_plus_numeral add_num_simps]
    split_limb [of _ 6, symmetric, unfolded numeral_plus_numeral add_num_simps]
    split_limb [of _ 5, symmetric, unfolded numeral_plus_numeral add_num_simps]
    split_limb [of _ 4, symmetric, unfolded numeral_plus_numeral add_num_simps]
    split_limb [of _ 3, symmetric, unfolded numeral_plus_numeral add_num_simps]
    split_limb [of _ 2, symmetric, unfolded numeral_plus_numeral add_num_simps]
  note shared = shared [OF d(1) k(2) i(1) i(2)] shared [OF d(2) k(3) i(2) i(3)] shared [OF d(3) k(5) i(3) i(4)] shared [OF d(4) k(6)
    i(4) i(5)] shared [OF d(5) k(1) i(6) i(7)] shared [OF d(6) k(3) i(7) i(8)] shared [OF d(7) k(4) i(8) i(9)] shared
    [OF d(8) k(6) i(9) i(10)]
  note low = low(1) [OF i(1)] low(2) [OF i(1), of 8] low(2) [OF i(1), of 16] low(2) [OF i(2), of 6] low(2) [OF i(2), of 14] low(2)
    [OF i(3), of 5] low(2) [OF i(3), of 13] low(2) [OF i(4), of 3] low(2) [OF i(4), of 11] low(2) [OF i(5), of 2]
    low(2) [OF i(5), of 10] low(2) [OF i(5), of 18] low(1) [OF i(6)] low(2) [OF i(6), of 8] low(2) [OF i(6), of 16]
    low(2) [OF i(7), of 7] low(2) [OF i(7), of 15] low(2) [OF i(8), of 5] low(2) [OF i(8), of 13] low(2) [OF i(9), of
    4] low(2) [OF i(9), of 12] low(2) [OF i(10), of 2] low(2) [OF i(10), of 10] low(2) [OF i(10), of 18]
  have "map unat (pack h) =
     [a 0 mod 2 ^ 8, a 0 div 2 ^ 8 mod 256, a 0 div 2 ^ 16 mod 256, a 0 div 2 ^ 24 + 2 ^ 2 * (a 1 mod 2 ^ 6), 
      a 1 div 2 ^ 6 mod 256, a 1 div 2 ^ 14 mod 256, a 1 div 2 ^ 22 + 2 ^ 3 * (a 2 mod 2 ^ 5), a 2 div 2 ^ 5 mod 256, 
      a 2 div 2 ^ 13 mod 256, a 2 div 2 ^ 21 + 2 ^ 5 * (a 3 mod 2 ^ 3), a 3 div 2 ^ 3 mod 256, a 3 div 2 ^ 11 mod 256, 
      a 3 div 2 ^ 19 + 2 ^ 6 * (a 4 mod 2 ^ 2), a 4 div 2 ^ 2 mod 256, a 4 div 2 ^ 10 mod 256, a 4 div 2 ^ 18, 
      a 5 mod 2 ^ 8, a 5 div 2 ^ 8 mod 256, a 5 div 2 ^ 16 mod 256, a 5 div 2 ^ 24 + 2 ^ 1 * (a 6 mod 2 ^ 7), 
      a 6 div 2 ^ 7 mod 256, a 6 div 2 ^ 15 mod 256, a 6 div 2 ^ 23 + 2 ^ 3 * (a 7 mod 2 ^ 5), a 7 div 2 ^ 5 mod 256, 
      a 7 div 2 ^ 13 mod 256, a 7 div 2 ^ 21 + 2 ^ 4 * (a 8 mod 2 ^ 4), a 8 div 2 ^ 4 mod 256, a 8 div 2 ^ 12 mod 256, 
      a 8 div 2 ^ 20 + 2 ^ 6 * (a 9 mod 2 ^ 2), a 9 div 2 ^ 2 mod 256, a 9 div 2 ^ 10 mod 256, a 9 div 2 ^ 18]"
    by (simp only: pack_def list.map shared low mod_less [OF d(9)] mod_less [OF d(10)] e)
  then have "le_nat (pack h) = 2 ^ 0 * a 0 + 2 ^ 26 * a 1 + 2 ^ 51 * a 2 + 2 ^ 77 * a 3 + 2 ^ 102 * a 4 + 2 ^ 128 * a 5 + 2 ^ 153 * a 6 + 2 ^ 179 * a
      7 + 2 ^ 204 * a 8 + 2 ^ 230 * a 9"
    by (simp only: le_nat_foldr assemble whole)
  then show ?thesis by (simp add: val_def upto_9)
qed

lemma val_digits:
  "val (map (digit H) [0..<10]) + 2 ^ 255 * (carried H 9 div 2 ^ 25) = val (map H [0..<10])"
proof -
  define C where "C n = carried H n div 2 ^ limb_bits n" for n
  have "digit H n = carried H n - 2 ^ limb_bits n * C n" for n
    by (simp add: digit_def C_def minus_mult_div_eq_mod)
  then have d: "digit H 0 = H 0 - 2 ^ 26 * C 0" "digit H (Suc n) = H (Suc n) + C n - 2 ^ limb_bits (Suc n) * C (Suc n)" for n
    by (simp_all add: C_def [of n] limb_bits_def)
  have "C 9 = carried H 9 div 2 ^ 25" by (simp add: C_def limb_bits_def)
  then show ?thesis
    using d(2) [of 0] d(2) [of 1, unfolded Suc_1] d(2) [of 2] d(2) [of 3] d(2) [of 4] d(2) [of 5] d(2) [of 6] d(2) [of 7] d(2) [of 8]
    by (simp add: val_def upto_9 limb_bits_def d(1))
qed

lemma val_bound:
  assumes "\<And>i. i < 10 \<Longrightarrow> 0 \<le> f i \<and> f i < 2 ^ limb_bits i"
  shows "0 \<le> val (map f [0..<10])" "val (map f [0..<10]) < 2 ^ 255"
  using assms [of 0] assms [of 1] assms [of 2] assms [of 3] assms [of 4] assms [of 5] assms [of 6] assms [of 7] assms [of 8] assms [of 9]
  by (simp_all add: val_def upto_9 limb_bits_def)

lemma feToBytes_value:
  assumes "tight h"
  shows "feToBytes h = le_bytes 32 (nat (fe_val h mod p25519))"
proof -
  let ?h = "h[0 := h ! 0 + 19 * fe_quotient h]" and ?v = "fe_val h"
  define H where "H = (\<lambda>i. sint (?h ! i))"
  define g where "g = foldl carry_down ?h [0..<10]"
  have l: "length h = 10" by (rule tightD(1) [OF assms])
  have b: "\<bar>sint (h ! i)\<bar> \<le> 36909875" if "i < 10" for i using tightD(2) [OF assms that] by (auto split: if_splits)
  note q = quotient_div [OF assms]
  have q1: "\<bar>?v div p25519\<bar> \<le> 1" using fe_val_bounds(1) [OF assms] by (auto simp: p25519_def)
  have "h ! 0 + 19 * fe_quotient h = of_int (sint (h ! 0) + 19 * sint (fe_quotient h))" by simp
  moreover have "\<bar>sint (h ! 0) + 19 * sint (fe_quotient h)\<bar> < 2147483648" using b [of 0] q1 unfolding q by linarith
  ultimately have s0: "sint (h ! 0 + 19 * fe_quotient h) = sint (h ! 0) + 19 * (?v div p25519)" by (simp only: sint_of_int32 q)
  have Hb: "\<bar>sint (?h ! i)\<bar> \<le> 67108864" if "i < 10" for i
  proof (cases "i = 0")
    case True
    then show ?thesis using b [OF that] q1 l s0 by simp
  qed (use b [OF that] l in simp)
  have "length ?h = 10" using l by simp
  from carry_down_fold [OF this Hb, of 10] have g: "length g = 10" "\<And>i. i < 10 \<Longrightarrow> sint (g ! i) = digit H i"
    by (simp_all add: g_def H_def)
  have D: "0 \<le> digit H i" "digit H i < 2 ^ limb_bits i" for i by (simp_all add: digit_def)
  let ?S = "val (map (digit H) [0..<10])"
  have "val (map H [0..<10]) = ?v + 19 * (?v div p25519)"
    using l by (simp add: H_def val_def upto_9 fe_val_def s0)
  also have "\<dots> = ?v mod p25519 + 2 ^ 255 * (?v div p25519)"
    using mult_div_mod_eq [of p25519 ?v] by (simp add: p25519_def algebra_simps)
  finally have "?S + 2 ^ 255 * (carried H 9 div 2 ^ 25) = ?v mod p25519 + 2 ^ 255 * (?v div p25519)"
    by (simp only: val_digits)
  then have "(?S + 2 ^ 255 * (carried H 9 div 2 ^ 25)) mod 2 ^ 255 = (?v mod p25519 + 2 ^ 255 * (?v div p25519)) mod 2 ^ 255" by simp
  moreover have "0 \<le> ?v mod p25519" "?v mod p25519 < 2 ^ 255"
    using pos_mod_bound [of p25519 ?v] by (simp_all add: p25519_def)
  ultimately have S: "?S = ?v mod p25519" using val_bound [of "digit H"] D by (simp add: mod_pos_pos_trivial)
  have "int (le_nat (pack g)) = val (map (int \<circ> (nat \<circ> digit H)) [0..<10])"
    using g D by (intro pack_value) (simp_all add: nat_less_iff)
  also have "map (int \<circ> (nat \<circ> digit H)) [0..<10] = map (digit H) [0..<10]" using D by simp
  finally have "le_nat (pack g) = nat (?v mod p25519)" unfolding S by simp
  moreover have "length (pack g) = 32" by (simp add: pack_def)
  ultimately show ?thesis using le_bytes_le_nat [of "pack g"] by (simp add: feToBytes_def g_def)
qed

section \<open>The scalar multiplication\<close>

text \<open>Any number that is congruent to the bytes of the point will do as its x-coordinate.\<close>

lemma scalarMult_X25519:
  assumes "length k = 32" "length b = 32" "int (le_nat b) mod p25519 = u mod p25519"
  shows "scalarMult k b = le_bytes 32 (nat (X25519 (le_nat (clamp k)) u))"
proof -
  have l: "length (clamp k) = 32" using assms(1) by (simp add: clamp_def Let_def)
  note r = scalarMult_field [OF l rep_cong [OF feFromBytes_rep [OF assms(2)] assms(3)]]
  have "X25519 (le_nat (clamp k)) u mod p25519 = X25519 (le_nat (clamp k)) u"
    by (simp add: X25519_def case_prod_unfold)
  then show ?thesis using r feToBytes_value unfolding trep_def scalarMult_def Let_def by simp
qed

lemma basePoint_nine: "length basePoint = 32" "le_nat basePoint = 9"
proof -
  have "le_nat (replicate n 0) = 0" for n by (induction n) simp_all
  then show "le_nat basePoint = 9" by (simp add: basePoint_def)
qed (simp add: basePoint_def)

text \<open>
  C11: the scalar multiplication of the code, in 32-bit and 64-bit machine arithmetic, returns the bytes of what the Montgomery
  ladder computes over the integers modulo the prime with the textbook formulas for doubling and differential addition,
  for the clamped scalar and the x-coordinate that the bytes of the point stand for; the multiple of the base point is the
  one of the x-coordinate 9.
\<close>

theorem scalar_mult_reference:
  assumes "length k = 32" "length b = 32"
  shows "ScalarMult k b = le_bytes 32 (nat (X25519 (le_nat (clamp k)) (int (le_nat b) mod p25519))) \<and>
    ScalarBaseMult k = le_bytes 32 (nat (X25519 (le_nat (clamp k)) 9))"
  using scalarMult_X25519 [OF assms, of "int (le_nat b) mod p25519"] scalarMult_X25519 [OF assms(1) basePoint_nine(1), of 9]
  by (simp add: ScalarMult_def ScalarBaseMult_def basePoint_nine)

text \<open>Witness of C11: a scalar and a point with the x-coordinate 5.\<close>

theorem scalar_mult_reference_witness:
  "ScalarMult (replicate 32 7) (5 # replicate 31 0) =
     le_bytes 32 (nat (X25519 (le_nat (clamp (replicate 32 7))) (int (le_nat (5 # replicate 31 0)) mod p25519)))"
  using scalar_mult_reference [of "replicate 32 7" "5 # replicate 31 0"] by simp

text \<open>
  C36: on operands within the bounds the comments of the code give, multiplication, squaring and multiplication by 121666 never overflow
  their 32-bit and 64-bit intermediate values: they return limbs within the tighter bounds whose value is the product
  modulo the prime.
\<close>

theorem field_operations_exact:
  assumes "loose f" "loose g"
  shows "tight (feMul f g) \<and> fe_val (feMul f g) mod p25519 = fe_val f * fe_val g mod p25519 \<and>
    tight (feSquare f) \<and> fe_val (feSquare f) mod p25519 = (fe_val f)\<^sup>2 mod p25519 \<and>
    tight (feMul121666 f) \<and> fe_val (feMul121666 f) mod p25519 = 121666 * fe_val f mod p25519"
  using feMul_correct [OF assms] feSquare_correct [OF assms(1)] feMul121666_correct [OF assms(1)] by blast

text \<open>Witness of C36: the sum of one and one, times itself.\<close>

theorem field_operations_exact_witness:
  "loose (feAdd feOne feOne) \<and> fe_val (feMul (feAdd feOne feOne) (feAdd feOne feOne)) mod p25519 = 4 mod p25519"
proof -
  note t = feAdd_correct(1,2) [OF fe_constants(3) fe_constants(3)]
  then show ?thesis using field_operations_exact [OF t(1) t(1)] by (simp add: fe_constants)
qed

text \<open>
  C37: bytes read as a field element and written again are the canonical form: the number they stand for, reduced modulo the
  prime. A canonical string comes back unchanged.
\<close>

theorem field_bytes_canonical:
  assumes "length b = 32"
  shows "feToBytes (feFromBytes b) = le_bytes 32 (nat (int (le_nat b) mod p25519)) \<and>
    (int (le_nat b) < p25519 \<longrightarrow> feToBytes (feFromBytes b) = b)"
proof -
  have e: "feToBytes (feFromBytes b) = le_bytes 32 (nat (int (le_nat b) mod p25519))"
    using feFromBytes_rep [OF assms] feToBytes_value by (simp add: trep_def)
  moreover have "int (le_nat b) mod p25519 = int (le_nat b)" if "int (le_nat b) < p25519" using that by simp
  ultimately show ?thesis using le_bytes_le_nat [of b] assms by simp
qed

text \<open>Witness of C37: the base point.\<close>

theorem field_bytes_canonical_witness: "feToBytes (feFromBytes basePoint) = basePoint"
proof -
  have "int (le_nat basePoint) < p25519" by (simp add: basePoint_nine p25519_def)
  then show ?thesis using field_bytes_canonical [OF basePoint_nine(1)] by blast
qed

text \<open>
  C38: the top bit of the last byte of a point is not ignored, as it is by the assembly variant of the package and by RFC 7748: it adds 19
  to the x-coordinate, so the two variants work on different points.
\<close>

theorem high_bit_adds_19:
  assumes "length k = 32" "length b = 32" "bit (b ! 31) 7"
  shows "ScalarMult k b = le_bytes 32 (nat (X25519 (le_nat (clamp k)) (int (le_nat (b[31 := b ! 31 AND 127])) + 19)))"
proof -
  have s: "c = take 31 c @ [c ! 31]" if "length c = 32" for c :: bytes
    using that take_Suc_conv_app_nth [of 31 c] by simp
  have v: "le_nat c = le_nat (take 31 c) + 2 ^ 248 * unat (c ! 31)" if "length c = 32" for c :: bytes
    by (subst s [OF that]) (simp add: le_nat_append that)
  have u: "unat (b ! 31) = unat (b ! 31 AND 127) + 128"
  proof -
    have "b ! 31 AND 127 = take_bit 7 (b ! 31)" by (simp add: take_bit_eq_mask mask_eq_exp_minus_1)
    then have "unat (b ! 31 AND 127) = unat (b ! 31) mod 128" by (simp only: unsigned_take_bit_eq) (simp add: take_bit_eq_mod)
    moreover have "bit (unat (b ! 31)) 7" using assms(3) by (simp add: bit_unsigned_iff)
    then have "odd (unat (b ! 31) div 128)" by (simp add: bit_iff_odd)
    moreover have "unat (b ! 31) div 128 < 2"
      using unsigned_less [of "b ! 31", where ?'a = nat] by (simp add: less_mult_imp_div_less)
    ultimately have "unat (b ! 31) div 128 = 1" by (auto simp: less_2_cases_iff)
    moreover have "unat (b ! 31) = 128 * (unat (b ! 31) div 128) + unat (b ! 31) mod 128" by simp
    ultimately show ?thesis using \<open>unat (b ! 31 AND 127) = _\<close> by linarith
  qed
  have "le_nat (b[31 := b ! 31 AND 127]) = le_nat (take 31 b) + 2 ^ 248 * unat (b ! 31 AND 127)"
    using v [of "b[31 := b ! 31 AND 127]"] assms(2) by simp
  then have "int (le_nat b) = int (le_nat (b[31 := b ! 31 AND 127])) + 2 ^ 255"
    unfolding v [OF assms(2)] u by simp
  then have "int (le_nat b) = int (le_nat (b[31 := b ! 31 AND 127])) + 19 + p25519" by (simp add: p25519_def)
  then have "int (le_nat b) mod p25519 = (int (le_nat (b[31 := b ! 31 AND 127])) + 19) mod p25519" by simp
  from scalarMult_X25519 [OF assms(1,2) this] show ?thesis by (simp add: ScalarMult_def)
qed

text \<open>Witness of C38: the point whose only bit is the top one has the x-coordinate 19.\<close>

theorem high_bit_adds_19_witness:
  "ScalarMult (replicate 32 7) (replicate 31 0 @ [128]) = le_bytes 32 (nat (X25519 (le_nat (clamp (replicate 32 7))) 19))"
proof -
  have "le_nat (replicate n 0) = 0" for n by (induction n) simp_all
  then have "le_nat ((replicate 31 0 @ [128])[31 := 0]) = 0" by (simp add: le_nat_append list_update_append)
  then show ?thesis
    using high_bit_adds_19 [of "replicate 32 7" "replicate 31 0 @ [128]"] by (simp add: nth_append)
qed

end
