(* ===== verification/Spec2Isabelle.thy ===== *)
theory Spec2Isabelle
  imports Lifecycle Configuration Curve25519_Ladder
begin

text \<open>
  A verification of the userspace tunnel of the repository: the Go program under
  \<^verbatim>\<open>src/com.wireguard.android_tee/app/tools/wireguard-go\<close> (file names below are relative to it), with the parts of
  \<^verbatim>\<open>golang.org/x/crypto\<close> it uses, vendored under \<^verbatim>\<open>src/gopath/src/golang.org/x/crypto\<close>. It is WireGuard with the static private
  key of the device kept by a trusted application: the program holds an identifier of the key and asks the trusted
  application for public keys and shared secrets.

  \<^bold>\<open>The program and its parts.\<close> A \<^verbatim>\<open>Device\<close> has a TUN interface, sockets, a routing table from addresses to peers, an index table
  from session indices to handshakes and key pairs, a cookie checker, a rate limiter and queues. A \<^verbatim>\<open>Peer\<close> has a handshake,
  three key pairs (previous, current, next), queues, timers and a cookie generator. Packets read from the TUN interface are
  routed to a peer, given a counter of its current key pair, encrypted and sent in order. Datagrams are classified; transport
  messages are decrypted and delivered in order after the replay check; handshake messages go to a worker that checks the
  authenticators, answers with cookies under load, and runs the handshake. Timers retransmit, keep sessions alive and delete
  keys. A text protocol configures the device.

  \<^bold>\<open>Conventions.\<close> A Go integer is a word of its width, or an \<^typ>\<open>int\<close> with its wrap-around written out where the code computes with
  signed 64-bit times. A byte slice is a list of bytes, read and sliced with bounds checks. \<^const>\<open>None\<close> as the result of an
  operation stands for a panic or for an operation that never returns; errors the code returns are values of a sum or
  option type. Objects that the code shares by pointer (peers, key pairs, elements of the queues) live in heaps of the
  record \<open>Device\<close>, under addresses. What an operation gets from outside, the clock at each place it is read, the random
  draws, the answers of system calls, of the trusted application and of the scalar multiplication, is the record \<open>World\<close>. A
  goroutine is cut at its \<^verbatim>\<open>select\<close> statements into operations that run without interruption.

  \<^bold>\<open>The theories, from the bottom.\<close>

  \<^item> \<open>Prelude\<close>: bytes, byte orders, bits of byte strings, slices, and the rules for operations that may not return
    (\<open>returning\<close>). \<open>GoLib\<close> and \<open>GoNet\<close>: what the code uses of the Go library (signed arithmetic, \<^verbatim>\<open>time\<close>, \<^verbatim>\<open>net\<close>,
    \<^verbatim>\<open>strings\<close>, \<^verbatim>\<open>strconv\<close>, channels). \<open>Constants\<close>: the constants of the protocol.

  \<^item> \<open>AllowedIPs\<close> (\<^verbatim>\<open>allowedips.go\<close>): the trie against a map from prefixes to peers. Lookup is longest-prefix match, insertion
    updates one prefix, the entries of a peer are listed exactly; removal never leaves a route of the removed peer but can
    drop routes of others, and the condition under which it does not is proved too. \<open>Replay\<close> (\<^verbatim>\<open>replay/replay.go\<close>): the ring
    of words refines a set of counters. \<open>Ratelimiter\<close> (\<^verbatim>\<open>ratelimiter/ratelimiter.go\<close>): token buckets against a budget that
    only time and grants change. \<open>IndexTable\<close> (\<^verbatim>\<open>indextable.go\<close>), \<open>Tai64n\<close> (\<^verbatim>\<open>tai64n/tai64n.go\<close>), \<open>NoiseTypes\<close>
    (\<^verbatim>\<open>noise-types.go\<close>).

  \<^item> \<open>Blake2s\<close>, \<open>Kdf\<close>, \<open>ChaCha20\<close>, \<open>Poly1305\<close>, \<open>Aead\<close>: the cryptography, as the generic Go code computes it
    (\<^verbatim>\<open>blake2s\<close>, \<^verbatim>\<open>noise-helpers.go\<close>, \<^verbatim>\<open>internal/chacha20\<close>, \<^verbatim>\<open>poly1305\<close>, \<^verbatim>\<open>chacha20poly1305\<close>, \<^verbatim>\<open>xchacha20poly1305\<close>), with the
    equivalence of the buffered code with one-shot definitions and the round trips of sealing and opening. \<open>Messages\<close>: the
    wire formats. \<open>Cookie\<close> (\<^verbatim>\<open>cookie.go\<close>): the two authenticators and the cookie exchange. \<open>Wgtee\<close> (\<^verbatim>\<open>wgtee\<close>): the client of the
    trusted application.

  \<^item> \<open>Curve25519\<close> (\<^verbatim>\<open>curve25519/curve25519.go\<close>): the field arithmetic in limbs of machine integers, without overflow within stated
    bounds and equal to arithmetic modulo the prime. \<open>Curve25519_Ladder\<close>: the scalar multiplication equals the ladder with
    the textbook formulas, and the byte formats are canonical. \<open>World\<close> still takes the scalar multiplication as a parameter,
    since the platforms with assembly use another one.

  \<^item> \<open>State\<close>: the records of \<^verbatim>\<open>device.go\<close>, \<^verbatim>\<open>peer.go\<close>, \<^verbatim>\<open>keypair.go\<close>, \<^verbatim>\<open>timers.go\<close>, the heaps and their laws. \<open>NoiseProtocol\<close>
    (\<^verbatim>\<open>noise-protocol.go\<close>, \<^verbatim>\<open>keypair.go\<close>): the handshake; two configured devices agree on their keys. \<open>Timers\<close> and \<open>Expiry\<close>
    (\<^verbatim>\<open>timers.go\<close>), \<open>Send\<close> (\<^verbatim>\<open>send.go\<close>), \<open>Peers\<close> (\<^verbatim>\<open>peer.go\<close>), \<open>Receive\<close> (\<^verbatim>\<open>receive.go\<close>), \<open>Control\<close> (\<^verbatim>\<open>device.go\<close>, \<^verbatim>\<open>conn.go\<close>,
    \<^verbatim>\<open>conn_default.go\<close>, \<^verbatim>\<open>tun.go\<close>), \<open>Uapi\<close> (\<^verbatim>\<open>uapi.go\<close>): one definition per operation. \<open>Transport\<close>: what one end encrypts the
    other end delivers, and the receiver writes only packets that passed the replay check and the check of their source.

  \<^item> \<open>Frames\<close>: locales for observations of the device that the outbound path does not change, interpreted by the theories
    that reason about whole operations. \<open>Steps\<close>: the device as a transition system with one rule per operation, in any
    interleaving, its reachable states, and the locale of invariants. \<open>Sessions\<close>: the locale that carries an invariant of
    packets and sessions through handshakes, timers, control and configuration to every step; \<open>Nonces\<close> and \<open>Totality\<close>
    interpret it. \<open>Indices\<close>, \<open>Nonces\<close>, \<open>Totality\<close>: three invariants of all reachable devices, that the index table is
    exact, that no counter of a key pair is used twice, and that the data path is well typed and never panics.

  \<^item> \<open>Lifecycle\<close>: bringing the device up and down settles, and a change of the key may block. \<open>Configuration\<close>: adding a
    peer over the configuration protocol.

  \<^bold>\<open>Loops and bounds.\<close> Loops of the code over bounded data are structural recursions. The loop of
  \<open>NewIndexForHandshake\<close> draws until an index is free: the model takes the list of draws and is \<^const>\<open>None\<close> when it is used up
  before a free index, and the property of the index table states when it ends. \<open>deviceUpdateState\<close> calls itself
  until the state of the device is the wanted one; it is a recursive function whose measure shows that two rounds are enough, since the
  second can only bring the device down. A blocking send on
  a full channel that nothing can drain, and the acquisition of a lock the same operation holds, are \<^const>\<open>None\<close>.

  \<^bold>\<open>Not modelled.\<close> System calls and what only wraps them: the TUN drivers, cancellable reads, the listener of the configuration
  socket, process start, the Android entry points, logging. Memory management: elements carry their content, and the buffer pools are not
  modelled. The assembly variants of the cryptography, which the platforms with assembly use in place of the modelled Go
  code. The socket code of \<^verbatim>\<open>conn_linux.go\<close> is excluded from Android builds by its build tag. The trusted application itself is outside of
  the repository.
\<close>

end
